(* ===== verification/Prelude.thy ===== *)
theory Prelude
  imports Main "HOL-Library.Finite_Map" "HOL-Library.List_Lexorder" "HOL-Library.Char_ord"
    "HOL-Library.Multiset"
begin

text \<open>
  What every component shares: Go strings, errors, maps and integers, and the generic lemmas
  the component theories use.

  \<^item> A Go \<open>string\<close> is a byte string: \<open>string\<close>, with the library's lexicographic order for \<open><\<close>.
  \<^item> A Go \<open>error\<close> is its message; a function that returns \<open>(T, error)\<close> returns a value of
    \<open>T result\<close>, with \<open>Inl\<close> for a non-nil error.
  \<^item> A Go \<open>map[string]V\<close> is \<open>None\<close> when nil, else a finite map. Where the code ranges over a map,
    the order in which the runtime enumerates the keys is an explicit argument of the definition,
    and \<open>enumerates\<close> says what an enumeration is.
  \<^item> A Go \<open>int\<close>, \<open>int64\<close> or \<open>int32\<close> is an \<open>int\<close>, with the wrap-around written out by
    \<open>wrap64\<close> and \<open>wrap32\<close>.
\<close>

section \<open>Collections of lemmas\<close>

named_theorems go_defs "definitions of Go's library operations, to unfold when evaluating"
named_theorems enc_defs "encoders to JSON, to unfold when evaluating"

section \<open>Errors\<close>

type_synonym error = string
type_synonym 'a result = "error + 'a"

abbreviation is_err :: "'e + 'a \<Rightarrow> bool" where
  "is_err r \<equiv> isl r"

definition wrap_err :: "string \<Rightarrow> error \<Rightarrow> error" where
  "wrap_err ctx e = ctx @ '': '' @ e"

lemma wrap_err_inject [simp]: "wrap_err c e = wrap_err c e' \<longleftrightarrow> e = e'"
  by (simp add: wrap_err_def)

lemma wrap_err_nonempty [simp]: "wrap_err c e \<noteq> []"
  by (simp add: wrap_err_def)

section \<open>Integers\<close>

definition wrap64 :: "int \<Rightarrow> int" where
  "wrap64 n = signed_take_bit 63 n"

definition wrap32 :: "int \<Rightarrow> int" where
  "wrap32 n = signed_take_bit 31 n"

definition max_int64 :: int where "max_int64 = 2 ^ 63 - 1"
definition min_int64 :: int where "min_int64 = - (2 ^ 63)"

lemma wrap64_id [simp]: "min_int64 \<le> n \<Longrightarrow> n \<le> max_int64 \<Longrightarrow> wrap64 n = n"
  unfolding wrap64_def min_int64_def max_int64_def by (rule signed_take_bit_int_eq_self) auto

lemma wrap64_range: "min_int64 \<le> wrap64 n \<and> wrap64 n \<le> max_int64"
  using signed_take_bit_int_greater_eq_minus_exp [of 63 n] signed_take_bit_int_less_exp [of 63 n]
  by (auto simp: wrap64_def min_int64_def max_int64_def)

lemma wrap64_Suc: "wrap64 (1 + wrap64 n) = wrap64 (1 + n)"
proof -
  have "wrap64 (wrap64 1 + wrap64 n) = wrap64 (1 + n)"
    unfolding wrap64_def by (rule signed_take_bit_add)
  then show ?thesis by (simp add: wrap64_id min_int64_def max_int64_def)
qed

lemma wrap32_id [simp]: "- (2 ^ 31) \<le> n \<Longrightarrow> n < 2 ^ 31 \<Longrightarrow> wrap32 n = n"
  unfolding wrap32_def by (rule signed_take_bit_int_eq_self) auto

lemma wrap32_range: "- (2 ^ 31) \<le> wrap32 n \<and> wrap32 n < 2 ^ 31"
  using signed_take_bit_int_greater_eq_minus_exp [of 31 n] signed_take_bit_int_less_exp [of 31 n]
  by (auto simp: wrap32_def)

section \<open>Decimal rendering of integers (the verb \<open>%d\<close>)\<close>

definition digit :: "nat \<Rightarrow> char" where
  "digit d = char_of (48 + d)"

fun show_nat :: "nat \<Rightarrow> string" where
  "show_nat n = (if n < 10 then [digit n] else show_nat (n div 10) @ [digit (n mod 10)])"

declare show_nat.simps [simp del]

definition show_int :: "int \<Rightarrow> string" where
  "show_int i = (if i < 0 then ''-'' @ show_nat (nat (- i)) else show_nat (nat i))"

lemma show_nat_nonempty [simp]: "show_nat n \<noteq> []"
  by (subst show_nat.simps) simp

section \<open>Maps\<close>

type_synonym 'v gomap = "(string, 'v) fmap option"

definition mlookup :: "'v gomap \<Rightarrow> string \<Rightarrow> 'v option" where
  "mlookup m k = (case m of None \<Rightarrow> None | Some f \<Rightarrow> fmlookup f k)"

definition mget :: "string gomap \<Rightarrow> string \<Rightarrow> string" where
  "mget m k = (case mlookup m k of None \<Rightarrow> [] | Some v \<Rightarrow> v)"

definition mkeys :: "'v gomap \<Rightarrow> string set" where
  "mkeys m = dom (mlookup m)"

lemma mlookup_simps [simp]:
  "mlookup None k = None"
  "mlookup (Some f) k = fmlookup f k"
  by (simp_all add: mlookup_def)

lemma mget_simps [simp]:
  "mget None k = []"
  "mget (Some f) k = (case fmlookup f k of None \<Rightarrow> [] | Some v \<Rightarrow> v)"
  by (simp_all add: mget_def)

lemma mget_lookup: "mlookup m k = Some v \<Longrightarrow> mget m k = v"
  by (simp add: mget_def)

definition enumerates :: "'k list \<Rightarrow> ('k \<Rightarrow> 'v option) \<Rightarrow> bool" where
  "enumerates ks m \<longleftrightarrow> distinct ks \<and> set ks = dom m"

lemma enumerates_set: "enumerates ks m \<Longrightarrow> set ks = dom m"
  by (simp add: enumerates_def)

lemma enumerates_distinct: "enumerates ks m \<Longrightarrow> distinct ks"
  by (simp add: enumerates_def)

lemma enumerates_mset: "enumerates ks m \<Longrightarrow> enumerates ks' m \<Longrightarrow> mset ks = mset ks'"
  by (metis enumerates_def set_eq_iff_mset_eq_distinct)

section \<open>Lists\<close>

lemma mset_permute_set: "mset xs = mset ys \<Longrightarrow> set xs = set ys"
  by (rule mset_eq_setD)

lemma find_SomeD: "List.find P xs = Some x \<Longrightarrow> x \<in> set xs \<and> P x"
  by (auto simp: find_Some_iff)

lemma find_map_cong:
  assumes "\<And>x. x \<in> set xs \<Longrightarrow> P (f x) = P x"
  shows "List.find P (map f xs) = map_option f (List.find P xs)"
  using assms by (induction xs) simp_all

lemma find_append: "List.find P (xs @ ys) = (case List.find P xs of None \<Rightarrow> List.find P ys | r \<Rightarrow> r)"
  by (induction xs) simp_all

lemma set_map_filter_ex: "set (List.map_filter f xs) = {y. \<exists>x \<in> set xs. f x = Some y}"
  by (induction xs) (auto simp: map_filter_simps split: option.splits)

lemma sorted_list_of_fmdom:
  "sorted_list_of_fset (fmdom (fmap_of_list kvs)) = sort (remdups (map fst kvs))"
  by (simp add: sorted_list_of_fset.rep_eq fset_of_list.rep_eq
      sorted_list_of_set_sort_remdups flip: set_map)

end
