(* ===== verification/Float64.thy ===== *)
theory Float64
  imports Prelude Complex_Main "HOL-Library.Log_Nat"
begin

text \<open>
  The rounding of IEEE binary64, which Go's \<open>float64\<close> values and \<open>encoding/json\<close> rest on: a float is
  the rational it denotes. Infinities and NaN do not occur (a text out of range does not decode), and
  the sign of zero is not represented. The result that matters is that rounding is idempotent: a float
  that has been written out and read back is the same float.
\<close>

section \<open>Rounding\<close>

definition pow2 :: "int \<Rightarrow> rat" where
  "pow2 k = (if 0 \<le> k then 2 ^ nat k else 1 / 2 ^ nat (- k))"

definition round_half_even :: "rat \<Rightarrow> int" where
  "round_half_even q =
     (let f = \<lfloor>q\<rfloor>; r = q - of_int f in
      if r < 1 / 2 then f else if r > 1 / 2 then f + 1 else if even f then f else f + 1)"

definition log2_floor :: "rat \<Rightarrow> int" where
  "log2_floor q =
     (let (a, b) = quotient_of q; k = int (floorlog 2 (nat a)) - int (floorlog 2 (nat b))
      in if pow2 k \<le> q then k else k - 1)"

definition fl64 :: "rat \<Rightarrow> rat" where
  \<comment> \<open>the float64 nearest to a non-negative rational, ties to even; subnormal below \<open>2 ^ -1022\<close>\<close>
  "fl64 q =
     (if q = 0 then 0
      else (let e = max (log2_floor q - 52) (- 1074) in of_int (round_half_even (q / pow2 e)) * pow2 e))"

definition float64 :: "rat \<Rightarrow> rat" where
  "float64 q = (if q < 0 then - fl64 (- q) else fl64 q)"

lemma log2_floor_1: "log2_floor (1::rat) = 0"
  by (simp add: log2_floor_def pow2_def floorlog_def)

lemma log2_floor_six_tenths: "log2_floor (3/5::rat) = -1"
  by code_simp

lemma fl64_1: "fl64 1 = 1"
  by (simp add: fl64_def log2_floor_1 pow2_def round_half_even_def Let_def)

lemma fl64_six_tenths: "fl64 (3/5) = 5404319552844595/9007199254740992"
proof -
  have "\<lfloor>27021597764222976 / 5 :: rat\<rfloor> = 5404319552844595" by (rule floor_unique) simp_all
  then show ?thesis by (simp add: fl64_def log2_floor_six_tenths pow2_def round_half_even_def Let_def)
qed

definition format_fixed2 :: "rat \<Rightarrow> string" where
  \<comment> \<open>the verb \<open>%.2f\<close>\<close>
  "format_fixed2 q =
     (let n = round_half_even (\<bar>q\<bar> * 100) in
      (if q < 0 then ''-'' else []) @ show_int (n div 100) @ ''.'' @
      [digit (nat (n div 10 mod 10)), digit (nat (n mod 10))])"

section \<open>Rounding again changes nothing\<close>

lemma pow2_powi: "pow2 k = 2 powi k"
  by (simp add: pow2_def power_int_def inverse_eq_divide power_one_over)

lemma pow2_pos [simp]: "0 < pow2 k"
  by (simp add: pow2_powi)

lemma pow2_add: "pow2 (j + k) = pow2 j * pow2 k"
  by (simp add: pow2_powi power_int_add)

lemma pow2_strict_mono: "pow2 j < pow2 k \<longleftrightarrow> j < k"
proof
  assume "pow2 j < pow2 k"
  then show "j < k"
    using power_int_increasing [of k j "2::rat"] by (force simp: pow2_powi not_less [symmetric])
next
  assume "j < k"
  then show "pow2 j < pow2 k" by (simp add: pow2_powi power_int_strict_increasing)
qed

lemma pow2_mono: "pow2 j \<le> pow2 k \<longleftrightarrow> j \<le> k"
  using pow2_strict_mono [of k j] by linarith

lemma pow2_nat: "pow2 (int n) = 2 ^ n"
  by (simp add: pow2_def)

lemma log2_floor_bounds:
  assumes "0 < q"
  shows "pow2 (log2_floor q) \<le> q \<and> q < pow2 (log2_floor q + 1)"
proof -
  obtain a b where ab: "quotient_of q = (a, b)" by (metis prod.exhaust)
  have b: "0 < b" using quotient_of_denom_pos [OF ab] .
  have q: "q = of_int a / of_int b" using quotient_of_div [OF ab] .
  have a: "0 < a" using assms b by (simp add: q zero_less_divide_iff)
  have fl: "2 ^ (floorlog 2 (nat n) - 1) \<le> rat_of_int n" "rat_of_int n < 2 ^ floorlog 2 (nat n)"
    "0 < floorlog 2 (nat n)" if n: "0 < n" for n
  proof -
    have f: "2 ^ (floorlog 2 (nat n) - 1) \<le> nat n \<and> nat n < 2 ^ floorlog 2 (nat n)"
      using floorlog_bounds [of "nat n" 2] n by simp
    then have "rat_of_nat (2 ^ (floorlog 2 (nat n) - 1)) \<le> rat_of_nat (nat n)"
      "rat_of_nat (nat n) < rat_of_nat (2 ^ floorlog 2 (nat n))"
      by (simp_all only: of_nat_le_iff of_nat_less_iff)
    with n show "2 ^ (floorlog 2 (nat n) - 1) \<le> rat_of_int n" "rat_of_int n < 2 ^ floorlog 2 (nat n)"
      by simp_all
    show "0 < floorlog 2 (nat n)" using n by (simp add: floorlog_def)
  qed
  let ?A = "int (floorlog 2 (nat a))" and ?B = "int (floorlog 2 (nat b))"
  have A: "pow2 (?A - 1) \<le> of_int a" "of_int a < pow2 ?A"
    using fl(1,2) [OF a] fl(3) [OF a] by (simp_all add: pow2_def nat_diff_distrib)
  have B: "pow2 (?B - 1) \<le> of_int b" "of_int b < pow2 ?B"
    using fl(1,2) [OF b] fl(3) [OF b] by (simp_all add: pow2_def nat_diff_distrib)
  have hi: "q < pow2 (?A - ?B + 1)"
  proof -
    have "pow2 (?A - ?B + 1) * pow2 (?B - 1) = pow2 ?A" by (simp flip: pow2_add)
    moreover have "pow2 (?A - ?B + 1) * pow2 (?B - 1) \<le> pow2 (?A - ?B + 1) * of_int b"
      using B(1) by (simp add: less_imp_le)
    ultimately show ?thesis using A(2) b by (simp add: q divide_less_eq)
  qed
  have lo: "pow2 (?A - ?B - 1) \<le> q"
  proof -
    have "pow2 (?A - ?B - 1) * pow2 ?B = pow2 (?A - 1)" by (simp flip: pow2_add)
    moreover have "pow2 (?A - ?B - 1) * of_int b \<le> pow2 (?A - ?B - 1) * pow2 ?B"
      using B(2) by (simp add: less_imp_le)
    ultimately show ?thesis using A(1) b by (simp add: q le_divide_eq)
  qed
  from hi lo show ?thesis by (auto simp: log2_floor_def ab Let_def not_le)
qed

lemma log2_floor_unique:
  assumes "pow2 k \<le> q" "q < pow2 (k + 1)"
  shows "log2_floor q = k"
proof -
  have "0 < q" using assms(1) pow2_pos [of k] by linarith
  from log2_floor_bounds [OF this] assms
  have "pow2 k < pow2 (log2_floor q + 1)" "pow2 (log2_floor q) < pow2 (k + 1)" by linarith+
  then show ?thesis by (simp add: pow2_strict_mono)
qed

lemma round_half_even_int [simp]: "round_half_even (of_int n) = n"
  by (simp add: round_half_even_def)

lemma round_half_even_cases:
  "round_half_even q = \<lfloor>q\<rfloor> \<or> round_half_even q = \<lfloor>q\<rfloor> + 1 \<and> of_int \<lfloor>q\<rfloor> < q"
  by (auto simp: round_half_even_def Let_def)

lemma round_half_even_le: "q < of_int n \<Longrightarrow> round_half_even q \<le> n"
  using round_half_even_cases [of q] by (auto simp: floor_less_iff [symmetric])

lemma round_half_even_ge: "of_int n \<le> q \<Longrightarrow> n \<le> round_half_even q"
  using round_half_even_cases [of q] by (auto simp: le_floor_iff [symmetric])

text \<open>
  A multiple of a power of two with at most 53 bits is a float.
\<close>

lemma fl64_exact:
  assumes "0 < r" "r \<le> 2 ^ 53" "- 1074 \<le> e" "2 ^ 52 \<le> r \<or> e = - 1074"
  shows "fl64 (of_int r * pow2 e) = of_int r * pow2 e"
proof -
  let ?v = "of_int r * pow2 e"
  have v: "0 < ?v" using assms(1) by simp
  have eq: "fl64 ?v = ?v" if "max (log2_floor ?v - 52) (- 1074) = e'" "?v = of_int n * pow2 e'" for n e'
    using v that(1) by (simp add: fl64_def) (simp add: that(2))
  show ?thesis
  proof (cases "r = 2 ^ 53")
    case True
    have p: "?v = pow2 (e + 53)" unfolding pow2_add True by (simp add: pow2_def [of 53])
    then have "log2_floor ?v = e + 53" by (intro log2_floor_unique) (simp_all add: pow2_strict_mono pow2_mono)
    then have "max (log2_floor ?v - 52) (- 1074) = e + 1" using assms(3) by simp
    moreover have "?v = of_int (2 ^ 52) * pow2 (e + 1)"
      unfolding p pow2_add by (simp add: pow2_def [of 53] pow2_def [of 1])
    ultimately show ?thesis by (rule eq)
  next
    case False
    have L: "pow2 (log2_floor ?v) \<le> ?v" "?v < pow2 (log2_floor ?v + 1)"
      using log2_floor_bounds [OF v] by simp_all
    have "rat_of_int r < rat_of_int (2 ^ 53)" unfolding of_int_less_iff using assms(2) False by simp
    then have "?v < pow2 (53 + e)" by (simp add: pow2_add pow2_def [of 53])
    with L(1) have "pow2 (log2_floor ?v) < pow2 (53 + e)" by linarith
    then have up: "log2_floor ?v \<le> e + 52" by (simp add: pow2_strict_mono)
    have low: "e + 52 \<le> log2_floor ?v" if "2 ^ 52 \<le> r"
    proof -
      have "rat_of_int (2 ^ 52) \<le> rat_of_int r" unfolding of_int_le_iff by (rule that)
      then have "pow2 (52 + e) \<le> ?v" by (simp add: pow2_add pow2_def [of 52])
      with L(2) have "pow2 (52 + e) < pow2 (log2_floor ?v + 1)" by linarith
      then show ?thesis by (simp add: pow2_strict_mono)
    qed
    from up low assms(3,4) show ?thesis by (intro eq [where e' = e and n = r]) auto
  qed
qed

lemma fl64_form:
  assumes "0 < q"
  shows "\<exists>r e. fl64 q = of_int r * pow2 e \<and> 0 \<le> r \<and> r \<le> 2 ^ 53 \<and> - 1074 \<le> e \<and> (2 ^ 52 \<le> r \<or> e = - 1074)"
proof -
  let ?L = "log2_floor q" and ?e = "max (log2_floor q - 52) (- 1074)"
  let ?m = "q / pow2 ?e"
  have L: "pow2 ?L \<le> q" "q < pow2 (?L + 1)" using log2_floor_bounds [OF assms] by simp_all
  have "pow2 (?L + 1) \<le> pow2 (53 + ?e)" by (simp add: pow2_mono)
  also have "\<dots> = 2 ^ 53 * pow2 ?e" by (simp add: pow2_add pow2_def [of 53])
  finally have "?m < of_int (2 ^ 53)" using L(2) by (simp add: divide_less_eq)
  then have up: "round_half_even ?m \<le> 2 ^ 53" by (rule round_half_even_le)
  have "of_int 0 \<le> ?m" using assms by (simp add: less_imp_le)
  then have pos: "0 \<le> round_half_even ?m" by (rule round_half_even_ge)
  have low: "2 ^ 52 \<le> round_half_even ?m" if "?e \<noteq> - 1074"
  proof -
    from that have "?L = 52 + ?e" by linarith
    then have "pow2 (52 + ?e) \<le> q" using L(1) by simp
    then have "of_int (2 ^ 52) \<le> ?m" by (simp add: le_divide_eq pow2_add pow2_def [of 52])
    then show ?thesis by (rule round_half_even_ge)
  qed
  have "fl64 q = of_int (round_half_even ?m) * pow2 ?e" using assms by (simp add: fl64_def Let_def)
  with up pos low show ?thesis by (intro exI [where x = "round_half_even ?m"] exI [where x = ?e]) auto
qed

lemma fl64_nonneg: "0 \<le> q \<Longrightarrow> 0 \<le> fl64 q"
proof (cases "q = 0")
  case False
  assume "0 \<le> q"
  with False obtain r e where "fl64 q = of_int r * pow2 e" "0 \<le> r" using fl64_form [of q] by auto
  with less_imp_le [OF pow2_pos [of e]] show ?thesis by simp
qed (simp add: fl64_def)

lemma fl64_zero [simp]: "fl64 0 = 0"
  by (simp add: fl64_def)

lemma fl64_idem: "0 \<le> q \<Longrightarrow> fl64 (fl64 q) = fl64 q"
proof (cases "q = 0")
  case False
  assume "0 \<le> q"
  with False obtain r e where re: "fl64 q = of_int r * pow2 e" "0 \<le> r" "r \<le> 2 ^ 53" "- 1074 \<le> e"
    "2 ^ 52 \<le> r \<or> e = - 1074"
    using fl64_form [of q] by auto
  show ?thesis
  proof (cases "r = 0")
    case True
    with re(1) show ?thesis by simp
  next
    case False
    with re(2) have "0 < r" by simp
    from fl64_exact [OF this re(3-5)] show ?thesis unfolding re(1) .
  qed
qed simp

lemma float64_zero [simp]: "float64 0 = 0"
  by (simp add: float64_def)

text \<open>
  A float64 read back is the same float64.
\<close>

lemma float64_idem [simp]: "float64 (float64 q) = float64 q"
proof (cases "q < 0")
  case True
  then have "0 \<le> - q" by simp
  with fl64_nonneg [OF this] fl64_idem [OF this] True show ?thesis
    by (cases "fl64 (- q) = 0") (auto simp: float64_def)
next
  case False
  then have "0 \<le> q" by simp
  with fl64_nonneg [OF this] fl64_idem [OF this] show ?thesis by (simp add: float64_def not_less [symmetric])
qed

end
