(* ===== verification/GoTime.thy ===== *)
theory GoTime
  imports Float64 "HOL-Library.Monad_Syntax"
begin

text \<open>
  What the program uses of Go's packages \<open>time\<close> and \<open>strconv\<close>: instants, durations, the calendar,
  \<open>time.ParseDuration\<close> and \<open>time.Parse\<close> with the layout RFC3339Nano.

  An instant is its number of nanoseconds since the Unix epoch (the location of a \<open>time.Time\<close> is
  not modelled: all texts are in UTC). A duration is an \<open>int64\<close> number of nanoseconds.
\<close>

section \<open>Instants and durations\<close>

type_synonym time = int
type_synonym duration = int

definition second :: duration where "second = 1000000000"
definition minute :: duration where "minute = 60 * second"
definition hour :: duration where "hour = 60 * minute"

definition sat64 :: "int \<Rightarrow> duration" where
  "sat64 n = max min_int64 (min max_int64 n)"

definition time_sub :: "time \<Rightarrow> time \<Rightarrow> duration" where
  "time_sub t u = sat64 (t - u)"

definition time_add :: "time \<Rightarrow> duration \<Rightarrow> time" where
  "time_add t d = t + d"

definition duration_neg :: "duration \<Rightarrow> duration" where
  "duration_neg d = wrap64 (- d)"

definition time_unix :: "time \<Rightarrow> int" where
  "time_unix t = t div second"

lemma sat64_mono: "m \<le> n \<Longrightarrow> sat64 m \<le> sat64 n"
  by (simp add: sat64_def)

lemma time_sub_mono: "t \<le> t' \<Longrightarrow> time_sub t u \<le> time_sub t' u"
  by (simp add: time_sub_def sat64_mono)

lemma time_sub_anti: "u \<le> u' \<Longrightarrow> time_sub t u' \<le> time_sub t u"
  by (simp add: time_sub_def sat64_mono)

lemma time_sub_exact:
  "min_int64 \<le> t - u \<Longrightarrow> t - u \<le> max_int64 \<Longrightarrow> time_sub t u = t - u"
  by (simp add: time_sub_def sat64_def)

section \<open>The calendar\<close>

definition is_leap :: "int \<Rightarrow> bool" where
  "is_leap y \<longleftrightarrow> y mod 4 = 0 \<and> (y mod 100 \<noteq> 0 \<or> y mod 400 = 0)"

definition days_before :: "nat \<Rightarrow> int" where
  "days_before m = [0, 31, 59, 90, 120, 151, 181, 212, 243, 273, 304, 334, 365] ! m"

definition days_in :: "nat \<Rightarrow> int \<Rightarrow> int" where
  "days_in m y = (if m = 2 \<and> is_leap y then 29 else days_before m - days_before (m - 1))"

definition days_before_year :: "int \<Rightarrow> int" where
  \<comment> \<open>days from 0000-01-01 to the first day of the year, proleptic Gregorian\<close>
  "days_before_year y = 365 * y + (y + 3) div 4 - (y + 99) div 100 + (y + 399) div 400"

definition epoch_days :: int where "epoch_days = 719528"

definition days_from_civil :: "int \<Rightarrow> nat \<Rightarrow> int \<Rightarrow> int" where
  "days_from_civil y m d =
     days_before_year y + days_before (m - 1) + (if 2 < m \<and> is_leap y then 1 else 0)
       + (d - 1) - epoch_days"

definition year_of_days :: "int \<Rightarrow> int" where
  "year_of_days n =
     (let y0 = (400 * (n + epoch_days)) div 146097 in
      if n + epoch_days < days_before_year y0 then y0 - 1
      else if days_before_year (y0 + 1) \<le> n + epoch_days then y0 + 1 else y0)"

fun month_of_yday :: "bool \<Rightarrow> int \<Rightarrow> nat \<Rightarrow> nat" where
  "month_of_yday leap yd 0 = 1"
| "month_of_yday leap yd (Suc m) =
     (if days_before (Suc m) + (if leap \<and> 2 \<le> Suc m then 1 else 0) \<le> yd then Suc (Suc m)
      else month_of_yday leap yd m)"

definition civil_from_days :: "int \<Rightarrow> int \<times> nat \<times> int" where
  "civil_from_days n =
     (let y = year_of_days n;
          yd = n + epoch_days - days_before_year y;
          m = month_of_yday (is_leap y) yd 11
      in (y, m, yd - days_before (m - 1) - (if 2 < m \<and> is_leap y then 1 else 0) + 1))"

section \<open>Texts of instants\<close>

definition pad :: "nat \<Rightarrow> nat \<Rightarrow> string" where
  "pad w n = (let s = show_nat n in replicate (w - length s) (CHR ''0'') @ s)"

definition day_of :: "time \<Rightarrow> int" where "day_of t = t div (86400 * second)"
definition sec_of_day :: "time \<Rightarrow> int" where "sec_of_day t = (t div second) mod 86400"
definition nanos_of :: "time \<Rightarrow> int" where "nanos_of t = t mod second"

definition rstrip0 :: "string \<Rightarrow> string" where
  "rstrip0 s = rev (dropWhile (\<lambda>c. c = CHR ''0'') (rev s))"

definition frac_nano :: "int \<Rightarrow> string" where
  \<comment> \<open>the layout element \<open>.999999999\<close>: trailing zeros dropped, and the point with them\<close>
  "frac_nano ns = (if ns = 0 then [] else CHR ''.'' # rstrip0 (pad 9 (nat ns)))"

definition format_rfc3339nano :: "time \<Rightarrow> string" where
  "format_rfc3339nano t =
     (let (y, m, d) = civil_from_days (day_of t); s = sec_of_day t in
      pad 4 (nat y) @ ''-'' @ pad 2 m @ ''-'' @ pad 2 (nat d) @ ''T'' @
      pad 2 (nat (s div 3600)) @ '':'' @ pad 2 (nat (s div 60 mod 60)) @ '':'' @
      pad 2 (nat (s mod 60)) @ frac_nano (nanos_of t) @ ''Z'')"

definition format_micro_id :: "time \<Rightarrow> string" where
  \<comment> \<open>the layout \<open>20060102-150405.000000\<close>\<close>
  "format_micro_id t =
     (let (y, m, d) = civil_from_days (day_of t); s = sec_of_day t in
      pad 4 (nat y) @ pad 2 m @ pad 2 (nat d) @ ''-'' @
      pad 2 (nat (s div 3600)) @ pad 2 (nat (s div 60 mod 60)) @ pad 2 (nat (s mod 60)) @ ''.'' @
      pad 6 (nat (nanos_of t div 1000)))"

section \<open>Parsing a time\<close>

definition is_digit :: "char \<Rightarrow> bool" where
  "is_digit c \<longleftrightarrow> 48 \<le> (of_char c :: nat) \<and> (of_char c :: nat) \<le> 57"

definition digit_val :: "char \<Rightarrow> nat" where
  "digit_val c = of_char c - 48"

definition digits_val :: "string \<Rightarrow> nat" where
  "digits_val s = foldl (\<lambda>x c. 10 * x + digit_val c) 0 s"

definition take_lit :: "char \<Rightarrow> string \<Rightarrow> string option" where
  "take_lit c s = (case s of [] \<Rightarrow> None | x # xs \<Rightarrow> if x = c then Some xs else None)"

definition take_digits :: "nat \<Rightarrow> string \<Rightarrow> (nat \<times> string) option" where
  "take_digits n s =
     (if n \<le> length s \<and> list_all is_digit (take n s)
      then Some (digits_val (take n s), drop n s) else None)"

definition take_hour :: "string \<Rightarrow> (nat \<times> string) option" where
  \<comment> \<open>the layout element \<open>15\<close> takes one or two digits\<close>
  "take_hour s = (case take_digits 2 s of Some r \<Rightarrow> Some r | None \<Rightarrow> take_digits 1 s)"

definition comma_or_period :: "char \<Rightarrow> bool" where
  "comma_or_period c \<longleftrightarrow> c = CHR ''.'' \<or> c = CHR '',''"

definition take_frac :: "string \<Rightarrow> nat \<times> string" where
  "take_frac s =
     (case s of
        c # d # rest \<Rightarrow>
          if comma_or_period c \<and> is_digit d
          then (let ds = takeWhile is_digit (d # rest); ds9 = take 9 ds
                in (digits_val ds9 * 10 ^ (9 - length ds9), dropWhile is_digit (d # rest)))
          else (0, s)
      | _ \<Rightarrow> (0, s))"

definition take_zone :: "string \<Rightarrow> (int \<times> string) option" where
  \<comment> \<open>the layout element \<open>Z07:00\<close>; the result is the offset in seconds\<close>
  "take_zone s =
     (case s of
        [] \<Rightarrow> None
      | c # rest \<Rightarrow>
          if c = CHR ''Z'' then Some (0, rest)
          else if c = CHR ''+'' \<or> c = CHR ''-'' then
            do { (hr, s1) \<leftarrow> take_digits 2 rest;
                 s2 \<leftarrow> take_lit (CHR '':'') s1;
                 (mm, s3) \<leftarrow> take_digits 2 s2;
                 if hr \<le> 24 \<and> mm \<le> 60
                 then (let off = (int hr * 60 + int mm) * 60
                       in Some (if c = CHR ''-'' then - off else off, s3))
                 else None }
          else None)"

definition parse_rfc3339 :: "string \<Rightarrow> time option" where
  "parse_rfc3339 s =
     do { (y, s) \<leftarrow> take_digits 4 s; s \<leftarrow> take_lit (CHR ''-'') s;
          (mo, s) \<leftarrow> take_digits 2 s; s \<leftarrow> take_lit (CHR ''-'') s;
          (d, s) \<leftarrow> take_digits 2 s; s \<leftarrow> take_lit (CHR ''T'') s;
          (h, s) \<leftarrow> take_hour s; s \<leftarrow> take_lit (CHR '':'') s;
          (mi, s) \<leftarrow> take_digits 2 s; s \<leftarrow> take_lit (CHR '':'') s;
          (sec, s) \<leftarrow> take_digits 2 s;
          let (ns, s) = take_frac s;
          (off, s) \<leftarrow> take_zone s;
          if s = [] \<and> 1 \<le> mo \<and> mo \<le> 12 \<and> h < 24 \<and> mi < 60 \<and> sec < 60
               \<and> 1 \<le> d \<and> int d \<le> days_in mo (int y)
          then Some ((days_from_civil (int y) mo (int d) * 86400 + int h * 3600 + int mi * 60
                        + int sec - off) * second + int ns)
          else None }"

definition zero_time :: time where
  \<comment> \<open>\<open>time.Time{}\<close>, 0001-01-01T00:00:00Z\<close>
  "zero_time = days_from_civil 1 1 1 * 86400 * second"

section \<open>ParseDuration\<close>

definition hex_digit :: "nat \<Rightarrow> char" where
  "hex_digit n = (if n < 10 then char_of (48 + n) else char_of (87 + n))"

definition quote_byte :: "char \<Rightarrow> string" where
  "quote_byte c =
     (let n = (of_char c :: nat) in
      if n \<ge> 128 \<or> n < 32 then [char_of (92::nat), CHR ''x'', hex_digit (n div 16), hex_digit (n mod 16)]
      else if n = 34 \<or> n = 92 then [char_of (92::nat), c] else [c])"

definition go_quote :: "string \<Rightarrow> string" where
  "go_quote s = [char_of (34::nat)] @ concat (map quote_byte s) @ [char_of (34::nat)]"

fun leadingInt :: "nat \<Rightarrow> string \<Rightarrow> (nat \<times> string) option" where
  "leadingInt x [] = Some (x, [])"
| "leadingInt x (c # s) =
     (if \<not> is_digit c then Some (x, c # s)
      else if x > 2 ^ 63 div 10 then None
      else let x' = x * 10 + digit_val c in if x' > 2 ^ 63 then None else leadingInt x' s)"

fun leadingFraction :: "nat \<Rightarrow> nat \<Rightarrow> bool \<Rightarrow> string \<Rightarrow> nat \<times> nat \<times> string" where
  "leadingFraction x scale ov [] = (x, scale, [])"
| "leadingFraction x scale ov (c # s) =
     (if \<not> is_digit c then (x, scale, c # s)
      else if ov then leadingFraction x scale ov s
      else if x > (2 ^ 63 - 1) div 10 then leadingFraction x scale True s
      else let y = x * 10 + digit_val c in
        if y > 2 ^ 63 then leadingFraction x scale True s
        else leadingFraction y (scale * 10) False s)"

definition unitMap :: "string \<Rightarrow> nat option" where
  "unitMap u =
     map_of [(''ns'', 1), (''us'', 1000),
             ([CHR 0xC2, CHR 0xB5, CHR ''s''], 1000),
             ([CHR 0xCE, CHR 0xBC, CHR ''s''], 1000),
             (''ms'', 1000000), (''s'', 1000000000), (''m'', 60000000000),
             (''h'', 3600000000000)] u"

definition unit_char :: "char \<Rightarrow> bool" where
  "unit_char c \<longleftrightarrow> c \<noteq> CHR ''.'' \<and> \<not> is_digit c"

definition frac_ns :: "nat \<Rightarrow> nat \<Rightarrow> nat \<Rightarrow> nat" where
  \<comment> \<open>\<open>uint64(float64(f) * (float64(unit) / scale))\<close>\<close>
  "frac_ns f un scale = nat \<lfloor>fl64 (fl64 (of_nat f) * fl64 (of_nat un / of_nat scale))\<rfloor>"

definition invalid_duration :: "string \<Rightarrow> error" where
  "invalid_duration orig = ''time: invalid duration '' @ go_quote orig"

text \<open>
  One turn of the loop: the number (its integer part, its fraction and the scale of the fraction),
  then its unit. The results carry the rest of the text.
\<close>

definition starts_number :: "string \<Rightarrow> bool" where
  "starts_number s = (case s of [] \<Rightarrow> False | c # _ \<Rightarrow> c = CHR ''.'' \<or> is_digit c)"

definition duration_number :: "string \<Rightarrow> string \<Rightarrow> (nat \<times> nat \<times> nat \<times> string) result" where
  "duration_number orig s =
     (if \<not> starts_number s then Inl (invalid_duration orig)
      else (case leadingInt 0 s of
        None \<Rightarrow> Inl (invalid_duration orig)
      | Some (v, s1) \<Rightarrow>
        (case s1 of
           d # r \<Rightarrow>
             if d = CHR ''.''
             then (let (f, scale, s2) = leadingFraction 0 1 False r
                   in if length s1 = length s \<and> length s2 = length r
                      then Inl (invalid_duration orig) else Inr (v, f, scale, s2))
             else if length s1 = length s then Inl (invalid_duration orig) else Inr (v, 0, 1, s1)
         | [] \<Rightarrow> Inr (v, 0, 1, []))))"

definition duration_unit ::
    "string \<Rightarrow> nat \<Rightarrow> nat \<Rightarrow> nat \<Rightarrow> string \<Rightarrow> (nat \<times> string) result" where
  "duration_unit orig v f scale s =
     (let u = takeWhile unit_char s in
      if u = [] then Inl (''time: missing unit in duration '' @ go_quote orig)
      else (case unitMap u of
        None \<Rightarrow> Inl (''time: unknown unit '' @ go_quote u @ '' in duration '' @ go_quote orig)
      | Some un \<Rightarrow>
        if v > 2 ^ 63 div un then Inl (invalid_duration orig)
        else let v2 = (if f > 0 then (v * un + frac_ns f un scale) mod 2 ^ 64 else v * un)
          in if f > 0 \<and> v2 > 2 ^ 63 then Inl (invalid_duration orig)
             else Inr (v2, dropWhile unit_char s)))"

definition duration_term :: "string \<Rightarrow> string \<Rightarrow> (nat \<times> string) result" where
  "duration_term orig s =
     (case duration_number orig s of
        Inl e \<Rightarrow> Inl e
      | Inr (v, f, scale, s2) \<Rightarrow> duration_unit orig v f scale s2)"

lemma leadingInt_length: "leadingInt x s = Some (v, s') \<Longrightarrow> length s' \<le> length s"
  by (induction x s rule: leadingInt.induct) (auto simp: Let_def split: if_splits)

lemma leadingFraction_length:
  "leadingFraction x sc ov s = (f, sc', s') \<Longrightarrow> length s' \<le> length s"
proof (induction x sc ov s rule: leadingFraction.induct)
  case (2 x scale ov c s)
  then show ?case
    by (simp add: Let_def split: if_splits) auto
qed simp

lemma duration_number_length:
  "duration_number orig s = Inr (v, f, sc, s') \<Longrightarrow> length s' \<le> length s"
  by (auto simp: duration_number_def simp del: leadingInt.simps
      dest: leadingInt_length leadingFraction_length
      split: if_splits option.splits list.splits prod.splits)
    (fastforce simp del: leadingInt.simps dest: leadingInt_length leadingFraction_length)+

lemma duration_unit_shrinks:
  assumes "duration_unit orig v f sc s = Inr (v', s')"
  shows "length s' < length s"
proof -
  from assms have u: "takeWhile unit_char s \<noteq> []" and s': "s' = dropWhile unit_char s"
    by (auto simp: duration_unit_def Let_def split: if_splits option.splits)
  have "length s = length (takeWhile unit_char s) + length s'"
    unfolding s' by (metis length_append takeWhile_dropWhile_id)
  with u show ?thesis by simp
qed

lemma duration_term_shrinks:
  "duration_term orig s = Inr (v, s') \<Longrightarrow> length s' < length s"
  by (auto simp: duration_term_def dest!: duration_number_length duration_unit_shrinks
      split: sum.splits)

function duration_loop :: "string \<Rightarrow> nat \<Rightarrow> string \<Rightarrow> nat result" where
  "duration_loop orig d s =
     (if s = [] then Inr d
      else (case duration_term orig s of
        Inl e \<Rightarrow> Inl e
      | Inr (v, s') \<Rightarrow>
        let d' = (d + v) mod 2 ^ 64
        in if d' > 2 ^ 63 then Inl (invalid_duration orig) else duration_loop orig d' s'))"
  by pat_completeness auto
termination
  by (relation "measure (\<lambda>(orig, d, s). length s)") (auto dest: duration_term_shrinks)

declare duration_loop.simps [simp del]

definition parse_duration :: "string \<Rightarrow> duration result" where
  "parse_duration orig =
     (let neg = (case orig of c # _ \<Rightarrow> c = CHR ''-'' | [] \<Rightarrow> False);
          s = (case orig of c # r \<Rightarrow> if c = CHR ''-'' \<or> c = CHR ''+'' then r else orig | [] \<Rightarrow> [])
      in if s = ''0'' then Inr 0
         else if s = [] then Inl (invalid_duration orig)
         else (case duration_loop orig 0 s of
           Inl e \<Rightarrow> Inl e
         | Inr d \<Rightarrow>
             if neg then Inr (wrap64 (- wrap64 (int d)))
             else if d > 2 ^ 63 - 1 then Inl (invalid_duration orig) else Inr (int d)))"

section \<open>What ParseDuration returns\<close>

lemma duration_loop_bound:
  "duration_loop orig d s = Inr r \<Longrightarrow> d \<le> 2 ^ 63 \<Longrightarrow> r \<le> 2 ^ 63"
proof (induction orig d s rule: duration_loop.induct)
  case (1 orig d s)
  show ?case
    using "1.prems" "1.IH"
    by (subst (asm) duration_loop.simps)
      (auto simp: Let_def not_less split: if_splits sum.splits prod.splits)
qed

lemma digit_simps [simp]:
  assumes "d < 10"
  shows "is_digit (digit d)" and "digit_val (digit d) = d"
  using assms by (simp_all add: is_digit_def digit_val_def digit_def)

lemma leadingInt_append:
  "leadingInt x ds = Some (y, []) \<Longrightarrow> leadingInt x (ds @ r) = leadingInt y r"
  by (induction x ds rule: leadingInt.induct) (auto simp: Let_def split: if_splits)

lemma leadingInt_show_nat: "n \<le> 2 ^ 63 \<Longrightarrow> leadingInt 0 (show_nat n) = Some (n, [])"
proof (induction n rule: show_nat.induct)
  case (1 n)
  show ?case
  proof (cases "n < 10")
    case True
    then show ?thesis by (simp add: show_nat.simps [of n])
  next
    case False
    from False "1.prems" "1.IH" have IH: "leadingInt 0 (show_nat (n div 10)) = Some (n div 10, [])"
      by simp
    have "n div 10 \<le> 2 ^ 63 div 10" using "1.prems" by (rule div_le_mono)
    then show ?thesis
      using False "1.prems" by (simp add: show_nat.simps [of n] leadingInt_append [OF IH] Let_def)
  qed
qed

lemma show_nat_head: "\<exists>c r. show_nat n = c # r \<and> is_digit c"
proof (induction n rule: show_nat.induct)
  case (1 n)
  then show ?case by (cases "n < 10") (auto simp: show_nat.simps [of n])
qed

lemma unitMap_chars:
  assumes "unitMap u = Some un"
  shows "list_all unit_char u" and "u \<noteq> []" and "0 < un"
  using assms by (auto simp: unitMap_def unit_char_def is_digit_def split: if_splits)

lemma takeWhile_unit:
  "list_all unit_char u \<Longrightarrow> takeWhile unit_char u = u"
  "list_all unit_char u \<Longrightarrow> dropWhile unit_char u = []"
  by (simp_all add: list_all_iff)

lemma duration_term_int:
  assumes u: "unitMap u = Some un" and n: "n * un < 2 ^ 63"
  shows "duration_term orig (show_nat n @ u) = Inr (n * un, [])"
proof -
  from unitMap_chars [OF u] obtain d v where dv: "u = d # v" "unit_char d"
    by (cases u) auto
  have "n \<le> n * un" using unitMap_chars(3) [OF u] by simp
  with n have n': "n \<le> 2 ^ 63" by linarith
  have "starts_number (show_nat n @ u)"
    using show_nat_head [of n] by (auto simp: starts_number_def)
  moreover have "leadingInt 0 (show_nat n @ u) = Some (n, u)"
    using dv by (simp add: leadingInt_append [OF leadingInt_show_nat [OF n']] unit_char_def)
  ultimately have "duration_number orig (show_nat n @ u) = Inr (n, 0, 1, u)"
    using dv by (simp add: duration_number_def unit_char_def)
  moreover have "n \<le> 2 ^ 63 div un"
    using n unitMap_chars(3) [OF u] by (simp add: less_eq_div_iff_mult_less_eq)
  ultimately show ?thesis
    using u unitMap_chars [OF u]
    by (simp add: duration_term_def duration_unit_def Let_def takeWhile_unit)
qed

lemma duration_number_orig:
  "duration_number orig s = Inr r \<Longrightarrow> duration_number orig' s = Inr r"
  by (auto simp: duration_number_def Let_def split: if_splits option.splits list.splits prod.splits)

lemma duration_unit_orig:
  "duration_unit orig v f sc s = Inr r \<Longrightarrow> duration_unit orig' v f sc s = Inr r"
  by (auto simp: duration_unit_def Let_def split: if_splits option.splits)

lemma duration_term_orig:
  "duration_term orig s = Inr r \<Longrightarrow> duration_term orig' s = Inr r"
  by (auto simp: duration_term_def duration_number_orig [of orig s _ orig'] split: sum.splits
      intro: duration_unit_orig [of orig _ _ _ _ _ orig'])

lemma duration_loop_orig:
  "duration_loop orig d s = Inr r \<Longrightarrow> duration_loop orig' d s = Inr r"
proof (induction orig d s rule: duration_loop.induct)
  case (1 orig d s)
  show ?case
  proof (cases "s = []")
    case True
    with "1.prems" show ?thesis by (simp add: duration_loop.simps)
  next
    case False
    with "1.prems" obtain v s' where t: "duration_term orig s = Inr (v, s')"
      by (subst (asm) duration_loop.simps) (auto split: sum.splits)
    with False "1.prems" have "\<not> (d + v) mod 2 ^ 64 > 2 ^ 63"
      and r: "duration_loop orig ((d + v) mod 2 ^ 64) s' = Inr r"
      by (simp_all add: duration_loop.simps [of orig d s] Let_def split: if_splits)
    with False t "1.IH" have "duration_loop orig' ((d + v) mod 2 ^ 64) s' = Inr r"
      by simp
    with False \<open>\<not> (d + v) mod 2 ^ 64 > 2 ^ 63\<close> duration_term_orig [OF t, of orig'] show ?thesis
      by (simp add: duration_loop.simps [of orig' d s] Let_def)
  qed
qed

lemma parse_duration_unsigned:
  assumes "s = c # r" and "c \<noteq> CHR ''-''" and "c \<noteq> CHR ''+''"
  shows "parse_duration s =
    (if s = ''0'' then Inr 0
     else case duration_loop s 0 s of Inl e \<Rightarrow> Inl e
       | Inr d \<Rightarrow> if d > 2 ^ 63 - 1 then Inl (invalid_duration s) else Inr (int d))"
  using assms by (simp add: parse_duration_def Let_def split: sum.split)

lemma parse_duration_int:
  assumes u: "unitMap u = Some un" and n: "n * un < 2 ^ 63"
  shows "parse_duration (show_nat n @ u) = Inr (int (n * un))"
proof -
  obtain c r where cr: "show_nat n = c # r" "is_digit c" using show_nat_head by blast
  have c: "c \<noteq> CHR ''-''" "c \<noteq> CHR ''+''" using cr(2) by (auto simp: is_digit_def)
  have "u \<noteq> []" using unitMap_chars [OF u] by simp
  then have ne: "show_nat n @ u \<noteq> ''0''" using cr by (auto simp: append_eq_Cons_conv)
  have "duration_loop (show_nat n @ u) 0 (show_nat n @ u) = Inr (n * un)"
    using n \<open>u \<noteq> []\<close> by (subst duration_loop.simps)
      (simp add: duration_term_int [OF u n] Let_def duration_loop.simps [of _ _ "[]"])
  moreover have "show_nat n @ u = c # (r @ u)" using cr by simp
  note parse_duration_unsigned [OF this c]
  ultimately show ?thesis
    using n ne by simp
qed

text \<open>
  The sign of a duration text. A text without a sign that parses gives a duration between 0
  and the largest \<open>int64\<close>, and the same text after a minus sign parses to its negation, without
  wrap-around.
\<close>

theorem parse_duration_sign:
  assumes s: "s = c # r" "c \<noteq> CHR ''-''" "c \<noteq> CHR ''+''" and d: "parse_duration s = Inr d"
  shows "0 \<le> d \<and> d \<le> max_int64 \<and> parse_duration (CHR ''-'' # s) = Inr (- d)"
proof (cases "s = ''0''")
  case True
  with d show ?thesis by (simp add: parse_duration_def max_int64_def)
next
  case False
  with d obtain n where n: "duration_loop s 0 s = Inr n" "n \<le> 2 ^ 63 - 1" "d = int n"
    by (auto simp: parse_duration_unsigned [OF s] not_less split: sum.splits if_splits)
  have r: "min_int64 \<le> - d" "- d \<le> max_int64" "min_int64 \<le> d" "d \<le> max_int64"
    using n by (auto simp: min_int64_def max_int64_def)
  have "parse_duration (CHR ''-'' # s) = Inr (wrap64 (- wrap64 (int n)))"
    using False s duration_loop_orig [OF n(1), of "CHR ''-'' # s"]
    by (auto simp: parse_duration_def Let_def)
  with r n show ?thesis by simp
qed

theorem parse_duration_sign_witness:
  "parse_duration (CHR ''-'' # show_nat 5 @ ''m'') = Inr (- 300000000000)"
proof -
  have "show_nat 5 = ''5''" by (simp add: show_nat.simps digit_def char_of_eq_iff)
  moreover have "parse_duration (show_nat 5 @ ''m'') = Inr 300000000000"
    using parse_duration_int [of "''m''" 60000000000 5] by (simp add: unitMap_def)
  ultimately show ?thesis
    using parse_duration_sign [of "''5m''" "CHR ''5''" "''m''" 300000000000] by simp
qed

text \<open>
  A decimal number followed by a unit of the unit table parses to that many units, as long as
  the product is an \<open>int64\<close>: what an operator writes in \<open>SENTIENTD_EXPANSION_WINDOW\<close> or in the
  input of a wait task is the duration that is used.
\<close>

theorem parse_duration_integral:
  assumes u: "unitMap u = Some un" and n: "n * un < 2 ^ 63"
  shows "parse_duration (show_nat n @ u) = Inr (int (n * un))"
  by (rule parse_duration_int [OF u n])

theorem parse_duration_integral_witness:
  "parse_duration (show_nat 5 @ ''m'') = Inr 300000000000"
  using parse_duration_integral [of "''m''" 60000000000 5] by (simp add: unitMap_def)

end
