(* ===== verification/Json.thy ===== *)
theory Json
  imports GoTime
begin

text \<open>
  The package \<open>encoding/json\<close> at the level of JSON values: what \<open>json.Marshal\<close> produces from a Go
  value and what \<open>json.Unmarshal\<close> makes of a JSON value, type by type. A decoder returns None for
  any decoding error (the callers only test the error for nil; its text is \<open>json_error\<close>). A number is
  kept as its literal is read: \<open>JInt\<close> for a literal without fraction and exponent, the only ones that
  \<open>strconv.ParseInt\<close> and so an integer field accepts, \<open>JNum\<close> for any other (\<open>60.0\<close> and \<open>1e2\<close> too). An encoded float64 is written \<open>JNum\<close> whatever
  its value; floats and \<open>interface{}\<close> values are decoded alike from both. The text
  of a document (quoting, numbers in decimal, the replacement of invalid UTF-8 in strings by U+FFFD)
  is not modelled here: strings are taken to be valid UTF-8, and where the code handles texts, the
  two directions between texts and values are parameters.
\<close>

datatype json =
    JNull
  | JBool bool
  | JInt int
  | JNum rat
  | JStr string
  | JArr "json list"
  | JObj "(string \<times> json) list"

definition json_error :: error where
  "json_error = ''json: cannot unmarshal''"

section \<open>Encoding\<close>

definition enc_map :: "('v \<Rightarrow> json) \<Rightarrow> 'v gomap \<Rightarrow> json" where
  \<comment> \<open>a nil map is null; the keys of an object are sorted\<close>
  "enc_map f m =
     (case m of
        None \<Rightarrow> JNull
      | Some fm \<Rightarrow>
          JObj (map (\<lambda>k. (k, f (the (fmlookup fm k)))) (sorted_list_of_fset (fmdom fm))))"

definition enc_list :: "('a \<Rightarrow> json) \<Rightarrow> 'a list \<Rightarrow> json" where
  "enc_list f xs = JArr (map f xs)"

definition enc_ptr :: "('a \<Rightarrow> json) \<Rightarrow> 'a option \<Rightarrow> json" where
  "enc_ptr f p = (case p of None \<Rightarrow> JNull | Some x \<Rightarrow> f x)"

definition enc_int :: "int \<Rightarrow> json" where
  "enc_int n = JInt n"

definition enc_time :: "time \<Rightarrow> json" where
  "enc_time t = JStr (format_rfc3339nano t)"

definition omitempty :: "bool \<Rightarrow> string \<Rightarrow> json \<Rightarrow> (string \<times> json) list" where
  "omitempty isz n j = (if isz then [] else [(n, j)])"

definition mempty :: "'v gomap \<Rightarrow> bool" where
  "mempty m \<longleftrightarrow> (case m of None \<Rightarrow> True | Some f \<Rightarrow> fmdom f = {||})"

lemmas enc_basic [enc_defs] =
  enc_map_def enc_list_def enc_ptr_def enc_int_def enc_time_def omitempty_def

section \<open>Decoding\<close>

definition ascii_lower :: "char \<Rightarrow> char" where
  "ascii_lower c =
     (let n = (of_char c :: nat) in if 65 \<le> n \<and> n \<le> 90 then char_of (n + 32) else c)"

definition key_matches :: "string \<Rightarrow> string \<Rightarrow> bool" where
  \<comment> \<open>field names are matched up to (ASCII) case\<close>
  "key_matches name k \<longleftrightarrow> map ascii_lower k = map ascii_lower name"

fun jfield :: "string \<Rightarrow> (string \<times> json) list \<Rightarrow> json option" where
  \<comment> \<open>the value a struct field is decoded from: the last occurrence; null leaves the field alone\<close>
  "jfield name [] = None"
| "jfield name ((k, v) # kvs) =
     (case jfield name kvs of
        Some j \<Rightarrow> Some j
      | None \<Rightarrow> if key_matches name k \<and> v \<noteq> JNull then Some v else None)"

definition dec_field :: "(json \<Rightarrow> 'a option) \<Rightarrow> 'a \<Rightarrow> string \<Rightarrow> (string \<times> json) list \<Rightarrow> 'a option" where
  "dec_field d z name kvs = (case jfield name kvs of None \<Rightarrow> Some z | Some j \<Rightarrow> d j)"

definition dec_struct :: "((string \<times> json) list \<Rightarrow> 'a option) \<Rightarrow> json \<Rightarrow> 'a option" where
  "dec_struct d j = (case j of JObj kvs \<Rightarrow> d kvs | JNull \<Rightarrow> d [] | _ \<Rightarrow> None)"

definition dec_str :: "json \<Rightarrow> string option" where
  "dec_str j = (case j of JStr s \<Rightarrow> Some s | JNull \<Rightarrow> Some [] | _ \<Rightarrow> None)"

definition dec_bool :: "json \<Rightarrow> bool option" where
  "dec_bool j = (case j of JBool b \<Rightarrow> Some b | JNull \<Rightarrow> Some False | _ \<Rightarrow> None)"

definition dec_int :: "json \<Rightarrow> int option" where
  \<comment> \<open>\<open>strconv.ParseInt\<close> on the literal: a fraction or an exponent is an error\<close>
  "dec_int j =
     (case j of
        JInt n \<Rightarrow> if min_int64 \<le> n \<and> n \<le> max_int64 then Some n else None
      | JNull \<Rightarrow> Some 0 | _ \<Rightarrow> None)"

definition float_lit :: "rat \<Rightarrow> rat option" where
  \<comment> \<open>\<open>strconv.ParseFloat\<close>: out of range is an error\<close>
  "float_lit q = (if \<bar>float64 q\<bar> < 2 ^ 1024 then Some (float64 q) else None)"

definition dec_float :: "json \<Rightarrow> rat option" where
  "dec_float j =
     (case j of
        JNum q \<Rightarrow> float_lit q
      | JInt n \<Rightarrow> float_lit (of_int n)
      | JNull \<Rightarrow> Some 0 | _ \<Rightarrow> None)"

fun dec_all :: "(json \<Rightarrow> 'a option) \<Rightarrow> json list \<Rightarrow> 'a list option" where
  "dec_all d [] = Some []"
| "dec_all d (j # js) = do { x \<leftarrow> d j; xs \<leftarrow> dec_all d js; Some (x # xs) }"

definition dec_list :: "(json \<Rightarrow> 'a option) \<Rightarrow> json \<Rightarrow> 'a list option" where
  "dec_list d j = (case j of JArr js \<Rightarrow> dec_all d js | JNull \<Rightarrow> Some [] | _ \<Rightarrow> None)"

fun dec_entries :: "(json \<Rightarrow> 'v option) \<Rightarrow> (string \<times> json) list \<Rightarrow> (string, 'v) fmap \<Rightarrow> (string, 'v) fmap option" where
  "dec_entries d [] f = Some f"
| "dec_entries d ((k, j) # kvs) f = do { v \<leftarrow> d j; dec_entries d kvs (fmupd k v f) }"

definition dec_map :: "(json \<Rightarrow> 'v option) \<Rightarrow> json \<Rightarrow> 'v gomap option" where
  "dec_map d j =
     (case j of
        JObj kvs \<Rightarrow> map_option Some (dec_entries d kvs fmempty)
      | JNull \<Rightarrow> Some None | _ \<Rightarrow> None)"

definition dec_ptr :: "(json \<Rightarrow> 'a option) \<Rightarrow> json \<Rightarrow> 'a option option" where
  "dec_ptr d j = (case j of JNull \<Rightarrow> Some None | _ \<Rightarrow> map_option Some (d j))"

definition object_of :: "(string \<times> json) list \<Rightarrow> (string \<times> json) list" where
  \<comment> \<open>a \<open>map[string]interface{}\<close>: the last value of each key\<close>
  "object_of kvs =
     map (\<lambda>k. (k, the (map_of (rev kvs) k))) (sort (remdups (map fst kvs)))"

fun dec_any :: "json \<Rightarrow> json option"
  and dec_anys :: "json list \<Rightarrow> json list option"
  and dec_any_fields :: "(string \<times> json) list \<Rightarrow> (string \<times> json) list option" where
  \<comment> \<open>what an \<open>interface{}\<close> holds: numbers are float64, objects are maps\<close>
  "dec_any (JNum q) = map_option JNum (float_lit q)"
| "dec_any (JInt n) = map_option JNum (float_lit (of_int n))"
| "dec_any (JArr js) = map_option JArr (dec_anys js)"
| "dec_any (JObj kvs) = map_option (\<lambda>kvs. JObj (object_of kvs)) (dec_any_fields kvs)"
| "dec_any JNull = Some JNull"
| "dec_any (JBool b) = Some (JBool b)"
| "dec_any (JStr s) = Some (JStr s)"
| "dec_anys [] = Some []"
| "dec_anys (j # js) = do { x \<leftarrow> dec_any j; xs \<leftarrow> dec_anys js; Some (x # xs) }"
| "dec_any_fields [] = Some []"
| "dec_any_fields ((k, j) # kvs) = do { x \<leftarrow> dec_any j; xs \<leftarrow> dec_any_fields kvs; Some ((k, x) # xs) }"

definition dec_time :: "json \<Rightarrow> time option" where
  "dec_time j = (case j of JStr s \<Rightarrow> parse_rfc3339 s | JNull \<Rightarrow> Some zero_time | _ \<Rightarrow> None)"

lemmas dec_basic [enc_defs] =
  dec_field_def dec_struct_def dec_str_def dec_bool_def dec_int_def dec_float_def float_lit_def dec_list_def
  dec_map_def dec_ptr_def

lemma dec_enc_str [simp]: "dec_str (JStr s) = Some s"
  by (simp add: dec_str_def)

lemma dec_all_map: "(\<And>x. x \<in> set xs \<Longrightarrow> d (f x) = Some x) \<Longrightarrow> dec_all d (map f xs) = Some xs"
  by (induction xs) simp_all

lemma dec_enc_list:
  "(\<And>x. x \<in> set xs \<Longrightarrow> d (f x) = Some x) \<Longrightarrow> dec_list d (enc_list f xs) = Some xs"
  by (simp add: dec_list_def enc_list_def dec_all_map)

lemma dec_entries_map:
  assumes "\<And>k. k \<in> set ks \<Longrightarrow> d (f (g k)) = Some (g k)"
  shows "dec_entries d (map (\<lambda>k. (k, f (g k))) ks) m = Some (foldl (\<lambda>m k. fmupd k (g k) m) m ks)"
  using assms by (induction ks arbitrary: m) simp_all

lemma fmlookup_foldl_upd:
  "fmlookup (foldl (\<lambda>m k. fmupd k (g k) m) m ks) k = (if k \<in> set ks then Some (g k) else fmlookup m k)"
  by (induction ks arbitrary: m) auto

text \<open>
  Encoding a map and decoding the result gives the map back, nil or not.
\<close>

lemma dec_enc_map_on:
  assumes "\<And>k fm. m = Some fm \<Longrightarrow> k |\<in>| fmdom fm \<Longrightarrow> d (f (the (fmlookup fm k))) = Some (the (fmlookup fm k))"
  shows "dec_map d (enc_map f m) = Some m"
proof (cases m)
  case None
  then show ?thesis by (simp add: dec_map_def enc_map_def)
next
  case (Some fm)
  let ?g = "\<lambda>k. the (fmlookup fm k)" and ?ks = "sorted_list_of_fset (fmdom fm)"
  have "foldl (\<lambda>m k. fmupd k (?g k) m) fmempty ?ks = fm"
  proof (rule fmap_ext)
    fix k
    show "fmlookup (foldl (\<lambda>m k. fmupd k (?g k) m) fmempty ?ks) k = fmlookup fm k"
      by (cases "fmlookup fm k") (simp_all add: fmlookup_foldl_upd fmdomI fmdom_notI)
  qed
  then show ?thesis
    using Some assms dec_entries_map [of ?ks d f ?g fmempty]
    by (simp add: dec_map_def enc_map_def)
qed

lemma dec_enc_map:
  assumes "\<And>v. d (f v) = Some v"
  shows "dec_map d (enc_map f m) = Some m"
  by (rule dec_enc_map_on) (rule assms)

text \<open>
  Looking a field up in an object that was built from fields that may be omitted.
\<close>

lemma jfield_append:
  "jfield n (xs @ ys) = (case jfield n ys of None \<Rightarrow> jfield n xs | Some j \<Rightarrow> Some j)"
  by (induction xs) (auto split: option.splits)

lemma jfield_omitempty:
  "jfield n (omitempty z k v) = (if z \<or> \<not> key_matches n k \<or> v = JNull then None else Some v)"
  by (simp add: omitempty_def)

lemma case_if_field:
  "(z \<Longrightarrow> d0 = x) \<Longrightarrow> (\<not> z \<Longrightarrow> d v = Some x) \<Longrightarrow>
     (case (if z then None else Some v) of None \<Rightarrow> Some d0 | Some j \<Rightarrow> d j) = Some x"
  by simp

section \<open>What decoding yields\<close>

text \<open>
  Decoding is idempotent on what an \<open>interface{}\<close> holds: floats are rounded once, and an object that
  has been read keeps one value per key, in the order of the keys.
\<close>

lemma dec_field_SomeD:
  "dec_field d z n kvs = Some v \<Longrightarrow> v = z \<or> (\<exists>j. d j = Some v)"
  by (auto simp: dec_field_def split: option.splits)

lemma dec_field_holds:
  "dec_field d z n kvs = Some v \<Longrightarrow> P z \<Longrightarrow> (\<And>j v. d j = Some v \<Longrightarrow> P v) \<Longrightarrow> P v"
  by (auto dest: dec_field_SomeD)

lemma dec_struct_holds:
  "dec_struct d j = Some v \<Longrightarrow> (\<And>kvs v. d kvs = Some v \<Longrightarrow> P v) \<Longrightarrow> P v"
  by (auto simp: dec_struct_def split: json.splits)

lemma dec_ptr_holds:
  "dec_ptr d j = Some p \<Longrightarrow> (\<And>j v. d j = Some v \<Longrightarrow> P v) \<Longrightarrow> pred_option P p"
  by (cases j) (auto simp: dec_ptr_def)

lemma dec_all_holds:
  "dec_all d js = Some xs \<Longrightarrow> (\<And>j v. d j = Some v \<Longrightarrow> P v) \<Longrightarrow> list_all P xs"
  by (induction js arbitrary: xs) (auto split: Option.bind_splits)

lemma dec_list_holds:
  "dec_list d j = Some xs \<Longrightarrow> (\<And>j v. d j = Some v \<Longrightarrow> P v) \<Longrightarrow> list_all P xs"
  by (auto simp: dec_list_def dest: dec_all_holds [where P = P] split: json.splits)

lemma dec_entries_holds:
  "dec_entries d kvs f = Some g \<Longrightarrow> (\<And>j v. d j = Some v \<Longrightarrow> P v) \<Longrightarrow> fmpred (\<lambda>k. P) f \<Longrightarrow> fmpred (\<lambda>k. P) g"
proof (induction kvs arbitrary: f)
  case (Cons kv kvs)
  then obtain x where "d (snd kv) = Some x" "dec_entries d kvs (fmupd (fst kv) x f) = Some g"
    by (cases kv) (auto split: Option.bind_splits)
  moreover from this have "fmpred (\<lambda>k. P) (fmupd (fst kv) x f)"
    using Cons.prems(2,3) by (intro fmpred_upd) blast+
  ultimately show ?case using Cons.IH Cons.prems(2) by blast
qed simp

lemma dec_map_holds:
  "dec_map d j = Some m \<Longrightarrow> (\<And>j v. d j = Some v \<Longrightarrow> P v) \<Longrightarrow> pred_option (fmpred (\<lambda>k. P)) m"
  by (auto simp: dec_map_def dest: dec_entries_holds [where P = P] split: json.splits)

lemma float_lit_SomeD: "float_lit r = Some q \<Longrightarrow> float64 q = q \<and> \<bar>q\<bar> < 2 ^ 1024"
  by (auto simp: float_lit_def split: if_splits)

lemma float_lit_again: "float_lit r = Some q \<Longrightarrow> float_lit q = Some q"
  by (frule float_lit_SomeD) (simp add: float_lit_def)

lemma dec_float_SomeD: "dec_float j = Some q \<Longrightarrow> float64 q = q \<and> \<bar>q\<bar> < 2 ^ 1024"
  by (cases j) (auto simp: dec_float_def dest: float_lit_SomeD)

lemma dec_float_again: "dec_float j = Some q \<Longrightarrow> dec_float (JNum q) = Some q"
  by (frule dec_float_SomeD) (simp add: dec_float_def float_lit_def)

lemma map_of_keys: "map_of (map (\<lambda>k. (k, g k)) ks) k = (if k \<in> set ks then Some (g k) else None)"
  by (induction ks) auto

lemma object_of_keys [simp]: "map fst (object_of kvs) = sort (remdups (map fst kvs))"
  by (simp add: object_of_def comp_def)

lemma object_of_value: "(k, v) \<in> set (object_of kvs) \<Longrightarrow> (k, v) \<in> set kvs"
proof -
  assume "(k, v) \<in> set (object_of kvs)"
  then have k: "k \<in> fst ` set kvs" and v: "v = the (map_of (rev kvs) k)" by (auto simp: object_of_def)
  from k obtain w where "map_of (rev kvs) k = Some w"
    by (metis image_set map_of_eq_None_iff not_None_eq rev_map set_rev)
  with v show ?thesis using map_of_SomeD by force
qed

lemma object_of_idem [simp]: "object_of (object_of kvs) = object_of kvs"
proof -
  let ?ks = "sort (remdups (map fst kvs))" and ?g = "\<lambda>k. the (map_of (rev kvs) k)"
  have ks: "sort (remdups ?ks) = ?ks" by (simp add: distinct_remdups_id sorted_sort_id)
  have rv: "rev (object_of kvs) = map (\<lambda>k. (k, ?g k)) (rev ?ks)" by (simp add: object_of_def rev_map)
  have "object_of (object_of kvs) = map (\<lambda>k. (k, the (map_of (map (\<lambda>k. (k, ?g k)) (rev ?ks)) k))) ?ks"
    unfolding object_of_def [of "object_of kvs"] object_of_keys ks rv ..
  also have "\<dots> = map (\<lambda>k. (k, ?g k)) ?ks" by (rule map_cong) (simp_all add: map_of_keys)
  finally show ?thesis by (simp add: object_of_def)
qed

lemma dec_any_fields_self: "\<forall>kv \<in> set kvs. dec_any (snd kv) = Some (snd kv) \<Longrightarrow> dec_any_fields kvs = Some kvs"
  by (induction kvs) auto

lemma dec_anys_self: "\<forall>v \<in> set js. dec_any v = Some v \<Longrightarrow> dec_anys js = Some js"
  by (induction js) auto

lemma dec_any_again_all:
  "dec_any j = Some j' \<Longrightarrow> dec_any j' = Some j'"
  "dec_anys js = Some js' \<Longrightarrow> \<forall>v \<in> set js'. dec_any v = Some v"
  "dec_any_fields kvs = Some kvs' \<Longrightarrow> \<forall>kv \<in> set kvs'. dec_any (snd kv) = Some (snd kv)"
proof (induction j and js and kvs arbitrary: j' and js' and kvs' rule: dec_any_dec_anys_dec_any_fields.induct)
  case (1 q)
  then show ?case using float_lit_again by auto
next
  case (2 n)
  then show ?case using float_lit_again by auto
next
  case (3 js)
  from 3(2) obtain js' where k: "dec_anys js = Some js'" "j' = JArr js'" by auto
  have "dec_anys js' = Some js'" by (rule dec_anys_self [OF 3(1) [OF k(1)]])
  with k(2) show ?case by simp
next
  case (4 kvs)
  from 4(2) obtain kvs' where k: "dec_any_fields kvs = Some kvs'" "j' = JObj (object_of kvs')" by auto
  have "\<forall>kv \<in> set (object_of kvs'). dec_any (snd kv) = Some (snd kv)"
    using 4(1) [OF k(1)] object_of_value by (metis surjective_pairing)
  then have "dec_any_fields (object_of kvs') = Some (object_of kvs')" by (rule dec_any_fields_self)
  with k(2) show ?case by simp
next
  case (9 j js)
  from 9(3) obtain x xs where x: "dec_any j = Some x" "dec_anys js = Some xs" "js' = x # xs"
    by (auto split: Option.bind_splits)
  have "dec_any x = Some x" "\<forall>v \<in> set xs. dec_any v = Some v"
    by (rule 9(1) [OF x(1)], rule 9(2) [OF x(1,2)])
  then show ?case unfolding x(3) set_simps ball_simps by blast
next
  case (11 k j kvs)
  from 11(3) obtain x xs where x: "dec_any j = Some x" "dec_any_fields kvs = Some xs" "kvs' = (k, x) # xs"
    by (auto split: Option.bind_splits)
  have "dec_any x = Some x" "\<forall>kv \<in> set xs. dec_any (snd kv) = Some (snd kv)"
    by (rule 11(1) [OF x(1)], rule 11(2) [OF x(1,2)])
  then show ?case unfolding x(3) by auto
qed simp_all

lemma dec_any_again: "dec_any j = Some j' \<Longrightarrow> dec_any j' = Some j'"
  by (rule dec_any_again_all)

end
