(* ===== verification/Domain.thy ===== *)
theory Domain
  imports Json
begin

text \<open>
  The data of \<open>internal/domain\<close>: alerts, incidents, remediation DAGs, the topology slice and the
  result of an investigation, as records with the source's fields (each with a prefix for its
  struct), and their JSON encodings under the struct tags.

  A string-kinded Go type (\<open>IncidentState\<close>, \<open>TopologyNodeType\<close>, \<open>EvidenceType\<close>, \<open>DAGVersion\<close>) is
  a \<open>string\<close> with the source's constants, since any string can inhabit it. A nil slice and an empty
  slice are not told apart; a nil pointer is None.
\<close>

section \<open>Alerts\<close>

type_synonym labels = "string gomap"

record alert =
  al_Fingerprint :: string
  al_Labels :: labels
  al_Annotations :: labels
  al_StartsAt :: time
  al_EndsAt :: "time option"

record alert_batch =
  ab_Receiver :: string
  ab_Status :: string
  ab_Alerts :: "alert list"
  ab_ExternalURL :: string
  ab_GroupLabels :: labels
  ab_CommonLabels :: labels
  ab_CommonAnnotations :: labels
  ab_Version :: string
  ab_GroupKey :: string
  ab_TruncatedAlerts :: int

definition enc_labels :: "labels \<Rightarrow> json" where
  "enc_labels = enc_map JStr"

definition dec_labels :: "json \<Rightarrow> labels option" where
  "dec_labels = dec_map dec_str"

definition enc_alert :: "alert \<Rightarrow> json" where
  "enc_alert a = JObj
     ([(''fingerprint'', JStr (al_Fingerprint a)),
       (''labels'', enc_labels (al_Labels a)),
       (''annotations'', enc_labels (al_Annotations a)),
       (''startsAt'', enc_time (al_StartsAt a))] @
      omitempty (al_EndsAt a = None) ''endsAt'' (enc_ptr enc_time (al_EndsAt a)))"

lemma dec_enc_labels [simp]: "dec_labels (enc_labels m) = Some m"
  by (simp add: dec_labels_def enc_labels_def dec_enc_map)

section \<open>Topology slices\<close>

definition NodeTypeCluster :: string where "NodeTypeCluster = ''cluster''"

record topology_node =
  tn_ID :: string
  tn_Type :: string

record topology_edge =
  te_From :: string
  te_To :: string
  te_Type :: string

record topology_slice =
  ts_Nodes :: "topology_node list"
  ts_Edges :: "topology_edge list"

definition enc_topology_node :: "topology_node \<Rightarrow> json" where
  "enc_topology_node n = JObj [(''id'', JStr (tn_ID n)), (''type'', JStr (tn_Type n))]"

definition enc_topology_edge :: "topology_edge \<Rightarrow> json" where
  "enc_topology_edge e =
     JObj [(''from'', JStr (te_From e)), (''to'', JStr (te_To e)), (''type'', JStr (te_Type e))]"

definition enc_topology_slice :: "topology_slice \<Rightarrow> json" where
  "enc_topology_slice s =
     JObj [(''nodes'', enc_list enc_topology_node (ts_Nodes s)),
           (''edges'', enc_list enc_topology_edge (ts_Edges s))]"

definition dec_topology_node :: "json \<Rightarrow> topology_node option" where
  "dec_topology_node = dec_struct (\<lambda>kvs.
     do { i \<leftarrow> dec_field dec_str [] ''id'' kvs;
          t \<leftarrow> dec_field dec_str [] ''type'' kvs;
          Some \<lparr>tn_ID = i, tn_Type = t\<rparr> })"

definition dec_topology_edge :: "json \<Rightarrow> topology_edge option" where
  "dec_topology_edge = dec_struct (\<lambda>kvs.
     do { f \<leftarrow> dec_field dec_str [] ''from'' kvs;
          t \<leftarrow> dec_field dec_str [] ''to'' kvs;
          y \<leftarrow> dec_field dec_str [] ''type'' kvs;
          Some \<lparr>te_From = f, te_To = t, te_Type = y\<rparr> })"

definition dec_topology_slice :: "json \<Rightarrow> topology_slice option" where
  "dec_topology_slice = dec_struct (\<lambda>kvs.
     do { ns \<leftarrow> dec_field (dec_list dec_topology_node) [] ''nodes'' kvs;
          es \<leftarrow> dec_field (dec_list dec_topology_edge) [] ''edges'' kvs;
          Some \<lparr>ts_Nodes = ns, ts_Edges = es\<rparr> })"

lemma dec_enc_topology_node [simp]: "dec_topology_node (enc_topology_node n) = Some n"
  by (simp add: dec_topology_node_def enc_topology_node_def dec_struct_def dec_field_def
      key_matches_def ascii_lower_def)

lemma dec_enc_topology_edge [simp]: "dec_topology_edge (enc_topology_edge e) = Some e"
  by (simp add: dec_topology_edge_def enc_topology_edge_def dec_struct_def dec_field_def
      key_matches_def ascii_lower_def)

lemma dec_enc_topology_slice [simp]: "dec_topology_slice (enc_topology_slice s) = Some s"
proof -
  have "dec_list dec_topology_node (enc_list enc_topology_node (ts_Nodes s)) = Some (ts_Nodes s)"
    and "dec_list dec_topology_edge (enc_list enc_topology_edge (ts_Edges s)) = Some (ts_Edges s)"
    by (simp_all add: dec_enc_list)
  then show ?thesis
    by (simp add: dec_topology_slice_def enc_topology_slice_def dec_struct_def dec_field_def
        key_matches_def ascii_lower_def)
      (simp add: enc_list_def)
qed

section \<open>Incidents\<close>

definition IncidentStateOpen :: string where "IncidentStateOpen = ''open''"
definition IncidentStateInvestigating :: string where "IncidentStateInvestigating = ''investigating''"
definition IncidentStateMitigating :: string where "IncidentStateMitigating = ''mitigating''"
definition IncidentStateMonitoring :: string where "IncidentStateMonitoring = ''monitoring''"
definition IncidentStateResolved :: string where "IncidentStateResolved = ''resolved''"

lemmas incident_state_defs =
  IncidentStateOpen_def IncidentStateInvestigating_def IncidentStateMitigating_def
  IncidentStateMonitoring_def IncidentStateResolved_def

lemma open_not_resolved [simp]:
  "IncidentStateOpen \<noteq> IncidentStateResolved" "IncidentStateResolved \<noteq> IncidentStateOpen"
  by (simp_all add: incident_state_defs)

record incident =
  inc_ID :: string
  inc_Service :: string
  inc_Cluster :: string
  inc_Environment :: string
  inc_Severity :: string
  inc_Alerts :: "alert list"
  inc_CorrelationKey :: string
  inc_CorrelationVersion :: int
  inc_State :: string
  inc_CreatedAt :: time
  inc_UpdatedAt :: time
  inc_FirstAlertAt :: time
  inc_LastAlertAt :: time
  inc_TopologyContext :: "topology_slice option"

definition enc_incident :: "incident \<Rightarrow> json" where
  "enc_incident i = JObj
     ([(''id'', JStr (inc_ID i)),
       (''service'', JStr (inc_Service i)),
       (''cluster'', JStr (inc_Cluster i)),
       (''environment'', JStr (inc_Environment i)),
       (''severity'', JStr (inc_Severity i)),
       (''alerts'', enc_list enc_alert (inc_Alerts i)),
       (''correlationKey'', JStr (inc_CorrelationKey i)),
       (''correlationVersion'', enc_int (inc_CorrelationVersion i)),
       (''state'', JStr (inc_State i)),
       (''createdAt'', enc_time (inc_CreatedAt i)),
       (''updatedAt'', enc_time (inc_UpdatedAt i)),
       (''firstAlertAt'', enc_time (inc_FirstAlertAt i)),
       (''lastAlertAt'', enc_time (inc_LastAlertAt i))] @
      omitempty (inc_TopologyContext i = None) ''topologyContext''
        (enc_ptr enc_topology_slice (inc_TopologyContext i)))"

section \<open>DAGs\<close>

definition DAGVersionV1 :: string where "DAGVersionV1 = ''v1''"

record dag_task_retry =
  rt_MaxAttempts :: int
  rt_BackoffSeconds :: int

record dag_task_approval =
  ap_Required :: bool
  ap_Mode :: string
  ap_SlackChannel :: string

record dag_task =
  tk_ID :: string
  tk_Name :: string
  tk_Description :: string
  tk_Tool :: string
  tk_Inputs :: "json gomap"
  tk_RunAfter :: "string list"
  tk_TimeoutSec :: int
  tk_Retry :: "dag_task_retry option"
  tk_Tags :: "string list"
  tk_Approval :: "dag_task_approval option"

record dag_constraints =
  dc_MaxParallel :: int
  dc_PerToolConcurrency :: "int gomap"
  dc_MustNotUseTools :: "string list"

record dag =
  dag_Version :: string
  dag_IncidentID :: string
  dag_PlanID :: string
  dag_Description :: string
  dag_Tasks :: "dag_task list"
  dag_Constraints :: dag_constraints
  dag_Metadata :: "string gomap"

record plan_metadata =
  pm_CreatedBy :: string
  pm_CreatedAt :: time
  pm_ChangePolicy :: string

definition enc_retry :: "dag_task_retry \<Rightarrow> json" where
  "enc_retry r = JObj ((''maxAttempts'', enc_int (rt_MaxAttempts r)) #
     omitempty (rt_BackoffSeconds r = 0) ''backoffSeconds'' (enc_int (rt_BackoffSeconds r)))"

definition enc_approval :: "dag_task_approval \<Rightarrow> json" where
  "enc_approval a = JObj ((''required'', JBool (ap_Required a)) #
     omitempty (ap_Mode a = []) ''mode'' (JStr (ap_Mode a)) @
     omitempty (ap_SlackChannel a = []) ''slackChannel'' (JStr (ap_SlackChannel a)))"

definition enc_inputs :: "json gomap \<Rightarrow> json" where
  "enc_inputs = enc_map (\<lambda>j. j)"

definition enc_task :: "dag_task \<Rightarrow> json" where
  "enc_task t = JObj
     ([(''id'', JStr (tk_ID t)), (''name'', JStr (tk_Name t))] @
      omitempty (tk_Description t = []) ''description'' (JStr (tk_Description t)) @
      [(''tool'', JStr (tk_Tool t)), (''inputs'', enc_inputs (tk_Inputs t))] @
      omitempty (tk_RunAfter t = []) ''runAfter'' (enc_list JStr (tk_RunAfter t)) @
      omitempty (tk_TimeoutSec t = 0) ''timeoutSeconds'' (enc_int (tk_TimeoutSec t)) @
      omitempty (tk_Retry t = None) ''retry'' (enc_ptr enc_retry (tk_Retry t)) @
      omitempty (tk_Tags t = []) ''tags'' (enc_list JStr (tk_Tags t)) @
      omitempty (tk_Approval t = None) ''approval'' (enc_ptr enc_approval (tk_Approval t)))"

definition enc_constraints :: "dag_constraints \<Rightarrow> json" where
  "enc_constraints c = JObj
     ((''maxParallel'', enc_int (dc_MaxParallel c)) #
      omitempty (mempty (dc_PerToolConcurrency c)) ''perToolConcurrency''
        (enc_map enc_int (dc_PerToolConcurrency c)) @
      omitempty (dc_MustNotUseTools c = []) ''mustNotUseTools''
        (enc_list JStr (dc_MustNotUseTools c)))"

definition enc_dag :: "dag \<Rightarrow> json" where
  "enc_dag d = JObj
     ([(''version'', JStr (dag_Version d)),
       (''incidentId'', JStr (dag_IncidentID d)),
       (''planId'', JStr (dag_PlanID d)),
       (''description'', JStr (dag_Description d)),
       (''tasks'', enc_list enc_task (dag_Tasks d)),
       (''constraints'', enc_constraints (dag_Constraints d))] @
      omitempty (mempty (dag_Metadata d)) ''metadata'' (enc_map JStr (dag_Metadata d)))"

definition dec_retry :: "json \<Rightarrow> dag_task_retry option" where
  "dec_retry = dec_struct (\<lambda>kvs.
     do { m \<leftarrow> dec_field dec_int 0 ''maxAttempts'' kvs;
          b \<leftarrow> dec_field dec_int 0 ''backoffSeconds'' kvs;
          Some \<lparr>rt_MaxAttempts = m, rt_BackoffSeconds = b\<rparr> })"

definition dec_approval :: "json \<Rightarrow> dag_task_approval option" where
  "dec_approval = dec_struct (\<lambda>kvs.
     do { r \<leftarrow> dec_field dec_bool False ''required'' kvs;
          m \<leftarrow> dec_field dec_str [] ''mode'' kvs;
          c \<leftarrow> dec_field dec_str [] ''slackChannel'' kvs;
          Some \<lparr>ap_Required = r, ap_Mode = m, ap_SlackChannel = c\<rparr> })"

definition dec_task :: "json \<Rightarrow> dag_task option" where
  "dec_task = dec_struct (\<lambda>kvs.
     do { i \<leftarrow> dec_field dec_str [] ''id'' kvs;
          n \<leftarrow> dec_field dec_str [] ''name'' kvs;
          d \<leftarrow> dec_field dec_str [] ''description'' kvs;
          t \<leftarrow> dec_field dec_str [] ''tool'' kvs;
          ins \<leftarrow> dec_field (dec_map dec_any) None ''inputs'' kvs;
          ra \<leftarrow> dec_field (dec_list dec_str) [] ''runAfter'' kvs;
          ts \<leftarrow> dec_field dec_int 0 ''timeoutSeconds'' kvs;
          r \<leftarrow> dec_field (dec_ptr dec_retry) None ''retry'' kvs;
          tags \<leftarrow> dec_field (dec_list dec_str) [] ''tags'' kvs;
          a \<leftarrow> dec_field (dec_ptr dec_approval) None ''approval'' kvs;
          Some \<lparr>tk_ID = i, tk_Name = n, tk_Description = d, tk_Tool = t, tk_Inputs = ins,
               tk_RunAfter = ra, tk_TimeoutSec = ts, tk_Retry = r, tk_Tags = tags, tk_Approval = a\<rparr> })"

definition dec_constraints :: "json \<Rightarrow> dag_constraints option" where
  "dec_constraints = dec_struct (\<lambda>kvs.
     do { m \<leftarrow> dec_field dec_int 0 ''maxParallel'' kvs;
          p \<leftarrow> dec_field (dec_map dec_int) None ''perToolConcurrency'' kvs;
          f \<leftarrow> dec_field (dec_list dec_str) [] ''mustNotUseTools'' kvs;
          Some \<lparr>dc_MaxParallel = m, dc_PerToolConcurrency = p, dc_MustNotUseTools = f\<rparr> })"

definition zero_constraints :: dag_constraints where
  "zero_constraints = \<lparr>dc_MaxParallel = 0, dc_PerToolConcurrency = None, dc_MustNotUseTools = []\<rparr>"

definition dec_dag :: "json \<Rightarrow> dag option" where
  "dec_dag = dec_struct (\<lambda>kvs.
     do { v \<leftarrow> dec_field dec_str [] ''version'' kvs;
          i \<leftarrow> dec_field dec_str [] ''incidentId'' kvs;
          p \<leftarrow> dec_field dec_str [] ''planId'' kvs;
          d \<leftarrow> dec_field dec_str [] ''description'' kvs;
          ts \<leftarrow> dec_field (dec_list dec_task) [] ''tasks'' kvs;
          c \<leftarrow> dec_field dec_constraints zero_constraints ''constraints'' kvs;
          m \<leftarrow> dec_field (dec_map dec_str) None ''metadata'' kvs;
          Some \<lparr>dag_Version = v, dag_IncidentID = i, dag_PlanID = p, dag_Description = d,
               dag_Tasks = ts, dag_Constraints = c, dag_Metadata = m\<rparr> })"

definition zero_dag :: dag where
  "zero_dag = \<lparr>dag_Version = [], dag_IncidentID = [], dag_PlanID = [], dag_Description = [],
     dag_Tasks = [], dag_Constraints = zero_constraints, dag_Metadata = None\<rparr>"

text \<open>
  Which DAGs survive the wire: integers that fit an int, inputs as \<open>encoding/json\<close> itself would hold
  them, and no map that is empty but not nil where the field is omitted when empty.
\<close>

definition int64_ok :: "int \<Rightarrow> bool" where
  "int64_ok n \<longleftrightarrow> min_int64 \<le> n \<and> n \<le> max_int64"

definition not_empty_map :: "'v gomap \<Rightarrow> bool" where
  "not_empty_map m \<longleftrightarrow> m = None \<or> \<not> mempty m"

definition task_wf :: "dag_task \<Rightarrow> bool" where
  "task_wf t \<longleftrightarrow> int64_ok (tk_TimeoutSec t) \<and>
     (case tk_Retry t of None \<Rightarrow> True | Some r \<Rightarrow> int64_ok (rt_MaxAttempts r) \<and> int64_ok (rt_BackoffSeconds r)) \<and>
     (case tk_Inputs t of None \<Rightarrow> True | Some f \<Rightarrow> fBall (fmdom f) (\<lambda>k. dec_any (the (fmlookup f k)) = Some (the (fmlookup f k))))"

definition dag_wf :: "dag \<Rightarrow> bool" where
  "dag_wf d \<longleftrightarrow> list_all task_wf (dag_Tasks d) \<and> int64_ok (dc_MaxParallel (dag_Constraints d)) \<and>
     not_empty_map (dag_Metadata d) \<and> not_empty_map (dc_PerToolConcurrency (dag_Constraints d)) \<and>
     (case dc_PerToolConcurrency (dag_Constraints d) of None \<Rightarrow> True
      | Some f \<Rightarrow> fBall (fmdom f) (\<lambda>k. int64_ok (the (fmlookup f k))))"

lemma dec_enc_int: "int64_ok n \<Longrightarrow> dec_int (enc_int n) = Some n"
  by (simp add: dec_int_def enc_int_def int64_ok_def)

lemma enc_not_null [simp]:
  "JStr s \<noteq> JNull" "JBool b \<noteq> JNull" "enc_int n \<noteq> JNull" "enc_list f xs \<noteq> JNull"
  "enc_retry r \<noteq> JNull" "enc_approval a \<noteq> JNull" "enc_task t \<noteq> JNull" "enc_constraints c \<noteq> JNull"
  "enc_map g (Some m) \<noteq> JNull" "enc_map g None = JNull"
  by (simp_all add: enc_int_def enc_list_def enc_retry_def enc_approval_def enc_task_def
      enc_constraints_def enc_map_def)

lemma dec_ptr_enc [simp]:
  "x \<noteq> JNull \<Longrightarrow> dec_ptr d x = map_option Some (d x)"
  by (simp add: dec_ptr_def split: json.splits)

lemmas field_eval = dec_struct_def dec_field_def key_matches_def ascii_lower_def omitempty_def enc_ptr_def

lemma dec_enc_retry:
  "int64_ok (rt_MaxAttempts r) \<Longrightarrow> int64_ok (rt_BackoffSeconds r) \<Longrightarrow> dec_retry (enc_retry r) = Some r"
  using dec_enc_int by (cases r) (auto simp: dec_retry_def enc_retry_def field_eval)

lemma dec_enc_bool [simp]: "dec_bool (JBool b) = Some b"
  by (simp add: dec_bool_def)

lemma dec_enc_approval [simp]: "dec_approval (enc_approval a) = Some a"
  by (cases a) (auto simp: dec_approval_def enc_approval_def field_eval)

lemma dec_enc_strs [simp]: "dec_list dec_str (enc_list JStr xs) = Some xs"
  by (rule dec_enc_list) simp

lemmas field_lookup =
  dec_field_def jfield_append jfield_omitempty key_matches_def ascii_lower_def

lemma enc_ptr_null [simp]: "enc_ptr f p = JNull \<longleftrightarrow> (case p of None \<Rightarrow> True | Some x \<Rightarrow> f x = JNull)"
  by (simp add: enc_ptr_def split: option.split)

lemma enc_map_null [simp]: "enc_map f m = JNull \<longleftrightarrow> m = None"
  by (simp add: enc_map_def split: option.split)

lemma dec_task_enc:
  assumes "task_wf t"
  shows "dec_task (enc_task t) = Some t"
proof -
  obtain kvs where kvs: "enc_task t = JObj kvs" by (simp add: enc_task_def)
  note k = kvs [unfolded enc_task_def, simplified, symmetric]
  have ins: "dec_map dec_any (enc_map (\<lambda>j. j) (tk_Inputs t)) = Some (tk_Inputs t)"
    by (rule dec_enc_map_on) (use assms in \<open>auto simp: task_wf_def\<close>)
  have "dec_field dec_str [] ''id'' kvs = Some (tk_ID t)" "dec_field dec_str [] ''name'' kvs = Some (tk_Name t)"
    "dec_field dec_str [] ''description'' kvs = Some (tk_Description t)"
    "dec_field dec_str [] ''tool'' kvs = Some (tk_Tool t)"
    by (auto simp: k field_lookup)
  moreover have "dec_field (dec_map dec_any) None ''inputs'' kvs = Some (tk_Inputs t)"
    using ins by (cases "tk_Inputs t") (auto simp: k field_lookup enc_inputs_def)
  moreover have "dec_field (dec_list dec_str) [] ''runAfter'' kvs = Some (tk_RunAfter t)"
    "dec_field (dec_list dec_str) [] ''tags'' kvs = Some (tk_Tags t)"
    by (auto simp: k field_lookup)
  moreover have "dec_field dec_int 0 ''timeoutSeconds'' kvs = Some (tk_TimeoutSec t)"
    using assms by (auto simp: k field_lookup task_wf_def dec_enc_int)
  moreover have "dec_field (dec_ptr dec_retry) None ''retry'' kvs = Some (tk_Retry t)"
    using assms by (cases "tk_Retry t") (auto simp: k field_lookup task_wf_def enc_ptr_def dec_enc_retry)
  moreover have "dec_field (dec_ptr dec_approval) None ''approval'' kvs = Some (tk_Approval t)"
    by (cases "tk_Approval t") (auto simp: k field_lookup enc_ptr_def)
  ultimately show ?thesis by (simp add: kvs dec_task_def dec_struct_def)
qed

lemma dec_constraints_enc:
  assumes "int64_ok (dc_MaxParallel c)" "not_empty_map (dc_PerToolConcurrency c)"
    and "\<And>f k. dc_PerToolConcurrency c = Some f \<Longrightarrow> k |\<in>| fmdom f \<Longrightarrow> int64_ok (the (fmlookup f k))"
  shows "dec_constraints (enc_constraints c) = Some c"
proof -
  obtain kvs where kvs: "enc_constraints c = JObj kvs" by (simp add: enc_constraints_def)
  note k = kvs [unfolded enc_constraints_def, simplified, symmetric]
  have m: "dec_map dec_int (enc_map enc_int (dc_PerToolConcurrency c)) = Some (dc_PerToolConcurrency c)"
    by (rule dec_enc_map_on) (rule dec_enc_int, rule assms(3))
  have "dec_field dec_int 0 ''maxParallel'' kvs = Some (dc_MaxParallel c)"
    "dec_field (dec_list dec_str) [] ''mustNotUseTools'' kvs = Some (dc_MustNotUseTools c)"
    using assms(1) by (auto simp: k field_lookup dec_enc_int)
  moreover have "dec_field (dec_map dec_int) None ''perToolConcurrency'' kvs = Some (dc_PerToolConcurrency c)"
    using m assms(2) by (auto simp: k field_lookup not_empty_map_def mempty_def)
  ultimately show ?thesis by (simp add: kvs dec_constraints_def dec_struct_def)
qed

lemma dag_roundtrip:
  assumes "dag_wf d"
  shows "dec_dag (enc_dag d) = Some d"
proof -
  obtain kvs where kvs: "enc_dag d = JObj kvs" by (simp add: enc_dag_def)
  note k = kvs [unfolded enc_dag_def, simplified, symmetric]
  have ts: "dec_list dec_task (enc_list enc_task (dag_Tasks d)) = Some (dag_Tasks d)"
    by (rule dec_enc_list) (use assms in \<open>auto simp: dag_wf_def list_all_iff dec_task_enc\<close>)
  have c: "dec_constraints (enc_constraints (dag_Constraints d)) = Some (dag_Constraints d)"
    by (rule dec_constraints_enc) (use assms in \<open>auto simp: dag_wf_def\<close>)
  have m: "dec_map dec_str (enc_map JStr (dag_Metadata d)) = Some (dag_Metadata d)"
    by (rule dec_enc_map) simp
  have "dec_field dec_str [] ''version'' kvs = Some (dag_Version d)"
    "dec_field dec_str [] ''incidentId'' kvs = Some (dag_IncidentID d)"
    "dec_field dec_str [] ''planId'' kvs = Some (dag_PlanID d)"
    "dec_field dec_str [] ''description'' kvs = Some (dag_Description d)"
    by (auto simp: k field_lookup)
  moreover have "dec_field (dec_list dec_task) [] ''tasks'' kvs = Some (dag_Tasks d)"
    "dec_field dec_constraints zero_constraints ''constraints'' kvs = Some (dag_Constraints d)"
    using ts c by (auto simp: k field_lookup)
  moreover have "dec_field (dec_map dec_str) None ''metadata'' kvs = Some (dag_Metadata d)"
    using m assms by (auto simp: k field_lookup not_empty_map_def mempty_def dag_wf_def)
  ultimately show ?thesis by (simp add: kvs dec_dag_def dec_struct_def)
qed

text \<open>
  What a decoded DAG is like, whatever the JSON: its integers fit an int and its inputs are values
  that reading again does not change.
\<close>

definition dag_typed :: "dag \<Rightarrow> bool" where
  "dag_typed d \<longleftrightarrow> list_all task_wf (dag_Tasks d) \<and> int64_ok (dc_MaxParallel (dag_Constraints d)) \<and>
     pred_option (fmpred (\<lambda>k. int64_ok)) (dc_PerToolConcurrency (dag_Constraints d))"

lemma int64_ok_0 [simp]: "int64_ok 0"
  by (simp add: int64_ok_def min_int64_def max_int64_def)

lemma dec_int_ok: "dec_int j = Some n \<Longrightarrow> int64_ok n"
  by (cases j) (auto simp: dec_int_def int64_ok_def min_int64_def max_int64_def split: if_splits)

lemma dec_retry_ok: "dec_retry j = Some r \<Longrightarrow> int64_ok (rt_MaxAttempts r) \<and> int64_ok (rt_BackoffSeconds r)"
  unfolding dec_retry_def
  by (erule dec_struct_holds)
    (auto split: Option.bind_splits dest!: dec_field_holds [where P = int64_ok] intro: dec_int_ok)

lemma dec_inputs_ok:
  assumes "dec_map dec_any j = Some m"
  shows "pred_option (\<lambda>f. fBall (fmdom f) (\<lambda>k. dec_any (the (fmlookup f k)) = Some (the (fmlookup f k)))) m"
proof -
  have "pred_option (fmpred (\<lambda>k v. dec_any v = Some v)) m"
    by (rule dec_map_holds [OF assms]) (rule dec_any_again)
  then show ?thesis by (cases m) (auto simp: fmpred_iff fmlookup_dom_iff)
qed

lemma dec_task_wf: "dec_task j = Some t \<Longrightarrow> task_wf t"
  unfolding dec_task_def
proof (erule dec_struct_holds)
  fix kvs t
  assume "do { i \<leftarrow> dec_field dec_str [] ''id'' kvs;
          n \<leftarrow> dec_field dec_str [] ''name'' kvs;
          d \<leftarrow> dec_field dec_str [] ''description'' kvs;
          t \<leftarrow> dec_field dec_str [] ''tool'' kvs;
          ins \<leftarrow> dec_field (dec_map dec_any) None ''inputs'' kvs;
          ra \<leftarrow> dec_field (dec_list dec_str) [] ''runAfter'' kvs;
          ts \<leftarrow> dec_field dec_int 0 ''timeoutSeconds'' kvs;
          r \<leftarrow> dec_field (dec_ptr dec_retry) None ''retry'' kvs;
          tags \<leftarrow> dec_field (dec_list dec_str) [] ''tags'' kvs;
          a \<leftarrow> dec_field (dec_ptr dec_approval) None ''approval'' kvs;
          Some \<lparr>tk_ID = i, tk_Name = n, tk_Description = d, tk_Tool = t, tk_Inputs = ins,
               tk_RunAfter = ra, tk_TimeoutSec = ts, tk_Retry = r, tk_Tags = tags, tk_Approval = a\<rparr> } = Some t"
  then have f: "dec_field (dec_map dec_any) None ''inputs'' kvs = Some (tk_Inputs t)"
    "dec_field dec_int 0 ''timeoutSeconds'' kvs = Some (tk_TimeoutSec t)"
    "dec_field (dec_ptr dec_retry) None ''retry'' kvs = Some (tk_Retry t)"
    by (auto split: Option.bind_splits)
  have "pred_option (\<lambda>f. fBall (fmdom f) (\<lambda>k. dec_any (the (fmlookup f k)) = Some (the (fmlookup f k)))) (tk_Inputs t)"
    by (rule dec_field_holds [OF f(1)]) (simp, rule dec_inputs_ok)
  moreover have "int64_ok (tk_TimeoutSec t)"
    by (rule dec_field_holds [OF f(2)]) (simp, rule dec_int_ok)
  moreover have "pred_option (\<lambda>r. int64_ok (rt_MaxAttempts r) \<and> int64_ok (rt_BackoffSeconds r)) (tk_Retry t)"
    by (rule dec_field_holds [OF f(3)]) (simp, erule dec_ptr_holds, rule dec_retry_ok)
  ultimately show "task_wf t" by (auto simp: task_wf_def split: option.split)
qed

lemma dec_constraints_typed:
  assumes "dec_constraints j = Some c"
  shows "int64_ok (dc_MaxParallel c) \<and> pred_option (fmpred (\<lambda>k. int64_ok)) (dc_PerToolConcurrency c)"
  using assms unfolding dec_constraints_def
proof (rule dec_struct_holds)
  fix kvs c
  assume "do { m \<leftarrow> dec_field dec_int 0 ''maxParallel'' kvs;
          p \<leftarrow> dec_field (dec_map dec_int) None ''perToolConcurrency'' kvs;
          f \<leftarrow> dec_field (dec_list dec_str) [] ''mustNotUseTools'' kvs;
          Some \<lparr>dc_MaxParallel = m, dc_PerToolConcurrency = p, dc_MustNotUseTools = f\<rparr> } = Some c"
  then have f: "dec_field dec_int 0 ''maxParallel'' kvs = Some (dc_MaxParallel c)"
    "dec_field (dec_map dec_int) None ''perToolConcurrency'' kvs = Some (dc_PerToolConcurrency c)"
    by (auto split: Option.bind_splits)
  have "int64_ok (dc_MaxParallel c)"
    by (rule dec_field_holds [OF f(1)]) (simp, rule dec_int_ok)
  moreover have "pred_option (fmpred (\<lambda>k. int64_ok)) (dc_PerToolConcurrency c)"
    by (rule dec_field_holds [OF f(2)]) (simp, erule dec_map_holds, rule dec_int_ok)
  ultimately show "int64_ok (dc_MaxParallel c) \<and> pred_option (fmpred (\<lambda>k. int64_ok)) (dc_PerToolConcurrency c)" ..
qed

lemma dec_dag_typed:
  assumes "dec_dag j = Some d"
  shows "dag_typed d"
  using assms unfolding dec_dag_def
proof (rule dec_struct_holds)
  fix kvs d
  assume "do { v \<leftarrow> dec_field dec_str [] ''version'' kvs;
          i \<leftarrow> dec_field dec_str [] ''incidentId'' kvs;
          p \<leftarrow> dec_field dec_str [] ''planId'' kvs;
          d \<leftarrow> dec_field dec_str [] ''description'' kvs;
          ts \<leftarrow> dec_field (dec_list dec_task) [] ''tasks'' kvs;
          c \<leftarrow> dec_field dec_constraints zero_constraints ''constraints'' kvs;
          m \<leftarrow> dec_field (dec_map dec_str) None ''metadata'' kvs;
          Some \<lparr>dag_Version = v, dag_IncidentID = i, dag_PlanID = p, dag_Description = d,
               dag_Tasks = ts, dag_Constraints = c, dag_Metadata = m\<rparr> } = Some d"
  then have f: "dec_field (dec_list dec_task) [] ''tasks'' kvs = Some (dag_Tasks d)"
    "dec_field dec_constraints zero_constraints ''constraints'' kvs = Some (dag_Constraints d)"
    by (auto split: Option.bind_splits)
  have "list_all task_wf (dag_Tasks d)"
    by (rule dec_field_holds [OF f(1)]) (simp, erule dec_list_holds, rule dec_task_wf)
  moreover have "int64_ok (dc_MaxParallel (dag_Constraints d)) \<and>
      pred_option (fmpred (\<lambda>k. int64_ok)) (dc_PerToolConcurrency (dag_Constraints d))"
    by (rule dec_field_holds [OF f(2)]) (simp add: zero_constraints_def, rule dec_constraints_typed)
  ultimately show "dag_typed d" by (simp add: dag_typed_def)
qed

lemma zero_dag_typed [simp]: "dag_typed zero_dag"
  by (simp add: dag_typed_def zero_dag_def zero_constraints_def)

text \<open>
  A well-formed DAG (integers in the range of an int, no empty map that is not nil, inputs as an
  \<open>interface{}\<close> holds them) survives the wire: decoding its encoding gives it back.
\<close>

theorem dec_dag_enc:
  assumes "dag_wf d"
  shows "dec_dag (enc_dag d) = Some d"
  by (rule dag_roundtrip [OF assms])

definition demo_task :: "string \<Rightarrow> string \<Rightarrow> string list \<Rightarrow> dag_task" where
  "demo_task i tool after =
     \<lparr>tk_ID = i, tk_Name = ''restart'', tk_Description = [], tk_Tool = tool, tk_Inputs = None,
      tk_RunAfter = after, tk_TimeoutSec = 60, tk_Retry = None, tk_Tags = [],
      tk_Approval = Some \<lparr>ap_Required = False, ap_Mode = [], ap_SlackChannel = ''#ops''\<rparr>\<rparr>"

definition demo_dag :: "dag_task list \<Rightarrow> dag" where
  "demo_dag tasks =
     \<lparr>dag_Version = DAGVersionV1, dag_IncidentID = ''i'', dag_PlanID = ''p'', dag_Description = [],
      dag_Tasks = tasks, dag_Constraints = zero_constraints, dag_Metadata = None\<rparr>"

theorem dec_dag_enc_witness:
  "dec_dag (enc_dag (demo_dag [demo_task ''a'' ''kubectl'' [], demo_task ''b'' ''wait'' [''a'']])) =
     Some (demo_dag [demo_task ''a'' ''kubectl'' [], demo_task ''b'' ''wait'' [''a'']])"
  by (rule dec_dag_enc)
    (simp add: dag_wf_def demo_dag_def demo_task_def task_wf_def int64_ok_def min_int64_def max_int64_def
      zero_constraints_def not_empty_map_def)

section \<open>The result of an investigation\<close>

record evidence_item =
  ev_Type :: string
  ev_Source :: string
  ev_Description :: string
  ev_Link :: string

record rca =
  rca_Summary :: string
  rca_RootCauseType :: string
  rca_Confidence :: rat
  rca_ContributingFactors :: "string list"
  rca_Evidence :: "evidence_item list"

definition dec_evidence_item :: "json \<Rightarrow> evidence_item option" where
  "dec_evidence_item = dec_struct (\<lambda>kvs.
     do { t \<leftarrow> dec_field dec_str [] ''type'' kvs;
          s \<leftarrow> dec_field dec_str [] ''source'' kvs;
          d \<leftarrow> dec_field dec_str [] ''description'' kvs;
          l \<leftarrow> dec_field dec_str [] ''link'' kvs;
          Some \<lparr>ev_Type = t, ev_Source = s, ev_Description = d, ev_Link = l\<rparr> })"

definition dec_rca :: "json \<Rightarrow> rca option" where
  "dec_rca = dec_struct (\<lambda>kvs.
     do { s \<leftarrow> dec_field dec_str [] ''summary'' kvs;
          t \<leftarrow> dec_field dec_str [] ''rootCauseType'' kvs;
          c \<leftarrow> dec_field dec_float 0 ''confidence'' kvs;
          f \<leftarrow> dec_field (dec_list dec_str) [] ''contributingFactors'' kvs;
          e \<leftarrow> dec_field (dec_list dec_evidence_item) [] ''evidence'' kvs;
          Some \<lparr>rca_Summary = s, rca_RootCauseType = t, rca_Confidence = c,
               rca_ContributingFactors = f, rca_Evidence = e\<rparr> })"

definition zero_rca :: rca where
  "zero_rca = \<lparr>rca_Summary = [], rca_RootCauseType = [], rca_Confidence = 0,
     rca_ContributingFactors = [], rca_Evidence = []\<rparr>"

record investigation_result =
  ir_IncidentID :: string
  ir_PlanID :: string
  ir_RCA :: rca
  ir_DAG :: dag
  ir_PlanConfidence :: rat
  ir_HumanApprovalNeeded :: bool

lemmas enc_domain [enc_defs] =
  enc_labels_def enc_alert_def enc_topology_node_def enc_topology_edge_def enc_topology_slice_def
  enc_incident_def enc_retry_def enc_approval_def enc_inputs_def enc_task_def enc_constraints_def
  enc_dag_def

end
