(* ===== verification/Pg_Queries.thy ===== *)
theory Pg_Queries
  imports Domain
begin

text \<open>
  \<open>internal/storage/postgres\<close>: the rows, the tables of \<open>migrations/000001_init.up.sql\<close> and the
  queries that the generated Go functions run, read as SQL on the tables.

  A table is the list of its rows. PRIMARY KEY, UNIQUE, CHECK and REFERENCES constraints are errors
  of the statement that would violate them; SERIAL is a counter that no rollback resets. Every call
  of a query function is one round trip to the server: it takes the environment of the method call
  and the pair of the number of round trips made so far and the database, so that any round trip
  can fail (\<open>pe_fault\<close>), whatever it does. Where ORDER BY leaves rows tied, their order is that of
  \<open>pe_scan\<close>. A column of type \<open>timestamptz\<close> holds an instant at the server's resolution \<open>pe_ts\<close>.
\<close>

section \<open>Rows, tables, environment\<close>

record incident_row =
  row_ID :: string
  row_Service :: string
  row_Cluster :: string
  row_Environment :: string
  row_Severity :: string
  row_CorrelationKey :: string
  row_CorrelationVersion :: int
  row_State :: string
  row_CreatedAt :: time
  row_UpdatedAt :: time
  row_FirstAlertAt :: time
  row_LastAlertAt :: time
  row_TopologySnapshot :: "json option"
  row_RemediationAttempts :: int
  row_GithubPrUrl :: "string option"
  row_RcaSummary :: "string option"

record alert_row =
  arow_ID :: int
  arow_IncidentID :: string
  arow_Fingerprint :: string
  arow_Labels :: json
  arow_Annotations :: json
  arow_StartsAt :: time
  arow_EndsAt :: "time option"
  arow_CreatedAt :: time

record db =
  db_incidents :: "incident_row list"
  db_alerts :: "alert_row list"
  db_next_alert_id :: int

record pg_env =
  pe_now :: time      \<comment> \<open>\<open>time.Now()\<close> of the Go code\<close>
  pe_now_pg :: time   \<comment> \<open>\<open>NOW()\<close> of the server\<close>
  pe_fault :: "nat \<Rightarrow> string option"
  pe_commit_applied :: bool  \<comment> \<open>whether a COMMIT whose reply was lost took effect\<close>
  pe_scan :: "incident_row list \<Rightarrow> incident_row list"
  pe_scan_alerts :: "alert_row list \<Rightarrow> alert_row list"
  pe_ts :: "time \<Rightarrow> time"

datatype pg_error = ErrNoRows | PgError string

fun pg_err_text :: "pg_error \<Rightarrow> error" where
  "pg_err_text ErrNoRows = ''no rows in result set''"
| "pg_err_text (PgError m) = m"

type_synonym conn = "nat \<times> db"
type_synonym 'a query = "pg_env \<Rightarrow> conn \<Rightarrow> (pg_error + 'a) \<times> conn"

definition round_trip :: "(pg_env \<Rightarrow> db \<Rightarrow> (pg_error + 'a) \<times> db) \<Rightarrow> 'a query" where
  "round_trip f e c =
     (case pe_fault e (fst c) of
        Some m \<Rightarrow> (Inl (PgError m), (Suc (fst c), snd c))
      | None \<Rightarrow> (let (r, d) = f e (snd c) in (r, (Suc (fst c), d))))"

definition valid_states :: "string list" where
  "valid_states = [''open'', ''investigating'', ''mitigating'', ''monitoring'', ''resolved'']"

definition order_by_desc :: "('r \<Rightarrow> int) \<Rightarrow> 'r list \<Rightarrow> 'r list" where
  "order_by_desc key rows = sort_key (\<lambda>r. - key r) rows"

definition one_row :: "'r list \<Rightarrow> pg_error + 'r" where
  "one_row rows = (case rows of [] \<Rightarrow> Inl ErrNoRows | r # _ \<Rightarrow> Inr r)"

section \<open>The queries of incidents.sql.go\<close>

definition stored_row :: "pg_env \<Rightarrow> incident_row \<Rightarrow> incident_row" where
  "stored_row e r = r\<lparr>row_CreatedAt := pe_ts e (row_CreatedAt r),
     row_UpdatedAt := pe_ts e (row_UpdatedAt r),
     row_FirstAlertAt := pe_ts e (row_FirstAlertAt r),
     row_LastAlertAt := pe_ts e (row_LastAlertAt r)\<rparr>"

definition CreateIncident :: "incident_row \<Rightarrow> incident_row query" where
  "CreateIncident arg = round_trip (\<lambda>e d.
     if row_ID arg \<in> row_ID ` set (db_incidents d)
     then (Inl (PgError ''duplicate key value violates unique constraint''), d)
     else if row_State arg \<notin> set valid_states
     then (Inl (PgError ''new row violates check constraint valid_state''), d)
     else (Inr (stored_row e arg), d\<lparr>db_incidents := db_incidents d @ [stored_row e arg]\<rparr>))"

definition FindOpenByCorrelationKey :: "string \<Rightarrow> time \<Rightarrow> incident_row query" where
  "FindOpenByCorrelationKey key cutoff = round_trip (\<lambda>e d.
     (one_row (order_by_desc row_LastAlertAt (filter (\<lambda>r. row_CorrelationKey r = key \<and>
        row_State r \<noteq> ''resolved'' \<and> row_LastAlertAt r > pe_ts e cutoff) (pe_scan e (db_incidents d)))), d))"

definition GetIncidentByID :: "string \<Rightarrow> incident_row query" where
  "GetIncidentByID i = round_trip (\<lambda>e d. (one_row (filter (\<lambda>r. row_ID r = i) (db_incidents d)), d))"

definition update_rows ::
    "string \<Rightarrow> (incident_row \<Rightarrow> incident_row) \<Rightarrow> db \<Rightarrow> (pg_error + incident_row) \<times> db" where
  \<comment> \<open>UPDATE incidents SET ... WHERE id = $1 RETURNING ...\<close>
  "update_rows i f d =
     (case filter (\<lambda>r. row_ID r = i) (db_incidents d) of
        [] \<Rightarrow> (Inl ErrNoRows, d)
      | r # _ \<Rightarrow>
          if row_State (f r) \<notin> set valid_states
          then (Inl (PgError ''new row violates check constraint valid_state''), d)
          else if row_RemediationAttempts (f r) \<ge> 2 ^ 31
          then (Inl (PgError ''integer out of range''), d)
          else (Inr (f r), d\<lparr>db_incidents :=
                  map (\<lambda>r. if row_ID r = i then f r else r) (db_incidents d)\<rparr>))"

definition IncrementRemediationAttempts :: "string \<Rightarrow> incident_row query" where
  "IncrementRemediationAttempts i = round_trip (\<lambda>e.
     update_rows i (\<lambda>r. r\<lparr>row_RemediationAttempts := row_RemediationAttempts r + 1,
                          row_UpdatedAt := pe_ts e (pe_now_pg e)\<rparr>))"

definition ListIncidents :: "incident_row list query" where
  "ListIncidents = round_trip (\<lambda>e d.
     (Inr (order_by_desc row_CreatedAt (pe_scan e (db_incidents d))), d))"

definition ListIncidentsByState :: "string \<Rightarrow> incident_row list query" where
  "ListIncidentsByState state = round_trip (\<lambda>e d.
     (Inr (order_by_desc row_CreatedAt
        (filter (\<lambda>r. row_State r = state) (pe_scan e (db_incidents d)))), d))"

record update_incident_params =
  up_ID :: string
  up_Service :: string
  up_Cluster :: string
  up_Environment :: string
  up_Severity :: string
  up_CorrelationKey :: string
  up_CorrelationVersion :: int
  up_State :: string
  up_UpdatedAt :: time
  up_FirstAlertAt :: time
  up_LastAlertAt :: time
  up_TopologySnapshot :: "json option"
  up_RemediationAttempts :: int
  up_GithubPrUrl :: "string option"
  up_RcaSummary :: "string option"

definition apply_update :: "pg_env \<Rightarrow> update_incident_params \<Rightarrow> incident_row \<Rightarrow> incident_row" where
  "apply_update e a r = r\<lparr>
     row_Service := up_Service a, row_Cluster := up_Cluster a,
     row_Environment := up_Environment a, row_Severity := up_Severity a,
     row_CorrelationKey := up_CorrelationKey a,
     row_CorrelationVersion := up_CorrelationVersion a, row_State := up_State a,
     row_UpdatedAt := pe_ts e (up_UpdatedAt a), row_FirstAlertAt := pe_ts e (up_FirstAlertAt a),
     row_LastAlertAt := pe_ts e (up_LastAlertAt a),
     row_TopologySnapshot := up_TopologySnapshot a,
     row_RemediationAttempts := up_RemediationAttempts a,
     row_GithubPrUrl := up_GithubPrUrl a, row_RcaSummary := up_RcaSummary a\<rparr>"

definition UpdateIncident :: "update_incident_params \<Rightarrow> incident_row query" where
  "UpdateIncident arg = round_trip (\<lambda>e. update_rows (up_ID arg) (apply_update e arg))"

definition UpdateIncidentPR :: "string \<Rightarrow> string option \<Rightarrow> incident_row query" where
  "UpdateIncidentPR i url = round_trip (\<lambda>e.
     update_rows i (\<lambda>r. r\<lparr>row_GithubPrUrl := url, row_UpdatedAt := pe_ts e (pe_now_pg e)\<rparr>))"

definition UpdateIncidentRCA :: "string \<Rightarrow> string option \<Rightarrow> incident_row query" where
  "UpdateIncidentRCA i summary = round_trip (\<lambda>e.
     update_rows i (\<lambda>r. r\<lparr>row_RcaSummary := summary, row_UpdatedAt := pe_ts e (pe_now_pg e)\<rparr>))"

definition UpdateIncidentState :: "string \<Rightarrow> string \<Rightarrow> incident_row query" where
  "UpdateIncidentState i state = round_trip (\<lambda>e.
     update_rows i (\<lambda>r. r\<lparr>row_State := state, row_UpdatedAt := pe_ts e (pe_now_pg e)\<rparr>))"

section \<open>The queries of alerts.sql.go\<close>

record create_alert_params =
  ca_IncidentID :: string
  ca_Fingerprint :: string
  ca_Labels :: json
  ca_Annotations :: json
  ca_StartsAt :: time
  ca_EndsAt :: "time option"

definition conflicts :: "create_alert_params \<Rightarrow> alert_row \<Rightarrow> bool" where
  "conflicts a r \<longleftrightarrow> arow_IncidentID r = ca_IncidentID a \<and> arow_Fingerprint r = ca_Fingerprint a"

definition upsert_alert :: "pg_env \<Rightarrow> create_alert_params \<Rightarrow> alert_row \<Rightarrow> alert_row" where
  \<comment> \<open>ON CONFLICT (incident_id, fingerprint) DO UPDATE SET ...\<close>
  "upsert_alert e a r = r\<lparr>arow_Labels := ca_Labels a, arow_Annotations := ca_Annotations a,
     arow_StartsAt := pe_ts e (ca_StartsAt a), arow_EndsAt := map_option (pe_ts e) (ca_EndsAt a)\<rparr>"

definition new_alert_row :: "pg_env \<Rightarrow> create_alert_params \<Rightarrow> int \<Rightarrow> alert_row" where
  "new_alert_row e a i =
     \<lparr>arow_ID = i, arow_IncidentID = ca_IncidentID a, arow_Fingerprint = ca_Fingerprint a,
      arow_Labels = ca_Labels a, arow_Annotations = ca_Annotations a,
      arow_StartsAt = pe_ts e (ca_StartsAt a), arow_EndsAt = map_option (pe_ts e) (ca_EndsAt a),
      arow_CreatedAt = pe_ts e (pe_now_pg e)\<rparr>"

definition CreateAlert :: "create_alert_params \<Rightarrow> alert_row query" where
  "CreateAlert a = round_trip (\<lambda>e d.
     let i = db_next_alert_id d in
     if i \<ge> 2 ^ 31 then (Inl (PgError ''nextval: reached maximum value of sequence''), d)
     else let d = d\<lparr>db_next_alert_id := i + 1\<rparr> in
       (case filter (conflicts a) (db_alerts d) of
          r # _ \<Rightarrow> (Inr (upsert_alert e a r), d\<lparr>db_alerts :=
                     map (\<lambda>r. if conflicts a r then upsert_alert e a r else r) (db_alerts d)\<rparr>)
        | [] \<Rightarrow>
            if ca_IncidentID a \<notin> row_ID ` set (db_incidents d)
            then (Inl (PgError ''insert or update violates foreign key constraint''), d)
            else (Inr (new_alert_row e a i),
                  d\<lparr>db_alerts := db_alerts d @ [new_alert_row e a i]\<rparr>)))"

definition GetAlertByFingerprint :: "string \<Rightarrow> alert_row query" where
  "GetAlertByFingerprint fp = round_trip (\<lambda>e d.
     (one_row (order_by_desc arow_CreatedAt
        (filter (\<lambda>r. arow_Fingerprint r = fp) (pe_scan_alerts e (db_alerts d)))), d))"

definition GetAlertsByIncidentID :: "string \<Rightarrow> alert_row list query" where
  "GetAlertsByIncidentID i = round_trip (\<lambda>e d.
     (Inr (order_by_desc arow_StartsAt
        (filter (\<lambda>r. arow_IncidentID r = i) (pe_scan_alerts e (db_alerts d)))), d))"

definition ListRecentAlerts :: "time \<Rightarrow> alert_row list query" where
  "ListRecentAlerts t = round_trip (\<lambda>e d.
     (Inr (order_by_desc arow_StartsAt
        (filter (\<lambda>r. arow_StartsAt r > pe_ts e t) (pe_scan_alerts e (db_alerts d)))), d))"

section \<open>The invariant of the database\<close>

definition alert_key :: "alert_row \<Rightarrow> string \<times> string" where
  "alert_key r = (arow_IncidentID r, arow_Fingerprint r)"

definition row_ok :: "incident_row \<Rightarrow> bool" where
  "row_ok r \<longleftrightarrow> row_State r \<in> set valid_states \<and>
     (\<forall>j. row_TopologySnapshot r = Some j \<longrightarrow> dec_topology_slice j \<noteq> None)"

definition arow_ok :: "alert_row \<Rightarrow> bool" where
  "arow_ok r \<longleftrightarrow> dec_labels (arow_Labels r) \<noteq> None \<and> dec_labels (arow_Annotations r) \<noteq> None"

definition db_ids :: "db \<Rightarrow> string list" where
  "db_ids d = map row_ID (db_incidents d)"

definition db_inv :: "db \<Rightarrow> bool" where
  "db_inv d \<longleftrightarrow>
     distinct (db_ids d) \<and> list_all row_ok (db_incidents d) \<and>
     distinct (map alert_key (db_alerts d)) \<and>
     list_all (\<lambda>r. arow_IncidentID r \<in> set (db_ids d) \<and> arow_ok r) (db_alerts d)"

definition empty_db :: db where
  "empty_db = \<lparr>db_incidents = [], db_alerts = [], db_next_alert_id = 1\<rparr>"

lemma db_inv_empty [simp]: "db_inv empty_db"
  by (simp add: db_inv_def empty_db_def db_ids_def)

lemma round_trip_cases:
  assumes "round_trip f e c = (r, c')"
  obtains (fault) m where "r = Inl (PgError m)" "c' = (Suc (fst c), snd c)"
    | (ran) d where "f e (snd c) = (r, d)" "c' = (Suc (fst c), d)"
  using assms by (auto simp: round_trip_def split: option.splits prod.splits)

lemma filter_id_distinct:
  assumes "distinct (map f rows)" and "filter (\<lambda>r. f r = i) rows = r # rs"
  shows "r \<in> set rows \<and> f r = i \<and> rs = []"
proof -
  have d: "distinct (map f (r # rs))"
    using assms by (metis distinct_map_filter)
  have "set (r # rs) = {x \<in> set rows. f x = i}"
    using assms(2) by (metis set_filter)
  then have "r \<in> set rows" "f r = i" "\<forall>x \<in> set rs. f x = i" by auto
  with d show ?thesis by (cases rs) auto
qed

lemma row_unique:
  assumes "distinct (map f rows)" and "x \<in> set rows" "y \<in> set rows" "f x = f y"
  shows "x = y"
  using assms by (auto simp: distinct_map inj_on_def)

lemma update_rows_inv:
  assumes inv: "db_inv d" and u: "update_rows i f d = (r, d')"
    and id: "\<And>x. row_ID (f x) = row_ID x"
    and topo: "\<And>x. x \<in> set (db_incidents d) \<Longrightarrow> row_State (f x) \<in> set valid_states \<Longrightarrow> row_ok (f x)"
  shows "db_inv d'"
proof (cases r)
  case (Inl err)
  with u have "d' = d" by (auto simp: update_rows_def split: list.splits if_splits)
  with inv show ?thesis by simp
next
  case (Inr row)
  let ?g = "\<lambda>r. if row_ID r = i then f r else r"
  from u Inr obtain x xs where x: "filter (\<lambda>r. row_ID r = i) (db_incidents d) = x # xs"
    and st: "row_State (f x) \<in> set valid_states"
    and d': "d' = d\<lparr>db_incidents := map ?g (db_incidents d)\<rparr>"
    by (auto simp: update_rows_def split: list.splits if_splits)
  have dist: "distinct (map row_ID (db_incidents d))" using inv by (simp add: db_inv_def db_ids_def)
  from filter_id_distinct [OF dist x] have x': "x \<in> set (db_incidents d)" "row_ID x = i" by auto
  have ids: "db_ids d' = db_ids d" by (simp add: d' db_ids_def id)
  have "row_ok (?g y)" if "y \<in> set (db_incidents d)" for y
  proof (cases "row_ID y = i")
    case True
    with row_unique [OF dist that x'(1)] x'(2) have "y = x" by simp
    with topo [OF x'(1) st] x' show ?thesis by simp
  next
    case False
    with inv that show ?thesis by (simp add: db_inv_def list_all_iff)
  qed
  then have "list_all row_ok (db_incidents d')" by (simp add: d' list_all_iff del: if_image_distrib)
  with inv show ?thesis by (simp add: db_inv_def ids) (simp add: d')
qed

lemma row_ok_frame:
  "row_ok r \<Longrightarrow> row_State r' \<in> set valid_states \<Longrightarrow>
     row_TopologySnapshot r' = row_TopologySnapshot r \<Longrightarrow> row_ok r'"
  by (simp add: row_ok_def)

lemma db_inv_row_ok: "db_inv d \<Longrightarrow> x \<in> set (db_incidents d) \<Longrightarrow> row_ok x"
  by (simp add: db_inv_def list_all_iff)

lemma CreateIncident_inv:
  assumes inv: "db_inv d" and c: "CreateIncident a e (n, d) = (r, (n', d'))"
    and topo: "\<And>j. row_TopologySnapshot a = Some j \<Longrightarrow> dec_topology_slice j \<noteq> None"
  shows "db_inv d'"
  using c unfolding CreateIncident_def
proof (cases rule: round_trip_cases)
  case (ran d0)
  show ?thesis
  proof (cases "row_ID a \<in> row_ID ` set (db_incidents d) \<or> row_State a \<notin> set valid_states")
    case True
    with ran inv show ?thesis by (auto split: if_splits)
  next
    case False
    with topo have "row_ok (stored_row e a)" by (auto simp: row_ok_def stored_row_def)
    moreover have "row_ID (stored_row e a) = row_ID a" by (simp add: stored_row_def)
    moreover from False ran have "d' = d\<lparr>db_incidents := db_incidents d @ [stored_row e a]\<rparr>" by simp
    ultimately show ?thesis
      using inv False by (auto simp: db_inv_def db_ids_def list_all_iff)
  qed
qed (use inv in simp)

lemma map_upsert_key:
  "map alert_key (map (\<lambda>r. if conflicts a r then upsert_alert e a r else r) rows) = map alert_key rows"
  by (simp add: alert_key_def upsert_alert_def)

lemma db_inv_upsert:
  assumes inv: "db_inv d" and lab: "dec_labels (ca_Labels a) \<noteq> None" "dec_labels (ca_Annotations a) \<noteq> None"
  shows "db_inv (d\<lparr>db_next_alert_id := k, db_alerts :=
      map (\<lambda>r. if conflicts a r then upsert_alert e a r else r) (db_alerts d)\<rparr>)"
proof -
  let ?g = "\<lambda>r. if conflicts a r then upsert_alert e a r else r"
  have "arow_ok (?g r) \<longleftrightarrow> conflicts a r \<or> arow_ok r" "arow_IncidentID (?g r) = arow_IncidentID r" for r
    using lab by (simp_all add: arow_ok_def upsert_alert_def)
  then have "list_all (\<lambda>r. arow_IncidentID r \<in> I \<and> arow_ok r) (map ?g rows)"
    if "list_all (\<lambda>r. arow_IncidentID r \<in> I \<and> arow_ok r) rows" for I rows
    using that by (induction rows) simp_all
  from this [of "set (db_ids d)" "db_alerts d"] inv
  have "list_all (\<lambda>r. arow_IncidentID r \<in> set (db_ids d) \<and> arow_ok r) (map ?g (db_alerts d))"
    by (simp add: db_inv_def)
  with inv map_upsert_key [of a e "db_alerts d"] show ?thesis
    by (simp add: db_inv_def db_ids_def del: map_map)
qed

lemma db_inv_new_alert:
  assumes inv: "db_inv d" and lab: "dec_labels (ca_Labels a) \<noteq> None" "dec_labels (ca_Annotations a) \<noteq> None"
    and new: "filter (conflicts a) (db_alerts d) = []" and fk: "ca_IncidentID a \<in> row_ID ` set (db_incidents d)"
  shows "db_inv (d\<lparr>db_next_alert_id := k, db_alerts := db_alerts d @ [new_alert_row e a i]\<rparr>)"
proof -
  have "alert_key (new_alert_row e a i) \<notin> alert_key ` set (db_alerts d)"
    using new by (auto simp: filter_empty_conv conflicts_def alert_key_def new_alert_row_def)
  moreover have "arow_ok (new_alert_row e a i)" "arow_IncidentID (new_alert_row e a i) = ca_IncidentID a"
    using lab by (simp_all add: arow_ok_def new_alert_row_def)
  ultimately show ?thesis
    using inv fk by (simp add: db_inv_def db_ids_def)
qed

lemma db_inv_next [simp]: "db_inv (d\<lparr>db_next_alert_id := k\<rparr>) = db_inv d"
  by (simp add: db_inv_def db_ids_def)

lemma CreateAlert_inv:
  assumes inv: "db_inv d" and c: "CreateAlert a e (n, d) = (r, (n', d'))"
    and lab: "dec_labels (ca_Labels a) \<noteq> None" "dec_labels (ca_Annotations a) \<noteq> None"
  shows "db_inv d'"
  using c unfolding CreateAlert_def
proof (cases rule: round_trip_cases)
  case (ran d0)
  then show ?thesis
    using inv db_inv_upsert [OF inv lab] db_inv_new_alert [OF inv lab]
    by (auto simp: Let_def split: if_splits list.splits)
qed (use inv in simp)

text \<open>
  No statement of the store breaks the database's invariant: IDs stay unique, alerts stay
  unique per incident and fingerprint and keep referring to an incident, states stay among the five
  of the schema, and JSON columns stay decodable; an update that would set another state fails.
\<close>

theorem UpdateIncidentState_inv:
  assumes "db_inv d" and "UpdateIncidentState i state e (n, d) = (r, (n', d'))"
  shows "db_inv d' \<and> (state \<notin> set valid_states \<longrightarrow> d' = d)"
proof
  show "db_inv d'"
    using assms(2) unfolding UpdateIncidentState_def
  proof (cases rule: round_trip_cases)
    case (ran d0)
    then show ?thesis
      using update_rows_inv [OF assms(1),
          of i "\<lambda>r. r\<lparr>row_State := state, row_UpdatedAt := pe_ts e (pe_now_pg e)\<rparr>" r d0]
        row_ok_frame [OF db_inv_row_ok [OF assms(1)]] by simp
  qed (use assms(1) in simp)
  show "state \<notin> set valid_states \<longrightarrow> d' = d"
    using assms(2) unfolding UpdateIncidentState_def
    by (cases rule: round_trip_cases) (auto simp: update_rows_def split: list.splits)
qed

theorem UpdateIncidentState_inv_witness:
  "db_inv (snd (snd (UpdateIncidentState ''i'' ''closed''
     \<lparr>pe_now = 1, pe_now_pg = 2, pe_fault = (\<lambda>n. None), pe_commit_applied = False,
      pe_scan = (\<lambda>rows. rows), pe_scan_alerts = (\<lambda>rows. rows), pe_ts = (\<lambda>t. t)\<rparr> (0, empty_db))))"
  (is "db_inv (snd (snd (?q)))")
proof -
  have "?q = (fst ?q, (fst (snd ?q), snd (snd ?q)))" by simp
  from UpdateIncidentState_inv [OF db_inv_empty this] show ?thesis by simp
qed

end
