(* ===== verification/Store.thy ===== *)
theory Store
  imports Domain
begin

text \<open>
  \<open>internal/store/store.go\<close>: the interface \<open>IncidentStore\<close> as a record of operations, the contract
  its clients rely on as a locale, and the in-memory implementation.

  An operation of a store takes the environment of the call (the readings of the clock, the order
  in which the runtime enumerates a map, the faults of a server), then the state. The in-memory
  store holds its RWMutex for the whole of each method, so each method is one atomic step. The
  copies \<open>cpy := *inc\<close> on the way in and out are the value semantics of the model.
\<close>

section \<open>The interface\<close>

record ('s, 'e) incident_store =
  st_GetByID :: "'e \<Rightarrow> 's \<Rightarrow> string \<Rightarrow> incident option result"
  st_Save :: "'e \<Rightarrow> 's \<Rightarrow> incident \<Rightarrow> unit result \<times> 's"
  st_FindOpenByCorrelationKey :: "'e \<Rightarrow> 's \<Rightarrow> string \<Rightarrow> duration \<Rightarrow> incident option result"
  st_List :: "'e \<Rightarrow> 's \<Rightarrow> incident list result"

definition fingerprints :: "incident \<Rightarrow> string set" where
  "fingerprints i = al_Fingerprint ` set (inc_Alerts i)"

definition persisted :: "(time \<Rightarrow> time) \<Rightarrow> incident \<Rightarrow> incident \<Rightarrow> bool" where
  \<comment> \<open>\<open>x\<close> is what a store with clock resolution \<open>rt\<close> may hold after \<open>inc\<close> was saved\<close>
  "persisted rt inc x \<longleftrightarrow>
     inc_ID x = inc_ID inc \<and> inc_Service x = inc_Service inc \<and> inc_Cluster x = inc_Cluster inc \<and>
     inc_Environment x = inc_Environment inc \<and> inc_Severity x = inc_Severity inc \<and>
     inc_CorrelationKey x = inc_CorrelationKey inc \<and> inc_State x = inc_State inc \<and>
     inc_TopologyContext x = inc_TopologyContext inc \<and>
     inc_LastAlertAt x = rt (inc_LastAlertAt inc) \<and>
     fingerprints inc \<subseteq> fingerprints x"

definition same_incident :: "incident \<Rightarrow> incident \<Rightarrow> bool" where
  \<comment> \<open>equal up to the order of the alerts\<close>
  "same_incident x y \<longleftrightarrow>
     mset (inc_Alerts x) = mset (inc_Alerts y) \<and> x\<lparr>inc_Alerts := []\<rparr> = y\<lparr>inc_Alerts := []\<rparr>"

lemma same_incident_refl [simp]: "same_incident x x"
  by (simp add: same_incident_def)

lemma rel_same_incident_refl [simp]: "rel_option same_incident r r"
  by (cases r) simp_all

lemma same_incident_fields:
  assumes "same_incident x y"
  shows "inc_ID x = inc_ID y" "inc_Service x = inc_Service y" "inc_Cluster x = inc_Cluster y"
    "inc_Environment x = inc_Environment y" "inc_Severity x = inc_Severity y"
    "inc_CorrelationKey x = inc_CorrelationKey y" "inc_CorrelationVersion x = inc_CorrelationVersion y"
    "inc_State x = inc_State y" "inc_CreatedAt x = inc_CreatedAt y"
    "inc_UpdatedAt x = inc_UpdatedAt y" "inc_FirstAlertAt x = inc_FirstAlertAt y"
    "inc_LastAlertAt x = inc_LastAlertAt y" "inc_TopologyContext x = inc_TopologyContext y"
    "set (inc_Alerts x) = set (inc_Alerts y)" "fingerprints x = fingerprints y"
proof -
  from assms have eq: "x\<lparr>inc_Alerts := []\<rparr> = y\<lparr>inc_Alerts := []\<rparr>" by (simp add: same_incident_def)
  note f = arg_cong [OF eq]
  show "inc_ID x = inc_ID y" using f [of inc_ID] by simp
  show "inc_Service x = inc_Service y" using f [of inc_Service] by simp
  show "inc_Cluster x = inc_Cluster y" using f [of inc_Cluster] by simp
  show "inc_Environment x = inc_Environment y" using f [of inc_Environment] by simp
  show "inc_Severity x = inc_Severity y" using f [of inc_Severity] by simp
  show "inc_CorrelationKey x = inc_CorrelationKey y" using f [of inc_CorrelationKey] by simp
  show "inc_CorrelationVersion x = inc_CorrelationVersion y" using f [of inc_CorrelationVersion] by simp
  show "inc_State x = inc_State y" using f [of inc_State] by simp
  show "inc_CreatedAt x = inc_CreatedAt y" using f [of inc_CreatedAt] by simp
  show "inc_UpdatedAt x = inc_UpdatedAt y" using f [of inc_UpdatedAt] by simp
  show "inc_FirstAlertAt x = inc_FirstAlertAt y" using f [of inc_FirstAlertAt] by simp
  show "inc_LastAlertAt x = inc_LastAlertAt y" using f [of inc_LastAlertAt] by simp
  show "inc_TopologyContext x = inc_TopologyContext y" using f [of inc_TopologyContext] by simp
  show "set (inc_Alerts x) = set (inc_Alerts y)"
    by (rule mset_permute_set) (use assms in \<open>simp add: same_incident_def\<close>)
  then show "fingerprints x = fingerprints y" by (simp add: fingerprints_def)
qed

lemma persisted_same:
  assumes "persisted rt inc x" and "same_incident y x"
  shows "persisted rt inc y"
  using assms(1) by (simp add: persisted_def same_incident_fields [OF assms(2)])

section \<open>The contract\<close>

text \<open>
  \<open>abs\<close> reads a state as a map from incident IDs; \<open>ok\<close> says which environments can occur;
  \<open>recent\<close> is the store's test of the correlation window.
\<close>

locale store_contract =
  fixes S :: "('s, 'e) incident_store"
    and abs :: "'s \<Rightarrow> string \<Rightarrow> incident option"
    and inv :: "'s \<Rightarrow> bool"
    and ok :: "'e \<Rightarrow> 's \<Rightarrow> bool"
    and rt :: "time \<Rightarrow> time"
    and recent :: "'e \<Rightarrow> duration \<Rightarrow> incident \<Rightarrow> bool"
  assumes abs_ID: "inv s \<Longrightarrow> abs s i = Some x \<Longrightarrow> inc_ID x = i"
    and get_reads: "inv s \<Longrightarrow> ok e s \<Longrightarrow> st_GetByID S e s i = Inr r
          \<Longrightarrow> rel_option same_incident r (abs s i)"
    and save_inv: "inv s \<Longrightarrow> ok e s \<Longrightarrow> st_Save S e s inc = (res, s') \<Longrightarrow> inv s'"
    and save_frame: "inv s \<Longrightarrow> ok e s \<Longrightarrow> st_Save S e s inc = (res, s') \<Longrightarrow> i \<noteq> inc_ID inc
          \<Longrightarrow> abs s' i = abs s i"
    and save_stores: "inv s \<Longrightarrow> ok e s \<Longrightarrow> st_Save S e s inc = (Inr u, s')
          \<Longrightarrow> \<exists>x. abs s' (inc_ID inc) = Some x \<and> persisted rt inc x"
    and save_atomic: "inv s \<Longrightarrow> ok e s \<Longrightarrow> st_Save S e s inc = (Inl m, s')
          \<Longrightarrow> abs s' = abs s \<or> (\<exists>x. abs s' (inc_ID inc) = Some x \<and> persisted rt inc x)"
    and find_sound: "inv s \<Longrightarrow> ok e s \<Longrightarrow> st_FindOpenByCorrelationKey S e s k w = Inr (Some x)
          \<Longrightarrow> (\<exists>y. abs s (inc_ID x) = Some y \<and> same_incident x y) \<and> inc_CorrelationKey x = k \<and>
              inc_State x \<noteq> IncidentStateResolved \<and> recent e w x"
    and find_complete: "inv s \<Longrightarrow> ok e s \<Longrightarrow> st_FindOpenByCorrelationKey S e s k w = Inr r
          \<Longrightarrow> abs s i = Some y \<Longrightarrow> inc_CorrelationKey y = k \<Longrightarrow> inc_State y \<noteq> IncidentStateResolved
          \<Longrightarrow> recent e w y \<Longrightarrow> \<exists>x. r = Some x \<and> inc_LastAlertAt y \<le> inc_LastAlertAt x"
    and list_all: "inv s \<Longrightarrow> ok e s \<Longrightarrow> st_List S e s = Inr xs
          \<Longrightarrow> distinct (map inc_ID xs) \<and>
              (\<forall>x \<in> set xs. \<exists>y. abs s (inc_ID x) = Some y \<and> same_incident x y) \<and>
              (\<forall>i. abs s i \<noteq> None \<longrightarrow> i \<in> inc_ID ` set xs)"
    and recent_last: "inc_LastAlertAt x = inc_LastAlertAt y \<Longrightarrow> recent e w x \<Longrightarrow> recent e w y"
begin

lemma find_None:
  "inv s \<Longrightarrow> ok e s \<Longrightarrow> st_FindOpenByCorrelationKey S e s k w = Inr None \<Longrightarrow> abs s i = Some y
     \<Longrightarrow> inc_CorrelationKey y = k \<Longrightarrow> inc_State y \<noteq> IncidentStateResolved \<Longrightarrow> \<not> recent e w y"
  using find_complete by blast

lemma get_after_save:
  assumes "inv s" "ok e s" "st_Save S e s inc = (Inr u, s')" "ok e' s'"
    and "st_GetByID S e' s' (inc_ID inc) = Inr r"
  shows "\<exists>x. r = Some x \<and> persisted rt inc x"
proof -
  from save_stores [OF assms(1-3)] obtain x where x: "abs s' (inc_ID inc) = Some x" "persisted rt inc x"
    by blast
  with get_reads [OF save_inv [OF assms(1-3)] assms(4,5)] obtain y
    where "r = Some y" "same_incident y x" by (auto simp: option_rel_Some2)
  then show ?thesis using persisted_same [OF x(2)] by blast
qed

lemma list_after_save:
  assumes "inv s" "ok e s" "st_Save S e s inc = (Inr u, s')" "ok e' s'" "st_List S e' s' = Inr xs"
  shows "\<exists>x \<in> set xs. persisted rt inc x"
proof -
  have inv': "inv s'" using save_inv [OF assms(1-3)] .
  from save_stores [OF assms(1-3)] obtain x where x: "abs s' (inc_ID inc) = Some x" "persisted rt inc x"
    by blast
  have l: "\<forall>y \<in> set xs. \<exists>z. abs s' (inc_ID y) = Some z \<and> same_incident y z"
    and m: "\<forall>i. abs s' i \<noteq> None \<longrightarrow> i \<in> inc_ID ` set xs"
    using list_all [OF inv' assms(4,5)] by blast+
  from m x(1) have "inc_ID inc \<in> inc_ID ` set xs" by simp
  then obtain y where y: "y \<in> set xs" "inc_ID y = inc_ID inc" by (metis imageE)
  with l obtain z where "abs s' (inc_ID y) = Some z" "same_incident y z" by blast
  with x y persisted_same [OF x(2), of y] show ?thesis by auto
qed

lemma save_keeps:
  assumes "inv s" "ok e s" "st_Save S e s inc = (r, s')" "abs s i = Some x"
  shows "\<exists>y. abs s' i = Some y"
proof (cases "i = inc_ID inc")
  case True
  show ?thesis
  proof (cases r)
    case (Inl m)
    with assms show ?thesis using save_atomic [of s e inc m s'] True by auto
  next
    case (Inr u)
    with assms show ?thesis using save_stores [of s e inc u s'] True by auto
  qed
qed (use assms save_frame in auto)

end

text \<open>
  A store with a clock: an incident that has fallen out of the window stays out of it until it is
  saved again.
\<close>

locale clocked_store = store_contract S abs inv ok rt recent
  for S :: "('s, 'e) incident_store" and abs :: "'s \<Rightarrow> string \<Rightarrow> incident option"
    and inv :: "'s \<Rightarrow> bool" and ok :: "'e \<Rightarrow> 's \<Rightarrow> bool" and rt :: "time \<Rightarrow> time"
    and recent :: "'e \<Rightarrow> duration \<Rightarrow> incident \<Rightarrow> bool" +
  fixes clk :: "'e \<Rightarrow> time"
  assumes recent_antimono: "ok e s \<Longrightarrow> ok e' s' \<Longrightarrow> clk e \<le> clk e' \<Longrightarrow> recent e' w x \<Longrightarrow> recent e w x"

section \<open>The in-memory store\<close>

record mem_store =
  ms_incidents :: "string \<Rightarrow> incident option"

record mem_env =
  me_now :: time
  me_keys :: "string list"

definition NewInMemoryIncidentStore :: mem_store where
  "NewInMemoryIncidentStore = \<lparr>ms_incidents = Map.empty\<rparr>"

definition mem_GetByID :: "mem_env \<Rightarrow> mem_store \<Rightarrow> string \<Rightarrow> incident option result" where
  "mem_GetByID e s i = (case ms_incidents s i of None \<Rightarrow> Inr None | Some inc \<Rightarrow> Inr (Some inc))"

definition mem_Save :: "mem_env \<Rightarrow> mem_store \<Rightarrow> incident \<Rightarrow> unit result \<times> mem_store" where
  "mem_Save e s inc = (Inr (), s\<lparr>ms_incidents := (ms_incidents s)(inc_ID inc \<mapsto> inc)\<rparr>)"

fun mem_find_loop ::
    "string \<Rightarrow> duration \<Rightarrow> time \<Rightarrow> mem_store \<Rightarrow> string list \<Rightarrow> incident option \<Rightarrow> incident option" where
  "mem_find_loop key window now s [] candidate = candidate"
| "mem_find_loop key window now s (i # is) candidate =
     (case ms_incidents s i of
        None \<Rightarrow> mem_find_loop key window now s is candidate
      | Some inc \<Rightarrow>
          if inc_CorrelationKey inc \<noteq> key then mem_find_loop key window now s is candidate
          else if inc_State inc = IncidentStateResolved then mem_find_loop key window now s is candidate
          else if time_sub now (inc_LastAlertAt inc) > window
            then mem_find_loop key window now s is candidate
          else mem_find_loop key window now s is
            (case candidate of
               None \<Rightarrow> Some inc
             | Some c \<Rightarrow> if inc_LastAlertAt inc > inc_LastAlertAt c then Some inc else candidate))"

definition mem_FindOpenByCorrelationKey ::
    "mem_env \<Rightarrow> mem_store \<Rightarrow> string \<Rightarrow> duration \<Rightarrow> incident option result" where
  "mem_FindOpenByCorrelationKey e s key window =
     Inr (mem_find_loop key window (me_now e) s (me_keys e) None)"

definition mem_List :: "mem_env \<Rightarrow> mem_store \<Rightarrow> incident list result" where
  "mem_List e s = Inr (List.map_filter (ms_incidents s) (me_keys e))"

definition mem_incident_store :: "(mem_store, mem_env) incident_store" where
  "mem_incident_store =
     \<lparr>st_GetByID = mem_GetByID, st_Save = mem_Save,
      st_FindOpenByCorrelationKey = mem_FindOpenByCorrelationKey, st_List = mem_List\<rparr>"

definition mem_inv :: "mem_store \<Rightarrow> bool" where
  "mem_inv s \<longleftrightarrow> (\<forall>i x. ms_incidents s i = Some x \<longrightarrow> inc_ID x = i)"

definition mem_ok :: "mem_env \<Rightarrow> mem_store \<Rightarrow> bool" where
  "mem_ok e s \<longleftrightarrow> enumerates (me_keys e) (ms_incidents s)"

definition mem_recent :: "mem_env \<Rightarrow> duration \<Rightarrow> incident \<Rightarrow> bool" where
  "mem_recent e w x \<longleftrightarrow> time_sub (me_now e) (inc_LastAlertAt x) \<le> w"

definition mem_eligible :: "string \<Rightarrow> duration \<Rightarrow> time \<Rightarrow> incident \<Rightarrow> bool" where
  "mem_eligible key window now x \<longleftrightarrow>
     inc_CorrelationKey x = key \<and> inc_State x \<noteq> IncidentStateResolved \<and>
     time_sub now (inc_LastAlertAt x) \<le> window"

lemma mem_incident_store_sel [simp]:
  "st_GetByID mem_incident_store = mem_GetByID"
  "st_Save mem_incident_store = mem_Save"
  "st_FindOpenByCorrelationKey mem_incident_store = mem_FindOpenByCorrelationKey"
  "st_List mem_incident_store = mem_List"
  by (simp_all add: mem_incident_store_def)

lemma mem_inv_new [simp]: "mem_inv NewInMemoryIncidentStore"
  by (simp add: mem_inv_def NewInMemoryIncidentStore_def)

text \<open>
  The loop of the search, against its specification: the result is one of the enumerated eligible
  incidents or the starting candidate, and no enumerated eligible incident is later.
\<close>

lemma mem_find_loop_sound:
  "mem_find_loop key w now s ks c = Some x \<Longrightarrow>
     c = Some x \<or> (\<exists>k \<in> set ks. ms_incidents s k = Some x \<and> mem_eligible key w now x)"
proof (induction ks arbitrary: c)
  case (Cons k ks)
  show ?case
  proof (cases "ms_incidents s k")
    case None
    with Cons show ?thesis by auto
  next
    case (Some inc)
    show ?thesis
    proof (cases "mem_eligible key w now inc")
      case True
      let ?c = "case c of None \<Rightarrow> Some inc
        | Some d \<Rightarrow> if inc_LastAlertAt inc > inc_LastAlertAt d then Some inc else c"
      from Cons.prems Some True have "mem_find_loop key w now s ks ?c = Some x"
        by (simp add: mem_eligible_def)
      from Cons.IH [OF this] Some True show ?thesis
        by (auto split: option.splits if_splits)
    next
      case False
      with Cons.prems Some have "mem_find_loop key w now s ks c = Some x"
        by (auto simp: mem_eligible_def not_le split: if_splits)
      from Cons.IH [OF this] show ?thesis by auto
    qed
  qed
qed simp

lemma mem_find_loop_latest:
  "(\<exists>k \<in> set ks. ms_incidents s k = Some y \<and> mem_eligible key w now y) \<or> c = Some y \<Longrightarrow>
     \<exists>x. mem_find_loop key w now s ks c = Some x \<and> inc_LastAlertAt y \<le> inc_LastAlertAt x"
proof (induction ks arbitrary: c y)
  case (Cons k ks)
  show ?case
  proof (cases "\<exists>inc. ms_incidents s k = Some inc \<and> mem_eligible key w now inc")
    case True
    then obtain inc where inc: "ms_incidents s k = Some inc" "mem_eligible key w now inc" by blast
    let ?c = "case c of None \<Rightarrow> Some inc
      | Some d \<Rightarrow> if inc_LastAlertAt inc > inc_LastAlertAt d then Some inc else c"
    have eq: "mem_find_loop key w now s (k # ks) c = mem_find_loop key w now s ks ?c"
      using inc by (simp add: mem_eligible_def)
    show ?thesis
    proof (cases "\<exists>k' \<in> set ks. ms_incidents s k' = Some y \<and> mem_eligible key w now y")
      case True
      then show ?thesis unfolding eq using Cons.IH by blast
    next
      case False
      with Cons.prems inc have "c = Some y \<or> y = inc" by auto
      then have "\<exists>d. ?c = Some d \<and> inc_LastAlertAt y \<le> inc_LastAlertAt d"
        by (cases c) auto
      then obtain d where d: "?c = Some d" "inc_LastAlertAt y \<le> inc_LastAlertAt d" by blast
      with Cons.IH [of d "Some d"] show ?thesis unfolding eq by force
    qed
  next
    case False
    then have "mem_find_loop key w now s (k # ks) c = mem_find_loop key w now s ks c"
      by (auto simp: mem_eligible_def split: option.split)
    moreover have "(\<exists>k' \<in> set ks. ms_incidents s k' = Some y \<and> mem_eligible key w now y) \<or> c = Some y"
      using Cons.prems False by auto
    ultimately show ?thesis using Cons.IH by simp
  qed
qed simp

interpretation mem: store_contract mem_incident_store ms_incidents mem_inv mem_ok "\<lambda>t. t" mem_recent
proof unfold_locales
  fix s e i x
  assume "mem_inv s" "ms_incidents s i = Some x"
  then show "inc_ID x = i" by (simp add: mem_inv_def)
next
  fix s e i r
  assume "st_GetByID mem_incident_store e s i = Inr r"
  then show "rel_option same_incident r (ms_incidents s i)"
    by (cases "ms_incidents s i") (simp_all add: mem_GetByID_def)
next
  fix s e inc s' and r :: "unit result"
  assume "mem_inv s" "st_Save mem_incident_store e s inc = (r, s')"
  then show "mem_inv s'" by (auto simp: mem_Save_def mem_inv_def split: if_splits)
next
  fix s e inc s' i and r :: "unit result"
  assume "st_Save mem_incident_store e s inc = (r, s')" "i \<noteq> inc_ID inc"
  then show "ms_incidents s' i = ms_incidents s i" by (auto simp: mem_Save_def)
next
  fix s e inc s' and u :: unit
  assume "st_Save mem_incident_store e s inc = (Inr u, s')"
  then show "\<exists>x. ms_incidents s' (inc_ID inc) = Some x \<and> persisted (\<lambda>t. t) inc x"
    by (auto simp: mem_Save_def persisted_def)
next
  fix s e inc s' m
  assume "st_Save mem_incident_store e s inc = (Inl m, s')"
  then show "ms_incidents s' = ms_incidents s \<or>
      (\<exists>x. ms_incidents s' (inc_ID inc) = Some x \<and> persisted (\<lambda>t. t) inc x)"
    by (simp add: mem_Save_def)
next
  fix s e k w x
  assume inv: "mem_inv s" and "st_FindOpenByCorrelationKey mem_incident_store e s k w = Inr (Some x)"
  then obtain i where "ms_incidents s i = Some x" "mem_eligible k w (me_now e) x"
    by (auto simp: mem_FindOpenByCorrelationKey_def dest: mem_find_loop_sound)
  with inv show "(\<exists>y. ms_incidents s (inc_ID x) = Some y \<and> same_incident x y) \<and>
      inc_CorrelationKey x = k \<and> inc_State x \<noteq> IncidentStateResolved \<and> mem_recent e w x"
    by (auto simp: mem_inv_def mem_eligible_def mem_recent_def)
next
  fix s e k w r i y
  assume ok: "mem_ok e s" and f: "st_FindOpenByCorrelationKey mem_incident_store e s k w = Inr r"
    and y: "ms_incidents s i = Some y" "inc_CorrelationKey y = k"
      "inc_State y \<noteq> IncidentStateResolved" "mem_recent e w y"
  have "i \<in> set (me_keys e)" using ok y(1) by (auto simp: mem_ok_def enumerates_def)
  with y have "\<exists>i \<in> set (me_keys e). ms_incidents s i = Some y \<and> mem_eligible k w (me_now e) y"
    by (auto simp: mem_eligible_def mem_recent_def)
  with f mem_find_loop_latest [of "me_keys e" s y k w "me_now e" None]
  show "\<exists>x. r = Some x \<and> inc_LastAlertAt y \<le> inc_LastAlertAt x"
    by (auto simp: mem_FindOpenByCorrelationKey_def)
next
  fix s e xs
  assume inv: "mem_inv s" and ok: "mem_ok e s" and l: "st_List mem_incident_store e s = Inr xs"
  then have xs: "xs = List.map_filter (ms_incidents s) (me_keys e)" by (simp add: mem_List_def)
  have set: "set xs = {x. \<exists>i \<in> set (me_keys e). ms_incidents s i = Some x}"
    unfolding xs by (rule set_map_filter_ex)
  have "map inc_ID (List.map_filter (ms_incidents s) ks) = filter (\<lambda>i. ms_incidents s i \<noteq> None) ks" for ks
    using inv by (induction ks) (auto simp: map_filter_simps mem_inv_def split: option.splits)
  with ok have "distinct (map inc_ID xs)" by (simp add: xs mem_ok_def enumerates_def)
  moreover have "x \<in> set xs \<longleftrightarrow> ms_incidents s (inc_ID x) = Some x" for x
    using inv ok by (auto simp: set mem_inv_def mem_ok_def enumerates_def)
  moreover have "i \<in> inc_ID ` set xs" if "ms_incidents s i \<noteq> None" for i
    using that inv ok by (force simp: set mem_inv_def mem_ok_def enumerates_def)
  ultimately show "distinct (map inc_ID xs) \<and>
      (\<forall>x \<in> set xs. \<exists>y. ms_incidents s (inc_ID x) = Some y \<and> same_incident x y) \<and>
      (\<forall>i. ms_incidents s i \<noteq> None \<longrightarrow> i \<in> inc_ID ` set xs)"
    by auto
qed (simp add: mem_recent_def)

interpretation mem_clk: clocked_store mem_incident_store ms_incidents mem_inv mem_ok "\<lambda>t. t" mem_recent me_now
proof unfold_locales
  fix e e' :: mem_env and w x
  assume "me_now e \<le> me_now e'" "mem_recent e' w x"
  then show "mem_recent e w x" by (auto simp: mem_recent_def time_sub_def sat64_def)
qed

definition demo_incident :: "string \<Rightarrow> time \<Rightarrow> incident" where
  "demo_incident i t =
     \<lparr>inc_ID = i, inc_Service = ''web'', inc_Cluster = ''c'', inc_Environment = ''prod'',
      inc_Severity = ''low'', inc_Alerts = [], inc_CorrelationKey = ''k'',
      inc_CorrelationVersion = 1, inc_State = IncidentStateOpen, inc_CreatedAt = t,
      inc_UpdatedAt = t, inc_FirstAlertAt = t, inc_LastAlertAt = t, inc_TopologyContext = None\<rparr>"

lemma mem_find_char:
  assumes inv: "mem_inv s" and ok: "mem_ok e s"
    and r: "mem_FindOpenByCorrelationKey e s key window = Inr r"
  shows "case r of
      None \<Rightarrow> \<forall>i y. ms_incidents s i = Some y \<longrightarrow> \<not> mem_eligible key window (me_now e) y
    | Some x \<Rightarrow> ms_incidents s (inc_ID x) = Some x \<and> mem_eligible key window (me_now e) x \<and>
        (\<forall>i y. ms_incidents s i = Some y \<longrightarrow> mem_eligible key window (me_now e) y \<longrightarrow>
           inc_LastAlertAt y \<le> inc_LastAlertAt x)"
proof (cases r)
  case None
  with r mem.find_None [OF inv ok, of key window] show ?thesis
    by (auto simp: mem_eligible_def mem_recent_def)
next
  case (Some x)
  with r inv have "ms_incidents s (inc_ID x) = Some x" "mem_eligible key window (me_now e) x"
    by (auto simp: mem_FindOpenByCorrelationKey_def mem_inv_def dest!: mem_find_loop_sound)
  with Some r mem.find_complete [OF inv ok, of key window "Some x"]
  show ?thesis by (auto simp: mem_eligible_def mem_recent_def)
qed

text \<open>
  C33: what the in-memory search returns. Whatever order the runtime ranges over the map in, the
  search gives nil exactly when no unresolved incident with the key lies inside the window, and
  otherwise such an incident with no later one beside it.
\<close>

theorem mem_find_spec:
  assumes inv: "mem_inv s" and ok: "mem_ok e s"
    and r: "mem_FindOpenByCorrelationKey e s key window = Inr r"
  shows "case r of
      None \<Rightarrow> \<forall>i y. ms_incidents s i = Some y \<longrightarrow> \<not> mem_eligible key window (me_now e) y
    | Some x \<Rightarrow> ms_incidents s (inc_ID x) = Some x \<and> mem_eligible key window (me_now e) x \<and>
        (\<forall>i y. ms_incidents s i = Some y \<longrightarrow> mem_eligible key window (me_now e) y \<longrightarrow>
           inc_LastAlertAt y \<le> inc_LastAlertAt x)"
  by (rule mem_find_char [OF inv ok r])

theorem mem_find_spec_witness:
  "mem_eligible ''k'' 5 7 (demo_incident ''i'' 3) \<and>
   mem_FindOpenByCorrelationKey \<lparr>me_now = 7, me_keys = [''i'']\<rparr>
     \<lparr>ms_incidents = [''i'' \<mapsto> demo_incident ''i'' 3]\<rparr> ''k'' 5 = Inr (Some (demo_incident ''i'' 3))"
proof -
  let ?e = "\<lparr>me_now = 7, me_keys = [''i'']\<rparr>" and ?s = "\<lparr>ms_incidents = [''i'' \<mapsto> demo_incident ''i'' 3]\<rparr>"
  have inv: "mem_inv ?s" and ok: "mem_ok ?e ?s"
    by (auto simp: mem_inv_def mem_ok_def enumerates_def demo_incident_def split: if_splits)
  have r: "mem_FindOpenByCorrelationKey ?e ?s ''k'' 5 = Inr (Some (demo_incident ''i'' 3))"
    by (simp add: mem_FindOpenByCorrelationKey_def demo_incident_def incident_state_defs
        time_sub_def sat64_def min_int64_def max_int64_def)
  from mem_find_spec [OF inv ok r] r show ?thesis by simp
qed

text \<open>
  The search is deterministic despite the random map order: if no two eligible incidents have
  the same last-alert time, any two enumerations of the map give the same result.
\<close>

theorem mem_find_order_independent:
  assumes inv: "mem_inv s" and ok: "mem_ok e s" "mem_ok e' s" and now: "me_now e = me_now e'"
    and distinct_times: "\<forall>i j y z. ms_incidents s i = Some y \<longrightarrow> ms_incidents s j = Some z \<longrightarrow>
      mem_eligible key window (me_now e) y \<longrightarrow> mem_eligible key window (me_now e) z \<longrightarrow>
      inc_LastAlertAt y = inc_LastAlertAt z \<longrightarrow> y = z"
  shows "mem_FindOpenByCorrelationKey e s key window = mem_FindOpenByCorrelationKey e' s key window"
proof -
  have "\<exists>r. mem_FindOpenByCorrelationKey e s key window = Inr r \<and>
      mem_FindOpenByCorrelationKey e' s key window = Inr r"
  proof -
    obtain r where r: "mem_FindOpenByCorrelationKey e s key window = Inr r"
      by (simp add: mem_FindOpenByCorrelationKey_def)
    obtain r' where r': "mem_FindOpenByCorrelationKey e' s key window = Inr r'"
      by (simp add: mem_FindOpenByCorrelationKey_def)
    have "r = r'"
    proof (cases r)
      case None
      with r r' now mem_find_char [OF inv ok(1), of key window r]
        mem_find_char [OF inv ok(2), of key window r']
      show ?thesis by (cases r') auto
    next
      case (Some x)
      with r have x: "ms_incidents s (inc_ID x) = Some x" "mem_eligible key window (me_now e) x"
        using mem_find_char [OF inv ok(1), of key window r] by auto
      then obtain z where z: "r' = Some z" "inc_LastAlertAt x \<le> inc_LastAlertAt z"
        using mem.find_complete [OF inv ok(2), of key window r' "inc_ID x" x] r' now
        by (auto simp: mem_eligible_def mem_recent_def)
      with r' now have z': "ms_incidents s (inc_ID z) = Some z" "mem_eligible key window (me_now e) z"
        using mem_find_char [OF inv ok(2), of key window r'] by auto
      with Some r have "inc_LastAlertAt z \<le> inc_LastAlertAt x"
        using mem.find_complete [OF inv ok(1), of key window r "inc_ID z" z]
        by (auto simp: mem_eligible_def mem_recent_def)
      with z distinct_times x z' Some show ?thesis by (metis antisym)
    qed
    with r r' show ?thesis by blast
  qed
  then show ?thesis by force
qed

theorem mem_find_order_independent_witness:
  "mem_FindOpenByCorrelationKey \<lparr>me_now = 0, me_keys = [''i'', ''j'']\<rparr>
     \<lparr>ms_incidents = [''i'' \<mapsto> demo_incident ''i'' 3, ''j'' \<mapsto> demo_incident ''j'' 4]\<rparr> ''k'' 5 =
   mem_FindOpenByCorrelationKey \<lparr>me_now = 0, me_keys = [''j'', ''i'']\<rparr>
     \<lparr>ms_incidents = [''i'' \<mapsto> demo_incident ''i'' 3, ''j'' \<mapsto> demo_incident ''j'' 4]\<rparr> ''k'' 5"
  by (rule mem_find_order_independent)
    (auto simp: mem_inv_def mem_ok_def enumerates_def demo_incident_def split: if_splits)

end
