(* ===== verification/Store_Postgres.thy ===== *)
theory Store_Postgres
  imports Pg_Queries Store
begin

text \<open>
  \<open>internal/store/postgres.go\<close>: the store on PostgreSQL, over the queries of \<open>Pg_Queries\<close>, and the
  proof that it keeps the contract of \<open>Store\<close> whatever round trips fail.

  A transaction works on the database itself and the deferred rollback puts the tables back (but not
  the sequence of alert IDs); a failed COMMIT may or may not have taken effect. Each method is one
  step: the statements of a transaction are not interleaved with those of another connection.
\<close>

section \<open>Rows to incidents\<close>

definition arow_alert :: "alert_row \<Rightarrow> alert result" where
  "arow_alert a =
     (case dec_labels (arow_Labels a) of
        None \<Rightarrow> Inl (wrap_err ''failed to unmarshal labels'' json_error)
      | Some labels \<Rightarrow>
          (case dec_labels (arow_Annotations a) of
             None \<Rightarrow> Inl (wrap_err ''failed to unmarshal annotations'' json_error)
           | Some annotations \<Rightarrow>
               Inr \<lparr>al_Fingerprint = arow_Fingerprint a, al_Labels = labels,
                    al_Annotations = annotations, al_StartsAt = arow_StartsAt a,
                    al_EndsAt = arow_EndsAt a\<rparr>))"

fun arow_alerts :: "alert_row list \<Rightarrow> alert list result" where
  "arow_alerts [] = Inr []"
| "arow_alerts (a # rows) =
     (case arow_alert a of
        Inl err \<Rightarrow> Inl err
      | Inr x \<Rightarrow> (case arow_alerts rows of Inl err \<Rightarrow> Inl err | Inr xs \<Rightarrow> Inr (x # xs)))"

definition rowToIncident :: "incident_row \<Rightarrow> alert_row list \<Rightarrow> incident result" where
  "rowToIncident row alertRows =
     (case (case row_TopologySnapshot row of
              None \<Rightarrow> Some None
            | Some j \<Rightarrow> dec_ptr dec_topology_slice j) of
        None \<Rightarrow> Inl (wrap_err ''failed to unmarshal topology'' json_error)
      | Some topology \<Rightarrow>
          (case arow_alerts alertRows of
             Inl err \<Rightarrow> Inl err
           | Inr alerts \<Rightarrow>
               Inr \<lparr>inc_ID = row_ID row, inc_Service = row_Service row,
                    inc_Cluster = row_Cluster row, inc_Environment = row_Environment row,
                    inc_Severity = row_Severity row, inc_Alerts = alerts,
                    inc_CorrelationKey = row_CorrelationKey row,
                    inc_CorrelationVersion = row_CorrelationVersion row,
                    inc_State = row_State row, inc_CreatedAt = row_CreatedAt row,
                    inc_UpdatedAt = row_UpdatedAt row, inc_FirstAlertAt = row_FirstAlertAt row,
                    inc_LastAlertAt = row_LastAlertAt row, inc_TopologyContext = topology\<rparr>))"

section \<open>The methods\<close>

definition pg_GetByID :: "pg_env \<Rightarrow> db \<Rightarrow> string \<Rightarrow> incident option result" where
  "pg_GetByID e d i =
     (case GetIncidentByID i e (0, d) of
        (Inl ErrNoRows, _) \<Rightarrow> Inr None
      | (Inl err, _) \<Rightarrow> Inl (wrap_err ''failed to get incident'' (pg_err_text err))
      | (Inr row, c) \<Rightarrow>
          (case GetAlertsByIncidentID i e c of
             (Inl err, _) \<Rightarrow> Inl (wrap_err ''failed to get alerts for incident'' (pg_err_text err))
           | (Inr alerts, _) \<Rightarrow> map_sum id Some (rowToIncident row alerts)))"

definition tx_begin :: "unit query" where
  "tx_begin = round_trip (\<lambda>e d. (Inr (), d))"

definition tx_rollback :: "db \<Rightarrow> db \<Rightarrow> db" where
  \<comment> \<open>back from \<open>d'\<close> to the tables of \<open>d\<close>\<close>
  "tx_rollback d d' = d\<lparr>db_next_alert_id := db_next_alert_id d'\<rparr>"

definition tx_commit :: "db \<Rightarrow> pg_env \<Rightarrow> conn \<Rightarrow> (pg_error + unit) \<times> db" where
  "tx_commit d e c =
     (case pe_fault e (fst c) of
        None \<Rightarrow> (Inr (), snd c)
      | Some m \<Rightarrow> (Inl (PgError m), if pe_commit_applied e then snd c else tx_rollback d (snd c)))"

definition alert_params :: "string \<Rightarrow> alert \<Rightarrow> create_alert_params" where
  "alert_params i a =
     \<lparr>ca_IncidentID = i, ca_Fingerprint = al_Fingerprint a, ca_Labels = enc_labels (al_Labels a),
      ca_Annotations = enc_labels (al_Annotations a), ca_StartsAt = al_StartsAt a,
      ca_EndsAt = al_EndsAt a\<rparr>"

fun save_alerts :: "string \<Rightarrow> alert list \<Rightarrow> pg_env \<Rightarrow> conn \<Rightarrow> unit result \<times> conn" where
  "save_alerts i [] e c = (Inr (), c)"
| "save_alerts i (a # as) e c =
     (case CreateAlert (alert_params i a) e c of
        (Inl err, c) \<Rightarrow> (Inl (wrap_err ''failed to save alert'' (pg_err_text err)), c)
      | (Inr _, c) \<Rightarrow> save_alerts i as e c)"

definition topologyJSON :: "incident \<Rightarrow> json option" where
  "topologyJSON inc = map_option enc_topology_slice (inc_TopologyContext inc)"

definition create_params :: "incident \<Rightarrow> incident_row" where
  "create_params inc =
     \<lparr>row_ID = inc_ID inc, row_Service = inc_Service inc, row_Cluster = inc_Cluster inc,
      row_Environment = inc_Environment inc, row_Severity = inc_Severity inc,
      row_CorrelationKey = inc_CorrelationKey inc,
      row_CorrelationVersion = wrap32 (inc_CorrelationVersion inc), row_State = inc_State inc,
      row_CreatedAt = inc_CreatedAt inc, row_UpdatedAt = inc_UpdatedAt inc,
      row_FirstAlertAt = inc_FirstAlertAt inc, row_LastAlertAt = inc_LastAlertAt inc,
      row_TopologySnapshot = topologyJSON inc, row_RemediationAttempts = 0,
      row_GithubPrUrl = None, row_RcaSummary = None\<rparr>"

definition update_params :: "pg_env \<Rightarrow> incident_row \<Rightarrow> incident \<Rightarrow> update_incident_params" where
  "update_params e existing inc =
     \<lparr>up_ID = inc_ID inc, up_Service = inc_Service inc, up_Cluster = inc_Cluster inc,
      up_Environment = inc_Environment inc, up_Severity = inc_Severity inc,
      up_CorrelationKey = inc_CorrelationKey inc,
      up_CorrelationVersion = wrap32 (inc_CorrelationVersion inc), up_State = inc_State inc,
      up_UpdatedAt = pe_now e, up_FirstAlertAt = inc_FirstAlertAt inc,
      up_LastAlertAt = inc_LastAlertAt inc, up_TopologySnapshot = topologyJSON inc,
      up_RemediationAttempts = row_RemediationAttempts existing,
      up_GithubPrUrl = row_GithubPrUrl existing, up_RcaSummary = row_RcaSummary existing\<rparr>"

definition save_row :: "incident \<Rightarrow> pg_env \<Rightarrow> conn \<Rightarrow> unit result \<times> conn" where
  \<comment> \<open>the existence check and the insert or update of the incident's row\<close>
  "save_row inc e c =
     (case GetIncidentByID (inc_ID inc) e c of
        (Inl ErrNoRows, c) \<Rightarrow>
          (case CreateIncident (create_params inc) e c of
             (Inl err, c) \<Rightarrow> (Inl (wrap_err ''failed to create incident'' (pg_err_text err)), c)
           | (Inr _, c) \<Rightarrow> (Inr (), c))
      | (Inl err, c) \<Rightarrow> (Inl (wrap_err ''failed to check existing incident'' (pg_err_text err)), c)
      | (Inr existing, c) \<Rightarrow>
          (case UpdateIncident (update_params e existing inc) e c of
             (Inl err, c) \<Rightarrow> (Inl (wrap_err ''failed to update incident'' (pg_err_text err)), c)
           | (Inr _, c) \<Rightarrow> (Inr (), c)))"

definition pg_Save :: "pg_env \<Rightarrow> db \<Rightarrow> incident \<Rightarrow> unit result \<times> db" where
  "pg_Save e d inc =
     (case tx_begin e (0, d) of
        (Inl err, _) \<Rightarrow> (Inl (wrap_err ''failed to begin transaction'' (pg_err_text err)), d)
      | (Inr _, c) \<Rightarrow>
          (case save_row inc e c of
             (Inl err, c) \<Rightarrow> (Inl err, tx_rollback d (snd c))
           | (Inr _, c) \<Rightarrow>
               (case save_alerts (inc_ID inc) (inc_Alerts inc) e c of
                  (Inl err, c) \<Rightarrow> (Inl err, tx_rollback d (snd c))
                | (Inr _, c) \<Rightarrow>
                    (case tx_commit d e c of
                       (Inl err, d') \<Rightarrow>
                         (Inl (wrap_err ''failed to commit transaction'' (pg_err_text err)), d')
                     | (Inr _, d') \<Rightarrow> (Inr (), d')))))"

definition pg_FindOpenByCorrelationKey ::
    "pg_env \<Rightarrow> db \<Rightarrow> string \<Rightarrow> duration \<Rightarrow> incident option result" where
  "pg_FindOpenByCorrelationKey e d key window =
     (let cutoff = time_add (pe_now e) (duration_neg window) in
      case FindOpenByCorrelationKey key cutoff e (0, d) of
        (Inl ErrNoRows, _) \<Rightarrow> Inr None
      | (Inl err, _) \<Rightarrow> Inl (wrap_err ''failed to find open incident'' (pg_err_text err))
      | (Inr row, c) \<Rightarrow>
          (case GetAlertsByIncidentID (row_ID row) e c of
             (Inl err, _) \<Rightarrow> Inl (wrap_err ''failed to get alerts'' (pg_err_text err))
           | (Inr alerts, _) \<Rightarrow> map_sum id Some (rowToIncident row alerts)))"

fun list_rows :: "incident_row list \<Rightarrow> pg_env \<Rightarrow> conn \<Rightarrow> incident list result" where
  "list_rows [] e c = Inr []"
| "list_rows (row # rows) e c =
     (case GetAlertsByIncidentID (row_ID row) e c of
        (Inl err, _) \<Rightarrow>
          Inl (wrap_err (''failed to get alerts for incident '' @ row_ID row) (pg_err_text err))
      | (Inr alerts, c) \<Rightarrow>
          (case rowToIncident row alerts of
             Inl err \<Rightarrow> Inl err
           | Inr inc \<Rightarrow> (case list_rows rows e c of Inl err \<Rightarrow> Inl err | Inr incs \<Rightarrow> Inr (inc # incs))))"

definition pg_List :: "pg_env \<Rightarrow> db \<Rightarrow> incident list result" where
  "pg_List e d =
     (case ListIncidents e (0, d) of
        (Inl err, _) \<Rightarrow> Inl (wrap_err ''failed to list incidents'' (pg_err_text err))
      | (Inr rows, c) \<Rightarrow> list_rows rows e c)"

definition pg_Health :: "pg_env \<Rightarrow> db \<Rightarrow> unit result" where
  "pg_Health e d = map_sum pg_err_text id (fst (round_trip (\<lambda>e d. (Inr (), d)) e (0, d)))"

definition pg_incident_store :: "(db, pg_env) incident_store" where
  "pg_incident_store =
     \<lparr>st_GetByID = pg_GetByID, st_Save = pg_Save,
      st_FindOpenByCorrelationKey = pg_FindOpenByCorrelationKey, st_List = pg_List\<rparr>"

lemma pg_incident_store_simps [simp]:
  "st_GetByID pg_incident_store = pg_GetByID"
  "st_Save pg_incident_store = pg_Save"
  "st_FindOpenByCorrelationKey pg_incident_store = pg_FindOpenByCorrelationKey"
  "st_List pg_incident_store = pg_List"
  by (simp_all add: pg_incident_store_def)

section \<open>What the statements of a save do to the tables\<close>

definition find_row :: "db \<Rightarrow> string \<Rightarrow> incident_row option" where
  "find_row d i = List.find (\<lambda>r. row_ID r = i) (db_incidents d)"

definition alerts_of :: "db \<Rightarrow> string \<Rightarrow> alert_row list" where
  "alerts_of d i = filter (\<lambda>a. arow_IncidentID a = i) (db_alerts d)"

definition alert_at :: "db \<Rightarrow> string \<Rightarrow> string \<Rightarrow> (json \<times> json \<times> time \<times> time option) option" where
  \<comment> \<open>what the table holds for the alert of an incident with a fingerprint\<close>
  "alert_at d i fp = map_option (\<lambda>r. (arow_Labels r, arow_Annotations r, arow_StartsAt r, arow_EndsAt r))
     (List.find (\<lambda>r. alert_key r = (i, fp)) (db_alerts d))"

definition alert_columns :: "(time \<Rightarrow> time) \<Rightarrow> alert \<Rightarrow> json \<times> json \<times> time \<times> time option" where
  "alert_columns rt a =
     (enc_labels (al_Labels a), enc_labels (al_Annotations a), rt (al_StartsAt a),
      map_option rt (al_EndsAt a))"

lemma one_row_filter:
  "one_row (filter P rows) = (case List.find P rows of None \<Rightarrow> Inl ErrNoRows | Some r \<Rightarrow> Inr r)"
  by (induction rows) (simp_all add: one_row_def)

lemma find_rowD: "find_row d i = Some r \<Longrightarrow> r \<in> set (db_incidents d) \<and> row_ID r = i"
  by (auto simp: find_row_def find_Some_iff)

lemma find_row_None: "find_row d i = None \<longleftrightarrow> i \<notin> set (db_ids d)"
  by (auto simp: find_row_def find_None_iff db_ids_def)

lemma find_row_in:
  "db_inv d \<Longrightarrow> r \<in> set (db_incidents d) \<Longrightarrow> find_row d (row_ID r) = Some r"
proof -
  assume inv: "db_inv d" and r: "r \<in> set (db_incidents d)"
  then have "find_row d (row_ID r) \<noteq> None" by (simp add: find_row_None db_ids_def)
  then obtain r' where r': "find_row d (row_ID r) = Some r'" by blast
  from find_rowD [OF this] r inv have "r' = r"
    by (auto simp: db_inv_def db_ids_def intro: row_unique)
  with r' show ?thesis by simp
qed

lemma GetIncidentByID_result:
  assumes "GetIncidentByID i e c = (r, c')"
  shows "snd c' = snd c"
    "(\<exists>m. r = Inl (PgError m)) \<or> r = (case find_row (snd c) i of None \<Rightarrow> Inl ErrNoRows | Some row \<Rightarrow> Inr row)"
  using assms unfolding GetIncidentByID_def
  by (auto elim!: round_trip_cases simp: one_row_filter find_row_def)

lemma GetAlertsByIncidentID_result:
  assumes "GetAlertsByIncidentID i e c = (Inr as, c')" and "\<And>rows. mset (pe_scan_alerts e rows) = mset rows"
  shows "snd c' = snd c" "mset as = mset (alerts_of (snd c) i)"
  using assms unfolding GetAlertsByIncidentID_def alerts_of_def order_by_desc_def
  by (auto elim!: round_trip_cases)

lemma update_rows_find:
  assumes "update_rows i f d = (Inr row, d')" and id: "\<And>x. row_ID (f x) = row_ID x"
  shows "db_alerts d' = db_alerts d" "db_ids d' = db_ids d"
    "find_row d' j = (if j = i then Some row else find_row d j)" "find_row d i \<noteq> None"
    "row = f (the (find_row d i))" "row_State row \<in> set valid_states"
proof -
  let ?g = "\<lambda>r. if row_ID r = i then f r else r"
  from assms(1) obtain x xs where x: "filter (\<lambda>r. row_ID r = i) (db_incidents d) = x # xs"
    and row: "row = f x" "row_State (f x) \<in> set valid_states"
    and d': "d' = d\<lparr>db_incidents := map ?g (db_incidents d)\<rparr>"
    by (auto simp: update_rows_def split: list.splits if_splits)
  have x': "find_row d i = Some x"
    using x one_row_filter [of "\<lambda>r. row_ID r = i" "db_incidents d"]
    by (auto simp: find_row_def one_row_def split: option.splits)
  have "find_row d' j = map_option ?g (find_row d j)"
    unfolding find_row_def d' by (simp, rule find_map_cong) (simp add: id)
  with x' row find_rowD [of d j] show "find_row d' j = (if j = i then Some row else find_row d j)"
    by (cases "find_row d j") auto
  show "db_alerts d' = db_alerts d" "db_ids d' = db_ids d"
    by (simp_all add: d' db_ids_def id)
  show "find_row d i \<noteq> None" "row = f (the (find_row d i))" "row_State row \<in> set valid_states"
    using x' row by simp_all
qed

lemma conflicts_alert_key: "conflicts (alert_params i a) r \<longleftrightarrow> alert_key r = (i, al_Fingerprint a)"
  by (auto simp: conflicts_def alert_params_def alert_key_def)

lemma CreateAlert_cases:
  assumes "CreateAlert p e c = (r, c')"
  obtains (err) err k where "r = Inl err" "snd c' = (snd c)\<lparr>db_next_alert_id := k\<rparr>"
    | (upd) k x xs where "filter (conflicts p) (db_alerts (snd c)) = x # xs"
        "snd c' = (snd c)\<lparr>db_next_alert_id := k, db_alerts :=
           map (\<lambda>r. if conflicts p r then upsert_alert e p r else r) (db_alerts (snd c))\<rparr>"
    | (new) k where "filter (conflicts p) (db_alerts (snd c)) = []"
        "snd c' = (snd c)\<lparr>db_next_alert_id := k + 1,
           db_alerts := db_alerts (snd c) @ [new_alert_row e p k]\<rparr>"
proof -
  let ?d = "snd c" and ?k = "db_next_alert_id (snd c)"
  from assms show thesis
    unfolding CreateAlert_def
  proof (cases rule: round_trip_cases)
    case (fault m)
    then show thesis using err [of "PgError m" ?k] by simp
  next
    case (ran d)
    show thesis
    proof (cases "?k \<ge> 2 ^ 31")
      case True
      with ran show thesis using err [of _ ?k] by (auto simp: Let_def)
    next
      case False
      show thesis
      proof (cases "filter (conflicts p) (db_alerts ?d)")
        case Nil
        show thesis
        proof (cases "ca_IncidentID p \<in> row_ID ` set (db_incidents ?d)")
          case True
          with ran False Nil show thesis using new [of ?k] by (simp add: Let_def)
        next
          case no: False
          with ran False Nil show thesis using err [of _ "?k + 1"] by (auto simp: Let_def)
        qed
      next
        case (Cons x xs)
        with ran False show thesis using upd [of x xs "?k + 1"] by (simp add: Let_def)
      qed
    qed
  qed
qed

lemma CreateAlert_result:
  assumes "CreateAlert (alert_params i a) e c = (r, c')"
  shows "db_incidents (snd c') = db_incidents (snd c)"
    "j \<noteq> i \<Longrightarrow> alerts_of (snd c') j = alerts_of (snd c) j"
    "r = Inr row \<Longrightarrow> alert_at (snd c') j fp =
       (if (j, fp) = (i, al_Fingerprint a) then Some (alert_columns (pe_ts e) a) else alert_at (snd c) j fp)"
proof -
  let ?g = "\<lambda>r. if conflicts (alert_params i a) r then upsert_alert e (alert_params i a) r else r"
  let ?d = "snd c"
  have key: "alert_key (?g r) = alert_key r" for r by (simp add: alert_key_def upsert_alert_def)
  show "db_incidents (snd c') = db_incidents (snd c)" using assms by (cases rule: CreateAlert_cases) auto
  show "alerts_of (snd c') j = alerts_of (snd c) j" if "j \<noteq> i"
    using assms
  proof (cases rule: CreateAlert_cases)
    case upd
    have "filter (\<lambda>a. arow_IncidentID a = j) (map ?g rows) = filter (\<lambda>a. arow_IncidentID a = j) rows" for rows
      using that by (induction rows) (auto simp: upsert_alert_def conflicts_def alert_params_def)
    with upd show ?thesis by (simp add: alerts_of_def)
  qed (use that in \<open>auto simp: alerts_of_def new_alert_row_def alert_params_def\<close>)
  show "alert_at (snd c') j fp =
      (if (j, fp) = (i, al_Fingerprint a) then Some (alert_columns (pe_ts e) a) else alert_at (snd c) j fp)"
    if "r = Inr row"
    using assms
  proof (cases rule: CreateAlert_cases)
    case err
    with that show ?thesis by simp
  next
    case upd
    have f: "List.find (\<lambda>r. alert_key r = (j, fp)) (map ?g (db_alerts ?d)) =
        map_option ?g (List.find (\<lambda>r. alert_key r = (j, fp)) (db_alerts ?d))"
      by (rule find_map_cong) (simp only: key)
    from upd(1) have "List.find (\<lambda>r. alert_key r = (i, al_Fingerprint a)) (db_alerts ?d) \<noteq> None"
      by (auto simp: find_None_iff conflicts_alert_key dest!: filter_eq_ConsD)
    with f upd(2) show ?thesis
      by (cases "List.find (\<lambda>r. alert_key r = (j, fp)) (db_alerts ?d)")
        (auto simp: alert_at_def upsert_alert_def alert_columns_def alert_params_def
          conflicts_alert_key [unfolded alert_params_def] dest: find_SomeD)
  next
    case new
    from new(1) have "List.find (\<lambda>r. alert_key r = (i, al_Fingerprint a)) (db_alerts ?d) = None"
      by (simp add: find_None_iff conflicts_alert_key filter_empty_conv)
    with new(2) show ?thesis
      by (auto simp: alert_at_def find_append new_alert_row_def alert_key_def alert_columns_def
          alert_params_def split: option.splits)
  qed
qed

lemma save_alerts_result:
  assumes "save_alerts i as e c = (r, c')"
  shows "db_incidents (snd c') = db_incidents (snd c)"
    "j \<noteq> i \<Longrightarrow> alerts_of (snd c') j = alerts_of (snd c) j"
    "db_inv (snd c) \<Longrightarrow> db_inv (snd c')"
    "r = Inr u \<Longrightarrow> alert_at (snd c') j fp =
       (case if j = i then List.find (\<lambda>a. al_Fingerprint a = fp) (rev as) else None of
          Some a \<Rightarrow> Some (alert_columns (pe_ts e) a) | None \<Rightarrow> alert_at (snd c) j fp)"
proof -
  from assms have "db_incidents (snd c') = db_incidents (snd c) \<and>
      (j \<noteq> i \<longrightarrow> alerts_of (snd c') j = alerts_of (snd c) j) \<and> (db_inv (snd c) \<longrightarrow> db_inv (snd c')) \<and>
      (r = Inr u \<longrightarrow> alert_at (snd c') j fp =
       (case if j = i then List.find (\<lambda>a. al_Fingerprint a = fp) (rev as) else None of
          Some a \<Rightarrow> Some (alert_columns (pe_ts e) a) | None \<Rightarrow> alert_at (snd c) j fp))"
  proof (induction as arbitrary: c)
    case (Cons a as)
    obtain x c1 where x: "CreateAlert (alert_params i a) e c = (x, c1)" by (metis prod.exhaust)
    note f = CreateAlert_result [OF x]
    have inv: "db_inv (snd c) \<longrightarrow> db_inv (snd c1)"
      using CreateAlert_inv [of "snd c" "alert_params i a" e "fst c" x "fst c1" "snd c1"] x
      by (simp add: alert_params_def)
    show ?case
    proof (cases x)
      case (Inl err)
      with x Cons.prems f inv show ?thesis by auto
    next
      case (Inr row)
      with x Cons.prems have "save_alerts i as e c1 = (r, c')" by simp
      from Cons.IH [OF this] f(1) f(2) [of j] f(3) [OF Inr, of j fp] inv show ?thesis
        by (auto simp: find_append split: option.splits)
    qed
  qed auto
  then show "db_incidents (snd c') = db_incidents (snd c)"
    "j \<noteq> i \<Longrightarrow> alerts_of (snd c') j = alerts_of (snd c) j"
    "db_inv (snd c) \<Longrightarrow> db_inv (snd c')"
    "r = Inr u \<Longrightarrow> alert_at (snd c') j fp =
       (case if j = i then List.find (\<lambda>a. al_Fingerprint a = fp) (rev as) else None of
          Some a \<Rightarrow> Some (alert_columns (pe_ts e) a) | None \<Rightarrow> alert_at (snd c) j fp)"
    by blast+
qed

definition saved_row :: "pg_env \<Rightarrow> incident_row option \<Rightarrow> incident \<Rightarrow> incident_row" where
  \<comment> \<open>the row of an incident after a save, from the row before\<close>
  "saved_row e old inc =
     (case old of None \<Rightarrow> stored_row e (create_params inc)
      | Some x \<Rightarrow> apply_update e (update_params e x inc) x)"

lemma saved_row_fields [simp]:
  "row_ID (saved_row e None inc) = inc_ID inc"
  "row_ID (saved_row e (Some x) inc) = row_ID x"
  "row_Service (saved_row e old inc) = inc_Service inc"
  "row_Cluster (saved_row e old inc) = inc_Cluster inc"
  "row_Environment (saved_row e old inc) = inc_Environment inc"
  "row_Severity (saved_row e old inc) = inc_Severity inc"
  "row_CorrelationKey (saved_row e old inc) = inc_CorrelationKey inc"
  "row_CorrelationVersion (saved_row e old inc) = wrap32 (inc_CorrelationVersion inc)"
  "row_State (saved_row e old inc) = inc_State inc"
  "row_FirstAlertAt (saved_row e old inc) = pe_ts e (inc_FirstAlertAt inc)"
  "row_LastAlertAt (saved_row e old inc) = pe_ts e (inc_LastAlertAt inc)"
  "row_TopologySnapshot (saved_row e old inc) = topologyJSON inc"
  by (simp_all add: saved_row_def stored_row_def create_params_def apply_update_def update_params_def
      split: option.splits)

lemma topologyJSON_ok: "topologyJSON inc = Some j \<Longrightarrow> dec_topology_slice j \<noteq> None"
  by (auto simp: topologyJSON_def)

lemma CreateIncident_result:
  assumes "CreateIncident a e c = (Inr row, c')"
  shows "snd c' = (snd c)\<lparr>db_incidents := db_incidents (snd c) @ [stored_row e a]\<rparr>"
    "row_ID a \<notin> set (db_ids (snd c))"
  using assms unfolding CreateIncident_def
  by (auto elim!: round_trip_cases simp: db_ids_def split: if_splits)

lemma UpdateIncident_inv:
  assumes "db_inv (snd c)" and "UpdateIncident a e c = (r, c')"
    and "\<And>j. up_TopologySnapshot a = Some j \<Longrightarrow> dec_topology_slice j \<noteq> None"
  shows "db_inv (snd c')"
  using assms(2) unfolding UpdateIncident_def
proof (cases rule: round_trip_cases)
  case (ran d)
  with update_rows_inv [OF assms(1), of "up_ID a" "apply_update e a" r d] assms(3)
  show ?thesis by (auto simp: apply_update_def row_ok_def)
qed (use assms(1) in simp)

lemma UpdateIncident_result:
  assumes "UpdateIncident a e c = (Inr row, c')"
  shows "db_alerts (snd c') = db_alerts (snd c)" "find_row (snd c) (up_ID a) \<noteq> None"
    "find_row (snd c') j = (if j = up_ID a then Some (apply_update e a (the (find_row (snd c) j)))
       else find_row (snd c) j)"
proof -
  from assms obtain d where u: "update_rows (up_ID a) (apply_update e a) (snd c) = (Inr row, d)"
    and d: "snd c' = d"
    unfolding UpdateIncident_def by (auto elim!: round_trip_cases)
  have id: "row_ID (apply_update e a x) = row_ID x" for x by (simp add: apply_update_def)
  note f = update_rows_find [OF u id]
  from f(1,4) d show "db_alerts (snd c') = db_alerts (snd c)" "find_row (snd c) (up_ID a) \<noteq> None"
    by simp_all
  from f(3) [of j] f(5) d show "find_row (snd c') j =
      (if j = up_ID a then Some (apply_update e a (the (find_row (snd c) j))) else find_row (snd c) j)"
    by simp
qed

lemma save_row_inv:
  assumes inv: "db_inv (snd c)" and s: "save_row inc e c = (r, c')"
  shows "db_inv (snd c')"
proof -
  obtain g c1 where g: "GetIncidentByID (inc_ID inc) e c = (g, c1)" by (metis prod.exhaust)
  with inv have inv1: "db_inv (snd c1)" using GetIncidentByID_result(1) by fastforce
  have cr: "db_inv (snd c2)" if "CreateIncident (create_params inc) e c1 = (x, c2)" for x c2
    using CreateIncident_inv [OF inv1, of "create_params inc" e "fst c1" x "fst c2" "snd c2"] that
      topologyJSON_ok by (simp add: create_params_def)
  have up: "db_inv (snd c2)" if "UpdateIncident (update_params e y inc) e c1 = (x, c2)" for x y c2
    using UpdateIncident_inv [OF inv1 that] topologyJSON_ok by (simp add: update_params_def)
  from s g inv1 show ?thesis
    by (auto simp: save_row_def dest: cr up split: sum.splits pg_error.splits prod.splits)
qed

lemma save_row_result:
  assumes "save_row inc e c = (Inr u, c')"
  shows "db_alerts (snd c') = db_alerts (snd c)"
    "find_row (snd c') j = (if j = inc_ID inc then Some (saved_row e (find_row (snd c) j) inc)
       else find_row (snd c) j)"
proof -
  obtain g c1 where g: "GetIncidentByID (inc_ID inc) e c = (g, c1)" by (metis prod.exhaust)
  note g' = GetIncidentByID_result [OF g]
  show "db_alerts (snd c') = db_alerts (snd c)"
    using assms g g' by (auto simp: save_row_def CreateIncident_result UpdateIncident_result
        split: sum.splits pg_error.splits prod.splits)
  show "find_row (snd c') j = (if j = inc_ID inc then Some (saved_row e (find_row (snd c) j) inc)
      else find_row (snd c) j)"
  proof (cases "find_row (snd c) (inc_ID inc)")
    case None
    with assms g g' obtain row where cr: "CreateIncident (create_params inc) e c1 = (Inr row, c')"
      by (auto simp: save_row_def split: sum.splits pg_error.splits prod.splits)
    from CreateIncident_result [OF cr] g' None show ?thesis
      by (auto simp: find_row_def find_append saved_row_def stored_row_def create_params_def
          split: option.splits)
  next
    case (Some x)
    with assms g g' obtain row where up: "UpdateIncident (update_params e x inc) e c1 = (Inr row, c')"
      by (auto simp: save_row_def split: sum.splits pg_error.splits prod.splits)
    from UpdateIncident_result(3) [OF up, of j] g' Some show ?thesis
      by (auto simp: saved_row_def update_params_def)
  qed
qed

lemma tx_begin_result: "tx_begin e c = (r, c') \<Longrightarrow> snd c' = snd c"
  unfolding tx_begin_def by (auto elim!: round_trip_cases)

lemma pg_Save_cases:
  assumes "pg_Save e d inc = (r, d')"
  obtains (failed) m k where "r = Inl m" "d' = d\<lparr>db_next_alert_id := k\<rparr>"
    | (stored) c c1 c2 where "snd c = d" "save_row inc e c = (Inr (), c1)"
        "save_alerts (inc_ID inc) (inc_Alerts inc) e c1 = (Inr (), c2)" "d' = snd c2"
        "r = Inr () \<or> pe_commit_applied e \<and> (\<exists>m. r = Inl m)"
proof -
  obtain b c where b: "tx_begin e (0, d) = (b, c)" by (metis prod.exhaust)
  then have c: "snd c = d" by (auto dest: tx_begin_result)
  obtain s c1 where s: "save_row inc e c = (s, c1)" by (metis prod.exhaust)
  obtain a c2 where a: "save_alerts (inc_ID inc) (inc_Alerts inc) e c1 = (a, c2)" by (metis prod.exhaust)
  show thesis
  proof (cases "isl b \<or> isl s \<or> isl a")
    case True
    with assms b s a have "(\<exists>m. r = Inl m) \<and> (\<exists>k. d' = d\<lparr>db_next_alert_id := k\<rparr>)"
      by (cases b; cases s; cases a)
        (auto simp: pg_Save_def tx_rollback_def intro: exI [of _ "db_next_alert_id d"])
    then show thesis using failed by blast
  next
    case False
    then have u: "b = Inr ()" "s = Inr ()" "a = Inr ()" 
      by (cases b; cases s; cases a; simp)+
    show thesis
    proof (cases "pe_fault e (fst c2)")
      case None
      with assms b s a u c show thesis by (auto simp: pg_Save_def tx_commit_def intro: stored)
    next
      case (Some m)
      with assms b s a u c show thesis
        by (cases "pe_commit_applied e")
          (auto simp: pg_Save_def tx_commit_def tx_rollback_def intro: stored failed)
    qed
  qed
qed

lemma pg_Save_inv:
  assumes inv: "db_inv d" and s: "pg_Save e d inc = (r, d')"
  shows "db_inv d'"
  using s
proof (cases rule: pg_Save_cases)
  case (failed m k)
  with inv show ?thesis by simp
next
  case (stored c c1 c2)
  from save_row_inv [OF _ stored(2)] stored(1) inv have "db_inv (snd c1)" by simp
  from save_alerts_result(3) [OF stored(3) this] stored(4) show ?thesis by simp
qed

lemma pg_Save_done:
  \<comment> \<open>the tables after a save whose COMMIT took effect\<close>
  assumes "snd c = d" "save_row inc e c = (Inr (), c1)"
    "save_alerts (inc_ID inc) (inc_Alerts inc) e c1 = (Inr (), c2)"
  shows "find_row (snd c2) j = (if j = inc_ID inc then Some (saved_row e (find_row d j) inc) else find_row d j)"
    "j \<noteq> inc_ID inc \<Longrightarrow> alerts_of (snd c2) j = alerts_of d j"
    "alert_at (snd c2) j fp =
       (case if j = inc_ID inc then List.find (\<lambda>a. al_Fingerprint a = fp) (rev (inc_Alerts inc)) else None of
          Some a \<Rightarrow> Some (alert_columns (pe_ts e) a) | None \<Rightarrow> alert_at d j fp)"
proof -
  note r = save_row_result [OF assms(2)] and a = save_alerts_result [OF assms(3)]
  show "find_row (snd c2) j = (if j = inc_ID inc then Some (saved_row e (find_row d j) inc) else find_row d j)"
    using r(2) [of j] a(1) assms(1) by (simp add: find_row_def)
  show "alerts_of (snd c2) j = alerts_of d j" if "j \<noteq> inc_ID inc"
    using a(2) [OF that] r(1) assms(1) by (simp add: alerts_of_def)
  show "alert_at (snd c2) j fp =
       (case if j = inc_ID inc then List.find (\<lambda>a. al_Fingerprint a = fp) (rev (inc_Alerts inc)) else None of
          Some a \<Rightarrow> Some (alert_columns (pe_ts e) a) | None \<Rightarrow> alert_at d j fp)"
  proof -
    have "alert_at (snd c1) j fp = alert_at d j fp" using r(1) assms(1) by (simp add: alert_at_def)
    with a(4) [of "()" j fp] show ?thesis by (simp only:)
  qed
qed

section \<open>The abstraction and the contract\<close>

definition arow_value :: "alert_row \<Rightarrow> alert" where
  "arow_value a =
     \<lparr>al_Fingerprint = arow_Fingerprint a, al_Labels = the (dec_labels (arow_Labels a)),
      al_Annotations = the (dec_labels (arow_Annotations a)), al_StartsAt = arow_StartsAt a,
      al_EndsAt = arow_EndsAt a\<rparr>"

definition row_topology :: "incident_row \<Rightarrow> topology_slice option" where
  "row_topology row =
     (case row_TopologySnapshot row of None \<Rightarrow> None | Some j \<Rightarrow> the (dec_ptr dec_topology_slice j))"

definition row_incident :: "incident_row \<Rightarrow> alert list \<Rightarrow> incident" where
  "row_incident row alerts =
     \<lparr>inc_ID = row_ID row, inc_Service = row_Service row, inc_Cluster = row_Cluster row,
      inc_Environment = row_Environment row, inc_Severity = row_Severity row, inc_Alerts = alerts,
      inc_CorrelationKey = row_CorrelationKey row,
      inc_CorrelationVersion = row_CorrelationVersion row, inc_State = row_State row,
      inc_CreatedAt = row_CreatedAt row, inc_UpdatedAt = row_UpdatedAt row,
      inc_FirstAlertAt = row_FirstAlertAt row, inc_LastAlertAt = row_LastAlertAt row,
      inc_TopologyContext = row_topology row\<rparr>"

definition pg_abs :: "db \<Rightarrow> string \<Rightarrow> incident option" where
  "pg_abs d i =
     map_option (\<lambda>r. row_incident r (map arow_value (alerts_of d i))) (find_row d i)"

definition pg_ok :: "(time \<Rightarrow> time) \<Rightarrow> pg_env \<Rightarrow> db \<Rightarrow> bool" where
  "pg_ok rt e d \<longleftrightarrow> pe_ts e = rt \<and> mono rt \<and> (\<forall>rows. mset (pe_scan e rows) = mset rows) \<and>
     (\<forall>rows. mset (pe_scan_alerts e rows) = mset rows)"

definition pg_recent :: "pg_env \<Rightarrow> duration \<Rightarrow> incident \<Rightarrow> bool" where
  "pg_recent e w x \<longleftrightarrow> inc_LastAlertAt x > pe_ts e (time_add (pe_now e) (duration_neg w))"

lemma arow_alerts_ok: "list_all arow_ok rows \<Longrightarrow> arow_alerts rows = Inr (map arow_value rows)"
  by (induction rows) (auto simp: arow_alert_def arow_ok_def arow_value_def)

lemma dec_ptr_total: "d j \<noteq> None \<Longrightarrow> dec_ptr d j \<noteq> None"
  by (cases j) (simp_all add: dec_ptr_def)

lemma rowToIncident_ok:
  "row_ok r \<Longrightarrow> list_all arow_ok rows \<Longrightarrow> rowToIncident r rows = Inr (row_incident r (map arow_value rows))"
  using dec_ptr_total [of dec_topology_slice]
  by (auto simp: rowToIncident_def arow_alerts_ok row_incident_def row_topology_def row_ok_def
      split: option.splits)

lemma alerts_of_ok: "db_inv d \<Longrightarrow> list_all arow_ok (alerts_of d i)"
  by (auto simp: db_inv_def alerts_of_def list_all_iff)

lemma mset_alerts_ok:
  assumes "db_inv d" "mset rows = mset (alerts_of d i)"
  shows "list_all arow_ok rows"
  using alerts_of_ok [OF assms(1), of i] mset_permute_set [OF assms(2)] by (simp add: list_all_iff)

lemma row_incident_same:
  "mset as = mset bs \<Longrightarrow> same_incident (row_incident r (map arow_value as)) (row_incident r (map arow_value bs))"
  by (simp add: same_incident_def row_incident_def)

lemma pg_recent_antimono:
  assumes "mono (pe_ts e)" "pe_ts e = pe_ts e'" "pe_now e \<le> pe_now e'" "pg_recent e' w x"
  shows "pg_recent e w x"
proof -
  have "pe_ts e (time_add (pe_now e) (duration_neg w)) \<le> pe_ts e (time_add (pe_now e') (duration_neg w))"
    using assms(1,3) by (simp add: mono_def time_add_def)
  with assms(2,4) show ?thesis by (simp add: pg_recent_def)
qed

text \<open>
  What a read of a row and of its alerts yields: the incident of the abstraction, up to the order of
  the alerts.
\<close>

lemma read_row:
  assumes inv: "db_inv d" and row: "row \<in> set (db_incidents d)"
    and as: "mset as = mset (alerts_of d (row_ID row))"
  shows "\<exists>x y. rowToIncident row as = Inr x \<and> pg_abs d (row_ID row) = Some y \<and> same_incident x y \<and>
    inc_ID x = row_ID row \<and> inc_CorrelationKey x = row_CorrelationKey row \<and>
    inc_State x = row_State row \<and> inc_LastAlertAt x = row_LastAlertAt row"
  using find_row_in [OF inv row] row_incident_same [OF as, of row]
    rowToIncident_ok [OF db_inv_row_ok [OF inv row] mset_alerts_ok [OF inv as]]
  by (simp add: pg_abs_def) (simp add: row_incident_def)

lemma pg_abs_row:
  "pg_abs d i = Some x \<Longrightarrow> \<exists>r. find_row d i = Some r \<and> x = row_incident r (map arow_value (alerts_of d i))"
  by (auto simp: pg_abs_def)

lemma alert_at_fingerprints:
  "pg_abs d i = Some x \<Longrightarrow> fp \<in> fingerprints x \<longleftrightarrow> alert_at d i fp \<noteq> None"
proof -
  assume "pg_abs d i = Some x"
  then have "fingerprints x = arow_Fingerprint ` set (alerts_of d i)"
    by (auto simp: pg_abs_def fingerprints_def row_incident_def arow_value_def image_image)
  moreover have "alert_at d i fp \<noteq> None \<longleftrightarrow> (\<exists>a \<in> set (db_alerts d). alert_key a = (i, fp))"
    by (auto simp: alert_at_def find_None_iff)
  ultimately show ?thesis by (auto simp: alerts_of_def alert_key_def)
qed

lemma order_by_desc_head:
  "order_by_desc key rows = r # rs \<Longrightarrow> r \<in> set rows \<and> (\<forall>x \<in> set rows. key x \<le> key r)"
proof -
  assume o: "order_by_desc key rows = r # rs"
  then have s: "sorted (map (\<lambda>r. - key r) (r # rs))" unfolding order_by_desc_def
    by (metis sorted_sort_key)
  have "set (r # rs) = set rows" by (metis o order_by_desc_def set_sort)
  with s show ?thesis by auto
qed

lemma set_order_by_desc [simp]: "set (order_by_desc key rows) = set rows"
  by (simp add: order_by_desc_def)

lemma pg_GetByID_result:
  assumes inv: "db_inv d" and ok: "pg_ok rt e d" and g: "pg_GetByID e d i = Inr r"
  shows "rel_option same_incident r (pg_abs d i)"
proof -
  obtain q c where q: "GetIncidentByID i e (0, d) = (q, c)" by (metis prod.exhaust)
  obtain a c' where a: "GetAlertsByIncidentID i e c = (a, c')" by (metis prod.exhaust)
  note q' = GetIncidentByID_result [OF q]
  show ?thesis
  proof (cases "find_row d i")
    case None
    with g q q' show ?thesis by (auto simp: pg_GetByID_def pg_abs_def)
  next
    case (Some row)
    with g q q' a obtain as where as: "q = Inr row" "a = Inr as"
      by (auto simp: pg_GetByID_def split: sum.splits)
    from find_rowD [OF Some] have row: "row \<in> set (db_incidents d)" "row_ID row = i" by simp_all
    have "mset as = mset (alerts_of d (row_ID row))"
      using GetAlertsByIncidentID_result(2) [of i e c as c'] a as ok q' row by (simp add: pg_ok_def)
    from read_row [OF inv row(1) this] row(2) show ?thesis
      using g q as a by (auto simp: pg_GetByID_def)
  qed
qed

lemma FindOpenByCorrelationKey_result:
  assumes "FindOpenByCorrelationKey k t e (0, d) = (r, c)" and "mset (pe_scan e (db_incidents d)) = mset (db_incidents d)"
  defines "P \<equiv> \<lambda>x. row_CorrelationKey x = k \<and> row_State x \<noteq> ''resolved'' \<and> row_LastAlertAt x > pe_ts e t"
  shows "snd c = d"
    "r = Inr row \<Longrightarrow> row \<in> set (db_incidents d) \<and> P row \<and>
       (\<forall>x \<in> set (db_incidents d). P x \<longrightarrow> row_LastAlertAt x \<le> row_LastAlertAt row)"
    "r = Inl ErrNoRows \<Longrightarrow> \<forall>x \<in> set (db_incidents d). \<not> P x"
proof -
  let ?rows = "order_by_desc row_LastAlertAt (filter P (pe_scan e (db_incidents d)))"
  have set: "set ?rows = {x \<in> set (db_incidents d). P x}"
    using mset_permute_set [OF assms(2)] by auto
  from assms(1) have r: "snd c = d \<and> ((\<exists>m. r = Inl (PgError m)) \<or> r = one_row ?rows)"
    unfolding FindOpenByCorrelationKey_def P_def by (auto elim!: round_trip_cases)
  then show "snd c = d" by simp
  show "row \<in> set (db_incidents d) \<and> P row \<and>
       (\<forall>x \<in> set (db_incidents d). P x \<longrightarrow> row_LastAlertAt x \<le> row_LastAlertAt row)"
    if "r = Inr row"
  proof -
    from that r obtain rs where o: "?rows = row # rs"
      by (auto simp: one_row_def split: list.splits)
    from order_by_desc_head [OF this] mset_permute_set [OF assms(2)] show ?thesis by auto
  qed
  show "\<forall>x \<in> set (db_incidents d). \<not> P x" if "r = Inl ErrNoRows"
  proof -
    from that r have "?rows = []" by (auto simp: one_row_def split: list.splits)
    with set show ?thesis by auto
  qed
qed

lemma pg_Find_result:
  assumes inv: "db_inv d" and ok: "pg_ok rt e d"
    and f: "pg_FindOpenByCorrelationKey e d k w = Inr r"
  shows "case r of
      None \<Rightarrow> \<forall>i y. pg_abs d i = Some y \<longrightarrow>
        \<not> (inc_CorrelationKey y = k \<and> inc_State y \<noteq> IncidentStateResolved \<and> pg_recent e w y)
    | Some x \<Rightarrow> (\<exists>y. pg_abs d (inc_ID x) = Some y \<and> same_incident x y) \<and>
        inc_CorrelationKey x = k \<and> inc_State x \<noteq> IncidentStateResolved \<and> pg_recent e w x \<and>
        (\<forall>i y. pg_abs d i = Some y \<longrightarrow> inc_CorrelationKey y = k \<longrightarrow>
           inc_State y \<noteq> IncidentStateResolved \<longrightarrow> pg_recent e w y \<longrightarrow>
           inc_LastAlertAt y \<le> inc_LastAlertAt x)"
proof -
  let ?t = "time_add (pe_now e) (duration_neg w)"
  obtain q c where q: "FindOpenByCorrelationKey k ?t e (0, d) = (q, c)" by (metis prod.exhaust)
  have scan: "mset (pe_scan e (db_incidents d)) = mset (db_incidents d)" using ok by (simp add: pg_ok_def)
  note q' = FindOpenByCorrelationKey_result [OF q scan]
  have abs_row: "\<exists>x \<in> set (db_incidents d). row_CorrelationKey x = inc_CorrelationKey y \<and>
      row_State x = inc_State y \<and> row_LastAlertAt x = inc_LastAlertAt y" if "pg_abs d i = Some y" for i y
    using that find_rowD [of d i] by (force simp: pg_abs_def row_incident_def)
  show ?thesis
  proof (cases q)
    case (Inl err)
    with f q have r: "err = ErrNoRows" "r = None"
      by (cases err; auto simp: pg_FindOpenByCorrelationKey_def Let_def)+
    with Inl q'(3) abs_row show ?thesis
      by (fastforce simp: pg_recent_def IncidentStateResolved_def)
  next
    case (Inr row)
    obtain a c' where a: "GetAlertsByIncidentID (row_ID row) e c = (a, c')" by (metis prod.exhaust)
    with f q Inr obtain as where as: "a = Inr as" "map_sum id Some (rowToIncident row as) = Inr r"
      by (auto simp: pg_FindOpenByCorrelationKey_def Let_def split: sum.splits)
    have "mset as = mset (alerts_of d (row_ID row))"
      using GetAlertsByIncidentID_result(2) [of "row_ID row" e c as c'] a as ok q'(1) by (simp add: pg_ok_def)
    with read_row [OF inv _ this] q'(2) [OF Inr] obtain x y where x: "rowToIncident row as = Inr x"
      "pg_abs d (row_ID row) = Some y" "same_incident x y" "inc_ID x = row_ID row"
      "inc_CorrelationKey x = row_CorrelationKey row" "inc_State x = row_State row"
      "inc_LastAlertAt x = row_LastAlertAt row" by blast
    have latest: "inc_LastAlertAt z \<le> inc_LastAlertAt x"
      if "pg_abs d i = Some z" "inc_CorrelationKey z = k" "inc_State z \<noteq> IncidentStateResolved" "pg_recent e w z" for i z
      using q'(2) [OF Inr] abs_row [OF that(1)] that x by (auto simp: pg_recent_def IncidentStateResolved_def)
    from x as have "r = Some x" by simp
    with x q'(2) [OF Inr] latest show ?thesis by (simp add: pg_recent_def IncidentStateResolved_def)
  qed
qed

lemma list_rows_result:
  assumes inv: "db_inv d" and scan: "\<And>rows. mset (pe_scan_alerts e rows) = mset rows"
  shows "snd c = d \<Longrightarrow> set rows \<subseteq> set (db_incidents d) \<Longrightarrow> list_rows rows e c = Inr xs \<Longrightarrow>
    list_all2 (\<lambda>r x. inc_ID x = row_ID r \<and> inc_CreatedAt x = row_CreatedAt r \<and>
      (\<exists>y. pg_abs d (row_ID r) = Some y \<and> same_incident x y)) rows xs"
proof (induction rows arbitrary: c xs)
  case (Cons r rows)
  obtain a c' where a: "GetAlertsByIncidentID (row_ID r) e c = (a, c')" by (metis prod.exhaust)
  with Cons.prems(3) obtain as where as: "a = Inr as" by (cases a) auto
  note a' = GetAlertsByIncidentID_result [OF a [unfolded as] scan]
  from Cons.prems a' read_row [OF inv, of r as] obtain x y where x: "rowToIncident r as = Inr x"
    "inc_ID x = row_ID r" "pg_abs d (row_ID r) = Some y" "same_incident x y" by auto
  then have cr: "inc_CreatedAt x = row_CreatedAt r"
    by (auto simp: rowToIncident_def split: option.splits sum.splits)
  from Cons.prems(3) a as x obtain ys where ys: "list_rows rows e c' = Inr ys" "xs = x # ys"
    by (auto split: sum.splits)
  with Cons.IH [of c' ys] Cons.prems a' x cr show ?case by simp
qed simp

lemma pg_List_result:
  assumes inv: "db_inv d" and ok: "pg_ok rt e d" and l: "pg_List e d = Inr xs"
  shows "\<exists>rows. mset rows = mset (db_incidents d) \<and> sorted (map (\<lambda>r. - row_CreatedAt r) rows) \<and>
    list_all2 (\<lambda>r x. inc_ID x = row_ID r \<and> inc_CreatedAt x = row_CreatedAt r \<and>
      (\<exists>y. pg_abs d (row_ID r) = Some y \<and> same_incident x y)) rows xs"
proof -
  obtain q c where q: "ListIncidents e (0, d) = (q, c)" by (metis prod.exhaust)
  with l obtain rows where rows: "q = Inr rows" "list_rows rows e c = Inr xs"
    by (auto simp: pg_List_def split: sum.splits)
  with q have r: "snd c = d" "rows = order_by_desc row_CreatedAt (pe_scan e (db_incidents d))"
    unfolding ListIncidents_def by (auto elim!: round_trip_cases)
  with ok have m: "mset rows = mset (db_incidents d)" by (simp add: order_by_desc_def pg_ok_def)
  with r have "sorted (map (\<lambda>r. - row_CreatedAt r) rows)" by (simp add: order_by_desc_def)
  with list_rows_result [OF inv _ r(1) _ rows(2)] ok mset_permute_set [OF m] m show ?thesis
    by (auto simp: pg_ok_def)
qed

lemma row_topology_saved [simp]: "row_topology (saved_row e old inc) = inc_TopologyContext inc"
proof (cases "inc_TopologyContext inc")
  case (Some t)
  have "dec_ptr dec_topology_slice (enc_topology_slice t) = map_option Some (dec_topology_slice (enc_topology_slice t))"
    by (simp add: dec_ptr_def enc_topology_slice_def)
  with Some show ?thesis by (simp add: row_topology_def topologyJSON_def)
qed (simp add: row_topology_def topologyJSON_def)

lemma pg_Save_stores:
  assumes fin: "snd c = d" "save_row inc e c = (Inr (), c1)"
    "save_alerts (inc_ID inc) (inc_Alerts inc) e c1 = (Inr (), c2)" and ok: "pg_ok rt e d"
    and inv: "db_inv d"
  shows "\<exists>x. pg_abs (snd c2) (inc_ID inc) = Some x \<and> persisted rt inc x"
proof -
  let ?i = "inc_ID inc" and ?r = "saved_row e (find_row d (inc_ID inc)) inc"
  note s = pg_Save_done [OF fin]
  have id: "row_ID ?r = ?i" by (cases "find_row d ?i") (auto dest: find_rowD)
  obtain x where x: "pg_abs (snd c2) ?i = Some x"
    and eq: "x = row_incident ?r (map arow_value (alerts_of (snd c2) ?i))"
    using s(1) [of ?i] by (simp add: pg_abs_def)
  have "fp \<in> fingerprints x" if "fp \<in> fingerprints inc" for fp
  proof -
    from that have "List.find (\<lambda>a. al_Fingerprint a = fp) (rev (inc_Alerts inc)) \<noteq> None"
      by (auto simp: fingerprints_def find_None_iff)
    with s(3) [of ?i fp] alert_at_fingerprints [OF x] show ?thesis by (auto simp: alert_columns_def)
  qed
  moreover have "inc_ID x = ?i \<and> inc_Service x = inc_Service inc \<and> inc_Cluster x = inc_Cluster inc \<and>
     inc_Environment x = inc_Environment inc \<and> inc_Severity x = inc_Severity inc \<and>
     inc_CorrelationKey x = inc_CorrelationKey inc \<and> inc_State x = inc_State inc \<and>
     inc_TopologyContext x = inc_TopologyContext inc \<and>
     inc_LastAlertAt x = rt (inc_LastAlertAt inc)"
    using id ok by (simp add: eq row_incident_def pg_ok_def)
  ultimately show ?thesis using x by (auto simp: persisted_def)
qed

lemma pg_Save_frame:
  assumes "pg_Save e d inc = (r, d')" and "i \<noteq> inc_ID inc"
  shows "pg_abs d' i = pg_abs d i"
  using assms(1)
proof (cases rule: pg_Save_cases)
  case (stored c c1 c2)
  from pg_Save_done(1) [OF stored(1-3), of i] pg_Save_done(2) [OF stored(1-3) assms(2)] stored(4) assms(2)
  show ?thesis by (simp add: pg_abs_def)
qed (simp add: pg_abs_def find_row_def alerts_of_def)

interpretation pg: store_contract pg_incident_store pg_abs db_inv "pg_ok rt" rt pg_recent for rt
proof unfold_locales
  fix s i x
  assume "db_inv s" "pg_abs s i = Some x"
  then show "inc_ID x = i" by (auto simp: pg_abs_def row_incident_def dest: find_rowD)
next
  fix s e i r
  assume "db_inv s" "pg_ok rt e s" "st_GetByID pg_incident_store e s i = Inr r"
  then show "rel_option same_incident r (pg_abs s i)" by (simp add: pg_GetByID_result)
next
  fix s e inc s' and r :: "unit result"
  assume "db_inv s" "st_Save pg_incident_store e s inc = (r, s')"
  then show "db_inv s'" by (simp add: pg_Save_inv)
next
  fix s e inc s' i and r :: "unit result"
  assume "st_Save pg_incident_store e s inc = (r, s')" "i \<noteq> inc_ID inc"
  then show "pg_abs s' i = pg_abs s i" by (simp add: pg_Save_frame)
next
  fix s e inc s' and u :: unit
  assume "db_inv s" "pg_ok rt e s" and "st_Save pg_incident_store e s inc = (Inr u, s')"
  then have s: "pg_Save e s inc = (Inr u, s')" by simp
  from s show "\<exists>x. pg_abs s' (inc_ID inc) = Some x \<and> persisted rt inc x"
  proof (cases rule: pg_Save_cases)
    case (stored c c1 c2)
    with pg_Save_stores [OF stored(1-3) \<open>pg_ok rt e s\<close> \<open>db_inv s\<close>] show ?thesis by simp
  qed simp
next
  fix s e inc s' m
  assume "db_inv s" "pg_ok rt e s" and "st_Save pg_incident_store e s inc = (Inl m, s')"
  then have s: "pg_Save e s inc = (Inl m, s')" by simp
  from s show "pg_abs s' = pg_abs s \<or> (\<exists>x. pg_abs s' (inc_ID inc) = Some x \<and> persisted rt inc x)"
  proof (cases rule: pg_Save_cases)
    case (failed m k)
    then show ?thesis by (auto simp: fun_eq_iff pg_abs_def find_row_def alerts_of_def)
  next
    case (stored c c1 c2)
    with pg_Save_stores [OF stored(1-3) \<open>pg_ok rt e s\<close> \<open>db_inv s\<close>] show ?thesis by simp
  qed
next
  fix s e k w x
  assume "db_inv s" "pg_ok rt e s" "st_FindOpenByCorrelationKey pg_incident_store e s k w = Inr (Some x)"
  then show "(\<exists>y. pg_abs s (inc_ID x) = Some y \<and> same_incident x y) \<and>
      inc_CorrelationKey x = k \<and> inc_State x \<noteq> IncidentStateResolved \<and> pg_recent e w x"
    using pg_Find_result [of s rt e k w "Some x"] by simp
next
  fix s e k w r i y
  assume "db_inv s" "pg_ok rt e s" and f: "st_FindOpenByCorrelationKey pg_incident_store e s k w = Inr r"
    and y: "pg_abs s i = Some y" "inc_CorrelationKey y = k" "inc_State y \<noteq> IncidentStateResolved" "pg_recent e w y"
  with pg_Find_result [of s rt e k w r] show "\<exists>x. r = Some x \<and> inc_LastAlertAt y \<le> inc_LastAlertAt x"
    by (cases r) auto
next
  fix s e xs
  assume inv: "db_inv s" and ok: "pg_ok rt e s" and l: "st_List pg_incident_store e s = Inr xs"
  then obtain rows where rows: "mset rows = mset (db_incidents s)"
    and l2: "list_all2 (\<lambda>r x. inc_ID x = row_ID r \<and> inc_CreatedAt x = row_CreatedAt r \<and>
      (\<exists>y. pg_abs s (row_ID r) = Some y \<and> same_incident x y)) rows xs"
    using pg_List_result [of s rt e xs] by auto
  have "mset (map row_ID rows) = mset (db_ids s)" using rows by (simp add: db_ids_def)
  moreover have ids: "map inc_ID xs = map row_ID rows"
    using l2 by (induction rule: list_all2_induct) simp_all
  ultimately have m: "mset (map inc_ID xs) = mset (db_ids s)" by simp
  with inv have "distinct (map inc_ID xs)"
    by (metis db_inv_def mset_eq_imp_distinct_iff)
  moreover have "\<forall>x \<in> set xs. \<exists>y. pg_abs s (inc_ID x) = Some y \<and> same_incident x y"
    using l2 by (induction rule: list_all2_induct) auto
  moreover have "i \<in> inc_ID ` set xs" if "pg_abs s i \<noteq> None" for i
    using that mset_permute_set [OF m] find_row_None [of s i] by (auto simp: pg_abs_def)
  ultimately show "distinct (map inc_ID xs) \<and>
      (\<forall>x \<in> set xs. \<exists>y. pg_abs s (inc_ID x) = Some y \<and> same_incident x y) \<and>
      (\<forall>i. pg_abs s i \<noteq> None \<longrightarrow> i \<in> inc_ID ` set xs)"
    by blast
qed (simp add: pg_recent_def)

interpretation pg_clk: clocked_store pg_incident_store pg_abs db_inv "pg_ok rt" rt pg_recent pe_now for rt
proof unfold_locales
  fix e e' s s' w x
  assume "pg_ok rt e s" "pg_ok rt e' s'" "pe_now e \<le> pe_now e'" "pg_recent e' w x"
  then show "pg_recent e w x" using pg_recent_antimono [of e e' w x] by (simp add: pg_ok_def)
qed

section \<open>Properties\<close>

text \<open>
  C13: a save is atomic under any pattern of failing round trips. When it reports an error, the tables
  are what they were, unless the error is a lost reply to COMMIT; in every case in which they are
  not, they hold the whole of the incident: its row, and for each of its fingerprints the last alert
  saved under it.
\<close>

theorem pg_Save_atomic:
  assumes "pg_Save e d inc = (r, d')"
  shows "(r \<noteq> Inr () \<and> db_incidents d' = db_incidents d \<and> db_alerts d' = db_alerts d) \<or>
    ((r = Inr () \<or> pe_commit_applied e) \<and>
     find_row d' (inc_ID inc) = Some (saved_row e (find_row d (inc_ID inc)) inc) \<and>
     (\<forall>fp. alert_at d' (inc_ID inc) fp =
       (case List.find (\<lambda>a. al_Fingerprint a = fp) (rev (inc_Alerts inc)) of
          Some a \<Rightarrow> Some (alert_columns (pe_ts e) a)
        | None \<Rightarrow> alert_at d (inc_ID inc) fp)))"
  using assms
proof (cases rule: pg_Save_cases)
  case (failed m k)
  then show ?thesis by simp
next
  case (stored c c1 c2)
  with pg_Save_done [OF stored(1-3), of "inc_ID inc"] show ?thesis by auto
qed

definition demo_pg_env :: "nat option \<Rightarrow> time \<Rightarrow> pg_env" where
  "demo_pg_env bad now =
     \<lparr>pe_now = now, pe_now_pg = now,
      pe_fault = (\<lambda>n. if Some n = bad then Some ''connection reset'' else None),
      pe_commit_applied = False, pe_scan = (\<lambda>rows. rows), pe_scan_alerts = (\<lambda>rows. rows),
      pe_ts = (\<lambda>t. t)\<rparr>"

definition demo_alert :: "string \<Rightarrow> time \<Rightarrow> alert" where
  "demo_alert fp t =
     \<lparr>al_Fingerprint = fp, al_Labels = None, al_Annotations = None, al_StartsAt = t, al_EndsAt = None\<rparr>"

lemmas pg_eval =
  pg_Save_def tx_begin_def tx_commit_def tx_rollback_def save_row_def round_trip_def
  GetIncidentByID_def CreateIncident_def UpdateIncident_def CreateAlert_def update_rows_def
  one_row_def empty_db_def demo_pg_env_def demo_incident_def demo_alert_def create_params_def
  stored_row_def alert_params_def new_alert_row_def topologyJSON_def valid_states_def
  incident_state_defs Let_def

theorem pg_Save_atomic_witness:
  "\<exists>m d'. pg_Save (demo_pg_env (Some 4) 9) empty_db
       ((demo_incident ''i'' 3)\<lparr>inc_Alerts := [demo_alert ''f'' 1, demo_alert ''g'' 2]\<rparr>) = (Inl m, d') \<and>
     db_incidents d' = [] \<and> db_alerts d' = []"
proof -
  let ?inc = "(demo_incident ''i'' 3)\<lparr>inc_Alerts := [demo_alert ''f'' 1, demo_alert ''g'' 2]\<rparr>"
  let ?e = "demo_pg_env (Some 4) 9"
  obtain r d' where s: "pg_Save ?e empty_db ?inc = (r, d')" by (metis prod.exhaust)
  then obtain m where "r = Inl m" by (auto simp: pg_eval)
  moreover have "\<not> pe_commit_applied ?e" by (simp add: demo_pg_env_def)
  ultimately show ?thesis
    using pg_Save_atomic [OF s] s by (auto simp: empty_db_def)
qed

text \<open>
  C25: what a save keeps. Updating an incident leaves its creation time, its count of remediation
  attempts, its pull request and its root-cause summary as the row had them, and no other incident's
  row or alerts change; a new incident starts with none of them. The correlation version is stored in
  32 bits.
\<close>

theorem pg_Save_preserves:
  assumes "pg_Save e d inc = (Inr (), d')"
  shows "\<exists>row. find_row d' (inc_ID inc) = Some row \<and>
      row_CorrelationVersion row = wrap32 (inc_CorrelationVersion inc) \<and>
      (case find_row d (inc_ID inc) of
         Some old \<Rightarrow> row_CreatedAt row = row_CreatedAt old \<and>
           row_RemediationAttempts row = row_RemediationAttempts old \<and>
           row_GithubPrUrl row = row_GithubPrUrl old \<and> row_RcaSummary row = row_RcaSummary old \<and>
           row_UpdatedAt row = pe_ts e (pe_now e)
       | None \<Rightarrow> row_CreatedAt row = pe_ts e (inc_CreatedAt inc) \<and> row_RemediationAttempts row = 0 \<and>
           row_GithubPrUrl row = None \<and> row_RcaSummary row = None) \<and>
      (\<forall>j. j \<noteq> inc_ID inc \<longrightarrow> find_row d' j = find_row d j \<and> alerts_of d' j = alerts_of d j)"
  using assms
proof (cases rule: pg_Save_cases)
  case (stored c c1 c2)
  note s = pg_Save_done [OF stored(1-3)]
  from s(1) [of "inc_ID inc"] s(1,2) stored(4) show ?thesis
    by (auto simp: saved_row_def stored_row_def create_params_def apply_update_def update_params_def
        split: option.split)
qed simp

theorem pg_Save_preserves_witness:
  "\<exists>row. find_row (snd (pg_Save (demo_pg_env None 9) empty_db (demo_incident ''i'' 3))) ''i'' = Some row \<and>
     row_RemediationAttempts row = 0"
proof -
  let ?r = "pg_Save (demo_pg_env None 9) empty_db (demo_incident ''i'' 3)"
  have s: "?r = (Inr (), snd ?r)" by (simp add: pg_eval)
  have n: "find_row empty_db ''i'' = None" "inc_ID (demo_incident ''i'' 3) = ''i''"
    by (simp_all add: find_row_def empty_db_def demo_incident_def)
  from pg_Save_preserves [OF s] n show ?thesis by auto
qed

text \<open>
  C26: a saved incident can be read back, whatever the incident was before: reading it by its ID gives
  an incident with the saved identity, severity, key, state and topology, the saved last-alert time
  at the server's resolution, and all the saved fingerprints.
\<close>

theorem pg_get_after_save:
  assumes "db_inv d" "pg_ok rt e d" "pg_Save e d inc = (Inr (), d')" "pg_ok rt e' d'"
    and "pg_GetByID e' d' (inc_ID inc) = Inr r"
  shows "\<exists>x. r = Some x \<and> persisted rt inc x"
  using pg.get_after_save [of d rt e inc "()" d' e' r] assms by simp

lemma demo_pg_ok: "pg_ok (\<lambda>t. t) (demo_pg_env b t) d"
  by (simp add: pg_ok_def demo_pg_env_def mono_def)

theorem pg_get_after_save_witness:
  "\<exists>x. pg_GetByID (demo_pg_env None 10)
     (snd (pg_Save (demo_pg_env None 9) empty_db (demo_incident ''i'' 3))) ''i'' = Inr (Some x) \<and>
     persisted (\<lambda>t. t) (demo_incident ''i'' 3) x"
proof -
  let ?inc = "demo_incident ''i'' 3" and ?e' = "demo_pg_env None 10"
  let ?r = "pg_Save (demo_pg_env None 9) empty_db ?inc"
  have s: "?r = (Inr (), snd ?r)" by (simp add: pg_eval)
  have id: "inc_ID ?inc = ''i''" by (simp add: demo_incident_def)
  obtain r where r: "pg_GetByID ?e' (snd ?r) (inc_ID ?inc) = Inr r"
    by (simp add: pg_eval pg_GetByID_def GetAlertsByIncidentID_def order_by_desc_def rowToIncident_def)
  from pg_get_after_save [OF db_inv_empty demo_pg_ok s demo_pg_ok r] r id show ?thesis by auto
qed

lemma list_rows_returns:
  assumes inv: "db_inv d" and scan: "\<And>rows. mset (pe_scan_alerts e rows) = mset rows"
    and up: "\<And>n. pe_fault e n = None"
  shows "snd c = d \<Longrightarrow> set rows \<subseteq> set (db_incidents d) \<Longrightarrow> \<exists>xs. list_rows rows e c = Inr xs"
proof (induction rows arbitrary: c)
  case (Cons r rows)
  obtain a c' where a: "GetAlertsByIncidentID (row_ID r) e c = (a, c')" by (metis prod.exhaust)
  with up obtain as where as: "a = Inr as" by (auto simp: GetAlertsByIncidentID_def round_trip_def)
  note a' = GetAlertsByIncidentID_result [OF a [unfolded as] scan]
  with Cons.prems read_row [OF inv, of r as] obtain x where "rowToIncident r as = Inr x" by auto
  moreover from Cons.IH [of c'] Cons.prems a' obtain xs where "list_rows rows e c' = Inr xs" by auto
  ultimately show ?case using a as by simp
qed simp

text \<open>
  C27: every state of the database that satisfies the invariant is one the store can read back: as
  long as no round trip fails, listing returns no error (no stored JSON fails to decode), and the
  list has every incident once, newest first, each with exactly its alerts.
\<close>

theorem pg_List_reads_all:
  assumes inv: "db_inv d" and ok: "pg_ok rt e d" and up: "\<forall>n. pe_fault e n = None"
  shows "\<exists>xs. pg_List e d = Inr xs \<and> mset (map inc_ID xs) = mset (db_ids d) \<and>
    sorted (map (\<lambda>x. - inc_CreatedAt x) xs) \<and>
    (\<forall>x \<in> set xs. \<exists>y. pg_abs d (inc_ID x) = Some y \<and> same_incident x y)"
proof -
  let ?rows = "order_by_desc row_CreatedAt (pe_scan e (db_incidents d))"
  have q: "ListIncidents e (0, d) = (Inr ?rows, (1, d))"
    using up by (simp add: ListIncidents_def round_trip_def)
  have "set ?rows \<subseteq> set (db_incidents d)"
    using ok mset_permute_set [of "pe_scan e (db_incidents d)" "db_incidents d"] by (simp add: pg_ok_def)
  with list_rows_returns [OF inv, of e "(1, d)" ?rows] ok up q obtain xs where l: "pg_List e d = Inr xs"
    by (auto simp: pg_ok_def pg_List_def)
  from pg_List_result [OF inv ok l] obtain rows where rows: "mset rows = mset (db_incidents d)"
    and s: "sorted (map (\<lambda>r. - row_CreatedAt r) rows)"
    and l2: "list_all2 (\<lambda>r x. inc_ID x = row_ID r \<and> inc_CreatedAt x = row_CreatedAt r \<and>
      (\<exists>y. pg_abs d (row_ID r) = Some y \<and> same_incident x y)) rows xs" by blast
  from l2 have "map inc_ID xs = map row_ID rows" "map (\<lambda>x. - inc_CreatedAt x) xs = map (\<lambda>r. - row_CreatedAt r) rows"
    "\<forall>x \<in> set xs. \<exists>y. pg_abs d (inc_ID x) = Some y \<and> same_incident x y"
    by (induction rule: list_all2_induct) auto
  moreover have "mset (map inc_ID xs) = mset (db_ids d)"
    by (simp only: \<open>map inc_ID xs = map row_ID rows\<close>) (simp add: db_ids_def rows)
  ultimately show ?thesis using s l by (intro exI [of _ xs] conjI) (simp_all only:)
qed

theorem pg_List_reads_all_witness:
  "\<exists>xs. pg_List (demo_pg_env None 10)
     (snd (pg_Save (demo_pg_env None 9) empty_db (demo_incident ''i'' 3))) = Inr xs \<and>
     mset (map inc_ID xs) = {#''i''#}"
proof -
  let ?r = "pg_Save (demo_pg_env None 9) empty_db (demo_incident ''i'' 3)"
  have inv: "db_inv (snd ?r)" by (rule pg_Save_inv [OF db_inv_empty, of _ _ "fst ?r"]) simp
  have up: "\<forall>n. pe_fault (demo_pg_env None 10) n = None" by (simp add: demo_pg_env_def)
  have "db_ids (snd ?r) = [''i'']" by (simp add: pg_eval db_ids_def)
  with pg_List_reads_all [OF inv demo_pg_ok up] show ?thesis by auto
qed

end
