(* ===== verification/Policy.thy ===== *)
theory Policy
  imports Domain
begin

text \<open>
  \<open>internal/policy\<close>: the engine that validates a DAG before it is executed, and what the rules of
  \<open>policies/policies.rego\<close> say of the input that the engine gives them.

  The OPA library is a parameter: \<open>pe_query\<close> is the prepared query (an input to a list of results, or
  an error), and \<open>NewEngine\<close> takes the outcomes of the file system and of the compilation; nothing is
  assumed of either. The rules are part of the repository. Whether OPA compiles them is not decided
  here (the package \<open>opa/v1/rego\<close> that \<open>engine.go\<close> imports asks for \<open>if\<close> before a rule body, which they
  do not have); they are read as predicates on the JSON input, in which a reference to a missing
  field is undefined, and \<open>not e\<close> holds when \<open>e\<close> is undefined or false.
\<close>

section \<open>engine.go\<close>

record rego_result =
  rr_Expressions :: "json list"
  rr_Bindings :: "json gomap"

record policy_engine =
  pe_query :: "json \<Rightarrow> rego_result list result"

fun read_policies :: "(string \<Rightarrow> string result) \<Rightarrow> string list \<Rightarrow> (string \<times> string) list result" where
  "read_policies read [] = Inr []"
| "read_policies read (f # fs) =
     (case read f of
        Inl err \<Rightarrow> Inl (wrap_err (''failed to read policy file '' @ f) err)
      | Inr text \<Rightarrow>
          (case read_policies read fs of Inl err \<Rightarrow> Inl err | Inr ms \<Rightarrow> Inr ((f, text) # ms)))"

definition NewEngine ::
    "(string \<Rightarrow> string list result) \<Rightarrow> (string \<Rightarrow> string result)
      \<Rightarrow> ((string \<times> string) list \<Rightarrow> (json \<Rightarrow> rego_result list result) result)
      \<Rightarrow> string \<Rightarrow> policy_engine result" where
  "NewEngine glob read prepare policyDir =
     (if policyDir = [] then Inl ''policy directory cannot be empty''
      else (case glob policyDir of
        Inl err \<Rightarrow> Inl (wrap_err ''failed to glob policy files'' err)
      | Inr files \<Rightarrow>
          if files = [] then Inl (''no .rego policy files found in '' @ policyDir)
          else (case read_policies read files of
            Inl err \<Rightarrow> Inl err
          | Inr modules \<Rightarrow>
              (case prepare modules of
                 Inl err \<Rightarrow> Inl (wrap_err ''failed to compile Rego policies'' err)
               | Inr query \<Rightarrow> Inr \<lparr>pe_query = query\<rparr>))))"

definition policy_input :: "incident \<Rightarrow> dag \<Rightarrow> json" where
  "policy_input inc dag = JObj [(''dag'', enc_dag dag), (''incident'', enc_incident inc)]"

fun go_type :: "json \<Rightarrow> string" where
  "go_type JNull = ''<nil>''"
| "go_type (JBool b) = ''bool''"
| "go_type (JInt n) = ''json.Number''"
| "go_type (JNum q) = ''json.Number''"
| "go_type (JStr s) = ''string''"
| "go_type (JArr js) = ''[]interface {}''"
| "go_type (JObj kvs) = ''map[string]interface {}''"

definition extractDenyReason :: "json gomap \<Rightarrow> string" where
  "extractDenyReason bindings =
     (case mlookup bindings ''deny_reason'' of Some (JStr reason) \<Rightarrow> reason | _ \<Rightarrow> [])"

definition ValidateDAG :: "policy_engine \<Rightarrow> incident \<Rightarrow> dag \<Rightarrow> error option" where
  \<comment> \<open>None is the nil error: the DAG is allowed\<close>
  "ValidateDAG e inc dag =
     (case pe_query e (policy_input inc dag) of
        Inl err \<Rightarrow> Some (wrap_err ''failed to evaluate policy'' err)
      | Inr [] \<Rightarrow> Some ''policy evaluation returned no results (check policy syntax)''
      | Inr (result # _) \<Rightarrow>
          (case rr_Expressions result of
             [] \<Rightarrow> Some ''policy evaluation returned no expressions''
           | JBool allow # _ \<Rightarrow>
               if \<not> allow then
                 (let denyReason = extractDenyReason (rr_Bindings result) in
                  if denyReason \<noteq> [] then Some (wrap_err ''policy denied'' denyReason)
                  else Some ''policy denied DAG execution'')
               else None
           | v # _ \<Rightarrow> Some (''policy returned non-boolean value for allow_dag: '' @ go_type v)))"

section \<open>policies.rego\<close>

definition ref :: "json option \<Rightarrow> string \<Rightarrow> json option" where
  "ref j k = (case j of Some (JObj kvs) \<Rightarrow> map_of kvs k | _ \<Rightarrow> None)"

definition elements :: "json option \<Rightarrow> json list" where
  "elements j =
     (case j of Some (JArr js) \<Rightarrow> js | Some (JObj kvs) \<Rightarrow> map snd kvs | _ \<Rightarrow> [])"

definition rego_not :: "json option \<Rightarrow> bool" where
  "rego_not j \<longleftrightarrow> j = None \<or> j = Some (JBool False)"

definition forbidden_tools :: "string list" where
  "forbidden_tools =
     [''k8s.applyManifest'', ''k8s.patchResource'', ''k8s.exec'', ''script.shell'', ''helm.delete'']"

definition critical_tools :: "string list" where
  "critical_tools =
     [''kubectl.scale'', ''kubectl.delete'', ''kubectl.apply'', ''helm.rollback'', ''helm.upgrade'']"

definition forbidden_tool :: "json option \<Rightarrow> bool" where
  "forbidden_tool t \<longleftrightarrow> list_ex (\<lambda>s. t = Some (JStr s)) forbidden_tools"

definition critical_tool :: "json option \<Rightarrow> bool" where
  "critical_tool t \<longleftrightarrow> list_ex (\<lambda>s. t = Some (JStr s)) critical_tools"

definition input_tasks :: "json \<Rightarrow> json list" where
  "input_tasks input = elements (ref (ref (Some input) ''dag'') ''Tasks'')"

definition input_prod :: "json \<Rightarrow> bool" where
  "input_prod input \<longleftrightarrow>
     ref (ref (Some input) ''incident'') ''Environment'' = Some (JStr ''prod'')"

definition unapproved :: "json \<Rightarrow> bool" where
  "unapproved task \<longleftrightarrow> rego_not (ref (ref (Some task) ''Approval'') ''Required'')"

definition deny_prod_autoremediation :: "json \<Rightarrow> bool" where
  "deny_prod_autoremediation input \<longleftrightarrow>
     input_prod input \<and> list_ex unapproved (input_tasks input)"

definition deny_forbidden_tools :: "json \<Rightarrow> bool" where
  "deny_forbidden_tools input \<longleftrightarrow>
     list_ex (\<lambda>task. forbidden_tool (ref (Some task) ''Tool'')) (input_tasks input)"

definition deny_missing_approval :: "json \<Rightarrow> bool" where
  "deny_missing_approval input \<longleftrightarrow>
     input_prod input \<and>
     list_ex (\<lambda>task. critical_tool (ref (Some task) ''Tool'') \<and> unapproved task) (input_tasks input)"

definition allow_dag :: "json \<Rightarrow> bool" where
  "allow_dag input \<longleftrightarrow> \<not> deny_prod_autoremediation input \<and>
     \<not> deny_forbidden_tools input \<and> \<not> deny_missing_approval input"

section \<open>What the engine decides\<close>

lemma ref_input [simp]:
  "ref (Some (policy_input inc dag)) ''dag'' = Some (enc_dag dag)"
  "ref (Some (policy_input inc dag)) ''incident'' = Some (enc_incident inc)"
  by (simp_all add: ref_def policy_input_def)

lemma ref_go_names:
  "ref (Some (enc_dag d)) ''Tasks'' = None" "ref (Some (enc_incident i)) ''Environment'' = None"
  by (simp_all add: enc_dag_def enc_incident_def ref_def omitempty_def)

text \<open>
  The rules refer to fields by their Go names (\<open>input.dag.Tasks\<close>, \<open>input.incident.Environment\<close>), but
  the input is the JSON of the structs, whose tags are in lower case, so no deny rule is defined on
  it: an engine that evaluates these rules as they are written allows any DAG in any environment.
\<close>

lemma rules_never_deny: "allow_dag (policy_input inc dag)"
  by (simp add: allow_dag_def deny_prod_autoremediation_def deny_forbidden_tools_def
      deny_missing_approval_def input_prod_def input_tasks_def elements_def ref_go_names)

text \<open>
  C17: the engine fails closed: a DAG is allowed only if the evaluation succeeds and the first
  expression of its first result is the boolean true; errors, empty results and values of any other
  type are rejections.
\<close>

theorem ValidateDAG_fails_closed:
  "ValidateDAG e inc dag = None \<longleftrightarrow>
     (\<exists>r rs es. pe_query e (policy_input inc dag) = Inr (r # rs) \<and> rr_Expressions r = JBool True # es)"
  by (auto simp: ValidateDAG_def Let_def split: sum.splits list.splits json.splits if_splits)

end
