(* ===== verification/Effects.thy ===== *)
theory Effects
  imports Domain
begin

text \<open>
  What the outgoing clients share: HTTP requests and replies, and the trace of what a call did to the
  outside. The network is an argument: \<open>http_env\<close> says whether a URL parses and what a request gets.
  A body is the JSON value it carries; a reply whose text is not JSON has a body \<open>Inl\<close>.
\<close>

record http_request =
  hq_Method :: string
  hq_URL :: string
  hq_ContentType :: string
  hq_Body :: json

record http_reply =
  hr_StatusCode :: int
  hr_Body :: "json result"

record http_env =
  he_new_request :: "string \<Rightarrow> error option"
  he_do :: "http_request \<Rightarrow> http_reply result"

datatype effect =
    HttpSent http_request
  | WorkflowSubmitted json
  | Published string json  \<comment> \<open>a message on the queue: subject and body\<close>

definition json_post :: "string \<Rightarrow> json \<Rightarrow> http_request" where
  "json_post url body =
     \<lparr>hq_Method = ''POST'', hq_URL = url, hq_ContentType = ''application/json'', hq_Body = body\<rparr>"

definition time_marshals :: "time \<Rightarrow> bool" where
  \<comment> \<open>\<open>Time.MarshalJSON\<close> refuses a year outside [0,9999]\<close>
  "time_marshals t \<longleftrightarrow> (case civil_from_days (day_of t) of (y, _) \<Rightarrow> 0 \<le> y \<and> y \<le> 9999)"

definition alert_marshals :: "alert \<Rightarrow> bool" where
  "alert_marshals a \<longleftrightarrow>
     time_marshals (al_StartsAt a) \<and> (case al_EndsAt a of None \<Rightarrow> True | Some t \<Rightarrow> time_marshals t)"

definition incident_marshals :: "incident \<Rightarrow> bool" where
  "incident_marshals i \<longleftrightarrow> list_all alert_marshals (inc_Alerts i) \<and>
     list_all time_marshals [inc_CreatedAt i, inc_UpdatedAt i, inc_FirstAlertAt i, inc_LastAlertAt i]"

definition marshal_error :: error where
  "marshal_error =
     ''json: error calling MarshalJSON for type time.Time: Time.MarshalJSON: year outside of range [0,9999]''"

end
