(* ===== verification/Kagent.thy ===== *)
theory Kagent
  imports Effects
begin

text \<open>
  \<open>internal/kagent/client.go\<close>: the client of the service that investigates an incident and returns a
  plan. The request is built and the response decoded as the code does; the service is \<open>http_env\<close>.
  Confidences are float64 values (as rationals); a configuration constant is encoded as the decimal
  that \<open>encoding/json\<close> writes for it.
\<close>

record kagent_client =
  kc_baseURL :: string

definition NewKagent :: "string \<Rightarrow> kagent_client" where
  "NewKagent baseURL = \<lparr>kc_baseURL = baseURL\<rparr>"

record investigation_config =
  ic_MaxSteps :: int
  ic_MaxDurationSec :: int
  ic_MinRCAConfidence :: rat
  ic_MinPlanConfidence :: rat

record plan_request =
  kq_Incident :: incident
  kq_Topology :: "topology_slice option"
  kq_Policies :: "json gomap"
  kq_InvestigationConfig :: investigation_config

record plan =
  pl_DAG :: dag
  pl_Confidence :: rat
  pl_HumanApprovalRecommended :: bool
  pl_NotesForHuman :: "string list"

record plan_response =
  kp_IncidentID :: string
  kp_PlanID :: string
  kp_RCA :: rca
  kp_Plan :: plan

definition enc_config :: "investigation_config \<Rightarrow> json" where
  "enc_config c = JObj
     [(''maxSteps'', enc_int (ic_MaxSteps c)),
      (''maxDurationSeconds'', enc_int (ic_MaxDurationSec c)),
      (''minRcaConfidence'', JNum (ic_MinRCAConfidence c)),
      (''minPlanConfidence'', JNum (ic_MinPlanConfidence c))]"

definition enc_plan_request :: "plan_request \<Rightarrow> json" where
  "enc_plan_request r = JObj
     ([(''incident'', enc_incident (kq_Incident r))] @
      omitempty (kq_Topology r = None) ''topology'' (enc_ptr enc_topology_slice (kq_Topology r)) @
      omitempty (mempty (kq_Policies r)) ''policies'' (enc_map (\<lambda>j. j) (kq_Policies r)) @
      [(''investigationConfig'', enc_config (kq_InvestigationConfig r))])"

definition dec_plan :: "json \<Rightarrow> plan option" where
  "dec_plan = dec_struct (\<lambda>kvs.
     do { d \<leftarrow> dec_field dec_dag zero_dag ''dag'' kvs;
          c \<leftarrow> dec_field dec_float 0 ''confidence'' kvs;
          h \<leftarrow> dec_field dec_bool False ''humanApprovalRecommended'' kvs;
          n \<leftarrow> dec_field (dec_list dec_str) [] ''notesForHuman'' kvs;
          Some \<lparr>pl_DAG = d, pl_Confidence = c, pl_HumanApprovalRecommended = h, pl_NotesForHuman = n\<rparr> })"

definition zero_plan :: plan where
  "zero_plan = \<lparr>pl_DAG = zero_dag, pl_Confidence = 0, pl_HumanApprovalRecommended = False,
     pl_NotesForHuman = []\<rparr>"

definition dec_plan_response :: "json \<Rightarrow> plan_response option" where
  "dec_plan_response = dec_struct (\<lambda>kvs.
     do { i \<leftarrow> dec_field dec_str [] ''incidentId'' kvs;
          p \<leftarrow> dec_field dec_str [] ''planId'' kvs;
          r \<leftarrow> dec_field dec_rca zero_rca ''rca'' kvs;
          pl \<leftarrow> dec_field dec_plan zero_plan ''plan'' kvs;
          Some \<lparr>kp_IncidentID = i, kp_PlanID = p, kp_RCA = r, kp_Plan = pl\<rparr> })"

definition plan_result :: "plan_response \<Rightarrow> investigation_result" where
  "plan_result r =
     \<lparr>ir_IncidentID = kp_IncidentID r, ir_PlanID = kp_PlanID r, ir_RCA = kp_RCA r,
      ir_DAG = pl_DAG (kp_Plan r), ir_PlanConfidence = pl_Confidence (kp_Plan r),
      ir_HumanApprovalNeeded = pl_HumanApprovalRecommended (kp_Plan r)\<rparr>"

definition plan_http_request :: "kagent_client \<Rightarrow> plan_request \<Rightarrow> http_request" where
  "plan_http_request c req = json_post (kc_baseURL c @ ''/v1/incidents/plan'') (enc_plan_request req)"

definition InvestigateAndPlan ::
    "http_env \<Rightarrow> kagent_client \<Rightarrow> plan_request \<Rightarrow> investigation_result result \<times> effect list" where
  "InvestigateAndPlan e c req =
     (if \<not> incident_marshals (kq_Incident req) then (Inl (wrap_err ''marshal request'' marshal_error), [])
      else (case he_new_request e (kc_baseURL c @ ''/v1/incidents/plan'') of
        Some err \<Rightarrow> (Inl (wrap_err ''new request'' err), [])
      | None \<Rightarrow>
          (case he_do e (plan_http_request c req) of
             Inl err \<Rightarrow> (Inl (wrap_err ''http'' err), [HttpSent (plan_http_request c req)])
           | Inr resp \<Rightarrow>
               (if hr_StatusCode resp \<noteq> 200
                then Inl (''unexpected status '' @ show_int (hr_StatusCode resp))
                else (case hr_Body resp of
                  Inl err \<Rightarrow> Inl (wrap_err ''decode response'' err)
                | Inr j \<Rightarrow>
                    (case dec_plan_response j of
                       None \<Rightarrow> Inl (wrap_err ''decode response'' json_error)
                     | Some r \<Rightarrow> Inr (plan_result r))),
                [HttpSent (plan_http_request c req)]))))"

lemma InvestigateAndPlan_effects:
  "snd (InvestigateAndPlan e c req) = [] \<or>
   snd (InvestigateAndPlan e c req) = [HttpSent (plan_http_request c req)]"
  by (simp add: InvestigateAndPlan_def split: option.split sum.split)

section \<open>What a response yields\<close>

definition finite_float :: "rat \<Rightarrow> bool" where
  \<comment> \<open>a finite float64\<close>
  "finite_float q \<longleftrightarrow> float64 q = q \<and> \<bar>q\<bar> < 2 ^ 1024"

lemma dec_float_finite: "dec_float j = Some q \<Longrightarrow> finite_float q"
  unfolding finite_float_def by (rule dec_float_SomeD)

lemma finite_float_0 [simp]: "finite_float 0"
  by (simp add: finite_float_def)

definition plan_typed :: "plan \<Rightarrow> bool" where
  "plan_typed p \<longleftrightarrow> dag_typed (pl_DAG p) \<and> finite_float (pl_Confidence p)"

lemma dec_plan_typed:
  assumes "dec_plan j = Some p"
  shows "plan_typed p"
  using assms unfolding dec_plan_def
proof (rule dec_struct_holds)
  fix kvs p
  assume "do { d \<leftarrow> dec_field dec_dag zero_dag ''dag'' kvs;
          c \<leftarrow> dec_field dec_float 0 ''confidence'' kvs;
          h \<leftarrow> dec_field dec_bool False ''humanApprovalRecommended'' kvs;
          n \<leftarrow> dec_field (dec_list dec_str) [] ''notesForHuman'' kvs;
          Some \<lparr>pl_DAG = d, pl_Confidence = c, pl_HumanApprovalRecommended = h, pl_NotesForHuman = n\<rparr> } = Some p"
  then have f: "dec_field dec_dag zero_dag ''dag'' kvs = Some (pl_DAG p)"
    "dec_field dec_float 0 ''confidence'' kvs = Some (pl_Confidence p)"
    by (auto split: Option.bind_splits)
  have "dag_typed (pl_DAG p)"
    by (rule dec_field_holds [OF f(1)]) (simp, rule dec_dag_typed)
  moreover have "finite_float (pl_Confidence p)"
    by (rule dec_field_holds [OF f(2)]) (simp, rule dec_float_finite)
  ultimately show "plan_typed p" by (simp add: plan_typed_def)
qed

lemma dec_plan_response_typed:
  assumes "dec_plan_response j = Some r"
  shows "plan_typed (kp_Plan r)"
  using assms unfolding dec_plan_response_def
proof (rule dec_struct_holds)
  fix kvs r
  assume "do { i \<leftarrow> dec_field dec_str [] ''incidentId'' kvs;
          p \<leftarrow> dec_field dec_str [] ''planId'' kvs;
          r \<leftarrow> dec_field dec_rca zero_rca ''rca'' kvs;
          pl \<leftarrow> dec_field dec_plan zero_plan ''plan'' kvs;
          Some \<lparr>kp_IncidentID = i, kp_PlanID = p, kp_RCA = r, kp_Plan = pl\<rparr> } = Some r"
  then have f: "dec_field dec_plan zero_plan ''plan'' kvs = Some (kp_Plan r)"
    by (auto split: Option.bind_splits)
  show "plan_typed (kp_Plan r)"
    by (rule dec_field_holds [OF f]) (simp add: zero_plan_def plan_typed_def, rule dec_plan_typed)
qed

lemma InvestigateAndPlan_result:
  "fst (InvestigateAndPlan e c req) = Inr result \<longleftrightarrow>
     incident_marshals (kq_Incident req) \<and> he_new_request e (kc_baseURL c @ ''/v1/incidents/plan'') = None \<and>
     (\<exists>j r. he_do e (plan_http_request c req) = Inr \<lparr>hr_StatusCode = 200, hr_Body = Inr j\<rparr> \<and>
        dec_plan_response j = Some r \<and> result = plan_result r)"
proof -
  have ext: "resp = \<lparr>hr_StatusCode = 200, hr_Body = b\<rparr> \<longleftrightarrow> hr_StatusCode resp = 200 \<and> hr_Body resp = b" for resp :: http_reply and b
    by (cases resp) auto
  show ?thesis
    by (auto simp: InvestigateAndPlan_def ext split: option.splits sum.splits)
qed

lemma InvestigateAndPlan_typed:
  assumes "fst (InvestigateAndPlan e c req) = Inr result"
  shows "dag_typed (ir_DAG result) \<and> finite_float (ir_PlanConfidence result)"
  using assms dec_plan_response_typed
  by (auto simp: InvestigateAndPlan_result plan_result_def plan_typed_def)

text \<open>
  C18: the client returns a plan exactly when the incident can be encoded, the request can be built,
  the service answers with status 200 and the body decodes; and then the plan is what it decoded to,
  with integers that fit an int, inputs that reading again does not change and a confidence that is
  a finite float64. In every other case it returns an error, and it never sends more than one request.
\<close>

theorem InvestigateAndPlan_plan_typed:
  "(fst (InvestigateAndPlan e c req) = Inr result \<longleftrightarrow>
      incident_marshals (kq_Incident req) \<and> he_new_request e (kc_baseURL c @ ''/v1/incidents/plan'') = None \<and>
      (\<exists>j r. he_do e (plan_http_request c req) = Inr \<lparr>hr_StatusCode = 200, hr_Body = Inr j\<rparr> \<and>
         dec_plan_response j = Some r \<and> result = plan_result r)) \<and>
   (case fst (InvestigateAndPlan e c req) of
      Inl err \<Rightarrow> True
    | Inr result \<Rightarrow> dag_typed (ir_DAG result) \<and> finite_float (ir_PlanConfidence result)) \<and>
   length (snd (InvestigateAndPlan e c req)) \<le> 1"
  using InvestigateAndPlan_result [of e c req result] InvestigateAndPlan_typed [of e c req]
    InvestigateAndPlan_effects [of e c req]
  by (auto split: sum.split)

end
