(* ===== verification/Slack.thy ===== *)
theory Slack
  imports Effects
begin

text \<open>
  \<open>internal/slack/slack.go\<close>: the webhook client. A nil client is None, and posting through it does
  nothing; a status of 300 or more is only logged.
\<close>

record slack_client =
  sl_webhookURL :: string

definition NewSlack :: "string \<Rightarrow> slack_client option" where
  "NewSlack webhookURL = (if webhookURL = [] then None else Some \<lparr>sl_webhookURL = webhookURL\<rparr>)"

definition slack_post :: "slack_client \<Rightarrow> string \<Rightarrow> http_request" where
  "slack_post c text = json_post (sl_webhookURL c) (JObj [(''text'', JStr text)])"

definition PostMessage :: "http_env \<Rightarrow> slack_client option \<Rightarrow> string \<Rightarrow> error option \<times> effect list" where
  "PostMessage e c text =
     (case c of
        None \<Rightarrow> (None, [])
      | Some c \<Rightarrow>
          (case he_new_request e (sl_webhookURL c) of
             Some err \<Rightarrow> (Some err, [])
           | None \<Rightarrow>
               ((case he_do e (slack_post c text) of Inl err \<Rightarrow> Some err | Inr resp \<Rightarrow> None),
                [HttpSent (slack_post c text)])))"

definition show_bool :: "bool \<Rightarrow> string" where
  "show_bool b = (if b then ''true'' else ''false'')"

definition rca_text :: "incident \<Rightarrow> rca \<Rightarrow> bool \<Rightarrow> string" where
  "rca_text inc r humanNeeded =
     ''*Incident* '' @ inc_ID inc @ '' ('' @ inc_Cluster inc @ ''/'' @ inc_Service inc @ '')'' @ [CHR 0x0A] @
     ''*Severity*: '' @ inc_Severity inc @ [CHR 0x0A] @
     ''*RCA ('' @ format_fixed2 (rca_Confidence r) @ '')*: '' @ rca_Summary r @ [CHR 0x0A] @
     ''*Human approval needed*: '' @ show_bool humanNeeded"

definition PostRCA ::
    "http_env \<Rightarrow> slack_client option \<Rightarrow> incident \<Rightarrow> rca \<Rightarrow> rat \<Rightarrow> bool \<Rightarrow> error option \<times> effect list" where
  \<comment> \<open>the confidence of the plan is taken and not used\<close>
  "PostRCA e c inc r planConf humanNeeded =
     (case c of None \<Rightarrow> (None, []) | Some _ \<Rightarrow> PostMessage e c (rca_text inc r humanNeeded))"

lemma slack_effects:
  "ef \<in> set (snd (PostMessage e c text)) \<Longrightarrow> \<exists>q. ef = HttpSent q"
  "ef \<in> set (snd (PostRCA e c inc r pc h)) \<Longrightarrow> \<exists>q. ef = HttpSent q"
  by (auto simp: PostMessage_def PostRCA_def split: option.splits)

end
