(* ===== verification/Argo_Client.thy ===== *)
theory Argo_Client
  imports Effects
begin

text \<open>
  \<open>internal/argo/client.go\<close>: the translation of a DAG into an Argo Workflow and its submission. The
  Kubernetes API is an argument (\<open>argo_env\<close>); a workflow is the JSON value of the unstructured object.
  \<open>marshal\<close> is the text that \<open>json.Marshal\<close> writes for a value: the inputs of a task travel as a text
  inside a parameter.
\<close>

record argo_client =
  ag_Namespace :: string
  ag_initialized :: bool  \<comment> \<open>whether \<open>workflowClient\<close> is set\<close>

record argo_env =
  ae_now :: time
  ae_create :: "json \<Rightarrow> error option"
  ae_get :: "string \<Rightarrow> json result"

definition NewArgo :: "string \<Rightarrow> argo_client" where
  "NewArgo namespace = \<lparr>ag_Namespace = namespace, ag_initialized = False\<rparr>"

definition NewWithKubeconfig :: "unit result \<Rightarrow> unit result \<Rightarrow> string \<Rightarrow> argo_client result" where
  "NewWithKubeconfig config dyn_client namespace =
     (case config of
        Inl e \<Rightarrow> Inl (wrap_err ''failed to build kubeconfig'' e)
      | Inr _ \<Rightarrow> (case dyn_client of
          Inl e \<Rightarrow> Inl (wrap_err ''failed to create dynamic client'' e)
        | Inr _ \<Rightarrow> Inr \<lparr>ag_Namespace = namespace, ag_initialized = True\<rparr>))"

definition InitializeArgo :: "unit result \<Rightarrow> unit result \<Rightarrow> argo_client \<Rightarrow> error option \<times> argo_client" where
  "InitializeArgo config dyn_client c =
     (case config of
        Inl e \<Rightarrow> (Some (wrap_err ''failed to get in-cluster config'' e), c)
      | Inr _ \<Rightarrow> (case dyn_client of
          Inl e \<Rightarrow> (Some (wrap_err ''failed to create dynamic client'' e), c)
        | Inr _ \<Rightarrow> (None, c\<lparr>ag_initialized := True\<rparr>)))"

definition param :: "string \<Rightarrow> string \<Rightarrow> json" where
  "param n v = JObj [(''name'', JStr n), (''value'', JStr v)]"

definition argo_task :: "(json \<Rightarrow> string) \<Rightarrow> dag_task \<Rightarrow> json" where
  "argo_task marshal t = JObj
     ([(''name'', JStr (tk_ID t)),
       (''template'', JStr ''dag-task-runner''),
       (''arguments'', JObj [(''parameters'', JArr
          [param ''task_id'' (tk_ID t), param ''task_name'' (tk_Name t), param ''task_tool'' (tk_Tool t),
           param ''task_inputs'' (marshal (enc_inputs (tk_Inputs t)))])])] @
      (if tk_RunAfter t \<noteq> [] then [(''dependencies'', enc_list JStr (tk_RunAfter t))] else []))"

definition dag_template :: "(json \<Rightarrow> string) \<Rightarrow> dag \<Rightarrow> json" where
  \<comment> \<open>without a task \<open>argoTasks\<close> stays the nil slice, which is null\<close>
  "dag_template marshal d = JObj
     [(''name'', JStr ''remediation-dag''),
      (''dag'', JObj [(''tasks'', if dag_Tasks d = [] then JNull
                               else JArr (map (argo_task marshal) (dag_Tasks d)))])]"

definition security_context :: json where
  "security_context = JObj
     [(''runAsNonRoot'', JBool True), (''runAsUser'', enc_int 1000), (''fsGroup'', enc_int 1000),
      (''runAsGroup'', enc_int 1000),
      (''seccompProfile'', JObj [(''type'', JStr ''RuntimeDefault'')]),
      (''readOnlyRootFilesystem'', JBool True), (''allowPrivilegeEscalation'', JBool False),
      (''capabilities'', JObj [(''drop'', enc_list JStr [''ALL''])])]"

definition runner_resources :: json where
  "runner_resources = JObj
     [(''requests'', JObj [(''cpu'', JStr ''100m''), (''memory'', JStr ''128Mi'')]),
      (''limits'', JObj [(''cpu'', JStr ''500m''), (''memory'', JStr ''512Mi'')])]"

definition runner_env :: "dag \<Rightarrow> (string \<times> string) list" where
  "runner_env d = [(''INCIDENT_ID'', dag_IncidentID d), (''PLAN_ID'', dag_PlanID d), (''ALLOW_SCRIPT'', ''false'')]"

definition runner_args :: "string list" where
  "runner_args =
     [''--task-id={{inputs.parameters.task_id}}'', ''--task-name={{inputs.parameters.task_name}}'',
      ''--tool={{inputs.parameters.task_tool}}'', ''--inputs={{inputs.parameters.task_inputs}}'']"

definition runner_template :: "dag \<Rightarrow> json" where
  "runner_template d = JObj
     [(''name'', JStr ''dag-task-runner''),
      (''inputs'', JObj [(''parameters'', JArr
         (map (\<lambda>n. JObj [(''name'', JStr n)]) [''task_id'', ''task_name'', ''task_tool'', ''task_inputs'']))]),
      (''container'', JObj
         [(''image'', JStr ''ghcr.io/arruko/torvyn-dag-runner:latest''),
          (''command'', enc_list JStr [''/app/dag-runner'']),
          (''args'', enc_list JStr runner_args),
          (''env'', JArr (map (\<lambda>(n, v). param n v) (runner_env d))),
          (''securityContext'', security_context),
          (''resources'', runner_resources)])]"

record group_version_resource =
  gv_Group :: string
  gv_Version :: string
  gv_Resource :: string

definition WorkflowGVR :: group_version_resource where
  "WorkflowGVR = \<lparr>gv_Group = ''argoproj.io'', gv_Version = ''v1alpha1'', gv_Resource = ''workflows''\<rparr>"

definition dagToWorkflow :: "(json \<Rightarrow> string) \<Rightarrow> argo_client \<Rightarrow> string \<Rightarrow> dag \<Rightarrow> json" where
  "dagToWorkflow marshal c name d = JObj
     [(''apiVersion'', JStr ''argoproj.io/v1alpha1''),
      (''kind'', JStr ''Workflow''),
      (''metadata'', JObj
         [(''name'', JStr name), (''namespace'', JStr (ag_Namespace c)),
          (''labels'', JObj
             [(''app.kubernetes.io/name'', JStr ''sentientd''),
              (''app.kubernetes.io/component'', JStr ''remediation''),
              (''torvyn.io/incident-id'', JStr (dag_IncidentID d))]),
          (''annotations'', JObj
             [(''torvyn.io/incident-id'', JStr (dag_IncidentID d)),
              (''torvyn.io/generated-by'', JStr ''sentientd'')])]),
      (''spec'', JObj
         [(''serviceAccountName'', JStr ''argo-workflow''),
          (''entrypoint'', JStr ''remediation-dag''),
          (''templates'', JArr [dag_template marshal d, runner_template d])])]"

definition workflow_name :: "argo_env \<Rightarrow> dag \<Rightarrow> string" where
  "workflow_name e d = ''remediation-'' @ dag_IncidentID d @ ''-'' @ show_int (time_unix (ae_now e))"

definition CreateWorkflowForDAG ::
    "(json \<Rightarrow> string) \<Rightarrow> argo_env \<Rightarrow> argo_client \<Rightarrow> dag \<Rightarrow> error option \<times> effect list" where
  "CreateWorkflowForDAG marshal e c d =
     (if \<not> ag_initialized c then (None, [])
      else (let w = dagToWorkflow marshal c (workflow_name e d) d in
        (map_option (wrap_err ''failed to create workflow'') (ae_create e w), [WorkflowSubmitted w])))"

fun nested :: "string list \<Rightarrow> json \<Rightarrow> json option" where
  "nested [] j = Some j"
| "nested (k # ks) (JObj kvs) = (case map_of kvs k of None \<Rightarrow> None | Some j \<Rightarrow> nested ks j)"
| "nested (k # ks) j = None"

definition GetWorkflowStatus :: "argo_env \<Rightarrow> argo_client \<Rightarrow> string \<Rightarrow> string \<times> error option" where
  "GetWorkflowStatus e c name =
     (if \<not> ag_initialized c then (''unknown'', Some ''workflow client not initialized'')
      else (case ae_get e name of
        Inl err \<Rightarrow> ([], Some (wrap_err ''failed to get workflow'' err))
      | Inr w \<Rightarrow> (case nested [''status'', ''phase''] w of Some (JStr s) \<Rightarrow> (s, None) | _ \<Rightarrow> (''unknown'', None))))"

section \<open>Reading a workflow\<close>

text \<open>
  How Argo reads the object: the tasks of the template that is the entrypoint, and the container of
  the template a task names.
\<close>

definition jstr :: "json option \<Rightarrow> string" where
  "jstr j = (case j of Some (JStr s) \<Rightarrow> s | _ \<Rightarrow> [])"

definition jarr :: "json option \<Rightarrow> json list" where
  "jarr j = (case j of Some (JArr js) \<Rightarrow> js | _ \<Rightarrow> [])"

definition template_named :: "json \<Rightarrow> string \<Rightarrow> json option" where
  "template_named w n =
     List.find (\<lambda>t. nested [''name''] t = Some (JStr n)) (jarr (nested [''spec'', ''templates''] w))"

definition workflow_tasks :: "json \<Rightarrow> json list" where
  "workflow_tasks w =
     (case template_named w (jstr (nested [''spec'', ''entrypoint''] w)) of
        None \<Rightarrow> [] | Some t \<Rightarrow> jarr (nested [''dag'', ''tasks''] t))"

definition task_param :: "json \<Rightarrow> string \<Rightarrow> string" where
  "task_param t n =
     (case List.find (\<lambda>p. nested [''name''] p = Some (JStr n)) (jarr (nested [''arguments'', ''parameters''] t)) of
        None \<Rightarrow> [] | Some p \<Rightarrow> jstr (nested [''value''] p))"

definition task_container :: "json \<Rightarrow> json \<Rightarrow> json option" where
  "task_container w t =
     (case template_named w (jstr (nested [''template''] t)) of
        None \<Rightarrow> None | Some tm \<Rightarrow> nested [''container''] tm)"

definition container_env :: "json option \<Rightarrow> string \<Rightarrow> string" where
  "container_env c n =
     (case c of None \<Rightarrow> [] | Some c \<Rightarrow>
       (case List.find (\<lambda>p. nested [''name''] p = Some (JStr n)) (jarr (nested [''env''] c)) of
          None \<Rightarrow> [] | Some p \<Rightarrow> jstr (nested [''value''] p)))"

lemmas workflow_eval =
  dagToWorkflow_def dag_template_def runner_template_def template_named_def workflow_tasks_def
  jarr_def jstr_def

lemma template_dag [simp]:
  "template_named (dagToWorkflow m c n d) ''remediation-dag'' = Some (dag_template m d)"
  by (simp add: template_named_def dagToWorkflow_def jarr_def) (simp add: dag_template_def)

lemma template_runner [simp]:
  "template_named (dagToWorkflow m c n d) ''dag-task-runner'' = Some (runner_template d)"
  by (simp add: template_named_def dagToWorkflow_def jarr_def)
    (simp add: dag_template_def runner_template_def)

lemma workflow_tasks_eq [simp]:
  "workflow_tasks (dagToWorkflow m c n d) = map (argo_task m) (dag_Tasks d)"
proof -
  have "nested [''spec'', ''entrypoint''] (dagToWorkflow m c n d) = Some (JStr ''remediation-dag'')"
    by (simp add: dagToWorkflow_def)
  then show ?thesis
    by (simp add: workflow_tasks_def jstr_def) (simp add: dag_template_def jarr_def)
qed

text \<open>
  A workflow executes the DAG: its tasks, in order, carry the IDs of the DAG's tasks, their name
  and tool, the text of their inputs, and exactly their dependencies; each runs in the container of
  the runner template, where script execution is switched off.
\<close>

theorem workflow_executes_dag:
  "let w = dagToWorkflow marshal c name d in
   list_all2 (\<lambda>t a. nested [''name''] a = Some (JStr (tk_ID t)) \<and>
       task_param a ''task_id'' = tk_ID t \<and> task_param a ''task_name'' = tk_Name t \<and>
       task_param a ''task_tool'' = tk_Tool t \<and>
       task_param a ''task_inputs'' = marshal (enc_inputs (tk_Inputs t)) \<and>
       jarr (nested [''dependencies''] a) = map JStr (tk_RunAfter t) \<and>
       container_env (task_container w a) ''ALLOW_SCRIPT'' = ''false'' \<and>
       container_env (task_container w a) ''INCIDENT_ID'' = dag_IncidentID d)
     (dag_Tasks d) (workflow_tasks w)"
proof -
  let ?w = "dagToWorkflow marshal c name d"
  have tmpl: "jstr (nested [''template''] (argo_task marshal t)) = ''dag-task-runner''" for t
    by (simp add: argo_task_def jstr_def)
  have cont: "task_container ?w (argo_task marshal t) = nested [''container''] (runner_template d)" for t
    by (simp add: task_container_def tmpl)
  have env: "container_env (nested [''container''] (runner_template d)) ''ALLOW_SCRIPT'' = ''false''"
    "container_env (nested [''container''] (runner_template d)) ''INCIDENT_ID'' = dag_IncidentID d"
    by (simp_all add: container_env_def runner_template_def jarr_def jstr_def runner_env_def param_def)
  have ps: "task_param (argo_task marshal t) ''task_id'' = tk_ID t"
    "task_param (argo_task marshal t) ''task_name'' = tk_Name t"
    "task_param (argo_task marshal t) ''task_tool'' = tk_Tool t"
    "task_param (argo_task marshal t) ''task_inputs'' = marshal (enc_inputs (tk_Inputs t))" for t
    by (simp_all add: task_param_def argo_task_def jarr_def jstr_def param_def)
  have deps: "jarr (nested [''dependencies''] (argo_task marshal t)) = map JStr (tk_RunAfter t)" for t
    by (simp add: argo_task_def jarr_def enc_list_def)
  have nm: "nested [''name''] (argo_task marshal t) = Some (JStr (tk_ID t))" for t
    by (simp add: argo_task_def)
  show ?thesis
    by (simp add: Let_def list.rel_map nm ps deps cont env list.rel_refl del: nested.simps)
qed

text \<open>The object that is created is of the group and version that the client was opened for.\<close>

lemma workflow_api_version:
  "nested [''apiVersion''] (dagToWorkflow marshal c name d) =
     Some (JStr (gv_Group WorkflowGVR @ ''/'' @ gv_Version WorkflowGVR))"
  by (simp add: dagToWorkflow_def WorkflowGVR_def)

end
