(* ===== verification/Investigation.thy ===== *)
theory Investigation
  imports Store_Postgres Policy Kagent Slack Argo_Client
begin

text \<open>
  \<open>internal/investigation/engine.go\<close>: reads an incident, asks the planning service for a DAG, has the
  policy engine validate it, tells Slack, and submits the workflow. The result is the error and the
  trace of what was sent out, in order. The engine is written against the interface of the store.
\<close>

record ('s, 'e) investigation_engine =
  en_store :: "('s, 'e) incident_store"
  en_kagent :: kagent_client
  en_argo :: argo_client
  en_slack :: "slack_client option"
  en_policy :: "policy_engine option"

record 'e investigation_env =
  iv_store :: 'e
  iv_http :: http_env
  iv_argo :: argo_env
  iv_marshal :: "json \<Rightarrow> string"

definition NewInvestigation ::
    "('s, 'e) incident_store \<Rightarrow> kagent_client \<Rightarrow> argo_client \<Rightarrow> slack_client option
      \<Rightarrow> policy_engine option \<Rightarrow> ('s, 'e) investigation_engine" where
  "NewInvestigation st k a s p =
     \<lparr>en_store = st, en_kagent = k, en_argo = a, en_slack = s, en_policy = p\<rparr>"

definition allowed_tools :: "string list" where
  "allowed_tools =
     [''github.createPullRequest'', ''github.waitForMerge'', ''ci.waitForPipeline'',
      ''argoCD.waitForSync'', ''observability.checkForDuration'', ''k8s.getResource'',
      ''k8s.listPods'', ''prom.query'', ''grafana.query'', ''alertmanager.query'']"

definition request_forbidden_tools :: "string list" where
  "request_forbidden_tools = [''k8s.applyManifest'', ''k8s.patchResource'', ''k8s.exec'']"

definition investigation_request :: "incident \<Rightarrow> plan_request" where
  "investigation_request inc =
     \<lparr>kq_Incident = inc, kq_Topology = inc_TopologyContext inc,
      kq_Policies = Some (fmap_of_list
        [(''environment'', JStr (inc_Environment inc)),
         (''allowDirectK8sMutation'', JBool False),
         (''allowedTools'', enc_list JStr allowed_tools),
         (''forbiddenTools'', enc_list JStr request_forbidden_tools)]),
      kq_InvestigationConfig =
        \<lparr>ic_MaxSteps = 12, ic_MaxDurationSec = 600, ic_MinRCAConfidence = 6 / 10, ic_MinPlanConfidence = 6 / 10\<rparr>\<rparr>"

definition nl :: string where
  "nl = [CHR 0x0A]"

definition no_entry_sign :: string where
  "no_entry_sign = [CHR 0xE2, CHR 0x9B, CHR 0x94]"

definition cross_mark :: string where
  "cross_mark = [CHR 0xE2, CHR 0x9D, CHR 0x8C]"

definition rejection_text :: "string \<Rightarrow> incident \<Rightarrow> error \<Rightarrow> string" where
  "rejection_text incID inc err =
     no_entry_sign @ '' *Remediation Plan Rejected by Policy*'' @ nl @ nl @
     ''Incident: '' @ incID @ nl @
     ''Service: '' @ inc_Service inc @ nl @
     ''Environment: '' @ inc_Environment inc @ nl @ nl @
     ''*Reason*: '' @ err @ nl @ nl @
     ''The proposed remediation plan violated safety policies and was NOT executed. '' @
     ''Manual intervention may be required.''"

definition failure_text :: "string \<Rightarrow> error \<Rightarrow> string" where
  "failure_text incID err =
     cross_mark @ '' *Workflow Creation Failed*'' @ nl @ nl @
     ''Incident: '' @ incID @ nl @ ''Error: '' @ err"

definition min_confidence :: rat where
  \<comment> \<open>the float64 constant 0.6\<close>
  "min_confidence = float64 (6 / 10)"

definition execute_plan ::
    "('s, 'e) investigation_engine \<Rightarrow> 'e investigation_env \<Rightarrow> string \<Rightarrow> incident \<Rightarrow> investigation_result
      \<Rightarrow> error option \<times> effect list" where
  \<comment> \<open>from the notification on, once the plan has passed the policies\<close>
  "execute_plan en e incID inc result =
     (let rca_trace = snd (PostRCA (iv_http e) (en_slack en) inc (ir_RCA result) (ir_PlanConfidence result)
                             (ir_HumanApprovalNeeded result))
      in if ir_PlanConfidence result \<ge> min_confidence then
           (case CreateWorkflowForDAG (iv_marshal e) (iv_argo e) (en_argo en) (ir_DAG result) of
              (Some err, wf_trace) \<Rightarrow>
                (Some err, rca_trace @ wf_trace @
                   snd (PostMessage (iv_http e) (en_slack en) (failure_text incID err)))
            | (None, wf_trace) \<Rightarrow> (None, rca_trace @ wf_trace))
         else (None, rca_trace))"

definition reject_plan ::
    "('s, 'e) investigation_engine \<Rightarrow> 'e investigation_env \<Rightarrow> string \<Rightarrow> incident \<Rightarrow> investigation_result
      \<Rightarrow> error \<Rightarrow> effect list" where
  "reject_plan en e incID inc result err =
     snd (PostRCA (iv_http e) (en_slack en) inc (ir_RCA result) (ir_PlanConfidence result) True) @
     snd (PostMessage (iv_http e) (en_slack en) (rejection_text incID inc err))"

definition InvestigateIncident ::
    "('s, 'e) investigation_engine \<Rightarrow> 'e investigation_env \<Rightarrow> 's \<Rightarrow> string \<Rightarrow> error option \<times> effect list" where
  "InvestigateIncident en e s incID =
     (case st_GetByID (en_store en) (iv_store e) s incID of
        Inl err \<Rightarrow> (Some err, [])
      | Inr None \<Rightarrow> (None, [])
      | Inr (Some inc) \<Rightarrow>
          (case InvestigateAndPlan (iv_http e) (en_kagent en) (investigation_request inc) of
             (Inl err, tr) \<Rightarrow> (Some err, tr)
           | (Inr result, tr) \<Rightarrow>
               (case (case en_policy en of None \<Rightarrow> None | Some p \<Rightarrow> ValidateDAG p inc (ir_DAG result)) of
                  Some err \<Rightarrow> (Some err, tr @ reject_plan en e incID inc result err)
                | None \<Rightarrow>
                    (case execute_plan en e incID inc result of (err, tr') \<Rightarrow> (err, tr @ tr')))))"

section \<open>What an investigation does\<close>

definition planned ::
    "('s, 'e) investigation_engine \<Rightarrow> 'e investigation_env \<Rightarrow> 's \<Rightarrow> string \<Rightarrow> (incident \<times> investigation_result) option" where
  \<comment> \<open>the incident and the plan the service returned for it, if the investigation gets that far\<close>
  "planned en e s incID =
     (case st_GetByID (en_store en) (iv_store e) s incID of
        Inr (Some inc) \<Rightarrow>
          (case fst (InvestigateAndPlan (iv_http e) (en_kagent en) (investigation_request inc)) of
             Inr result \<Rightarrow> Some (inc, result)
           | Inl _ \<Rightarrow> None)
      | _ \<Rightarrow> None)"

lemma planned_marshal [simp]: "planned en (e\<lparr>iv_marshal := m\<rparr>) s incID = planned en e s incID"
  by (simp add: planned_def cong: sum.case_cong option.case_cong)

definition passes :: "policy_engine option \<Rightarrow> incident \<Rightarrow> dag \<Rightarrow> bool" where
  "passes p inc d = (case p of None \<Rightarrow> True | Some p \<Rightarrow> ValidateDAG p inc d = None)"

fun workflows :: "effect list \<Rightarrow> json list" where
  "workflows [] = []"
| "workflows (WorkflowSubmitted w # tr) = w # workflows tr"
| "workflows (_ # tr) = workflows tr"

lemma workflow_in_trace: "wk \<in> set (workflows tr) \<longleftrightarrow> WorkflowSubmitted wk \<in> set tr"
  by (induction tr rule: workflows.induct) auto

lemma workflows_append [simp]: "workflows (xs @ ys) = workflows xs @ workflows ys"
  by (induction xs rule: workflows.induct) simp_all

lemma workflows_none: "(\<And>ef. ef \<in> set tr \<Longrightarrow> \<exists>q. ef = HttpSent q) \<Longrightarrow> workflows tr = []"
  by (induction tr rule: workflows.induct) auto

lemma workflows_slack [simp]:
  "workflows (snd (PostMessage e c text)) = []" "workflows (snd (PostRCA e c inc r pc h)) = []"
  by (rule workflows_none, erule slack_effects)+

lemma workflows_kagent [simp]: "workflows (snd (InvestigateAndPlan e c req)) = []"
  using InvestigateAndPlan_effects [of e c req] by (auto simp:)

lemma workflows_argo:
  "workflows (snd (CreateWorkflowForDAG m e c d)) =
     (if ag_initialized c then [dagToWorkflow m c (workflow_name e d) d] else [])"
  by (simp add: CreateWorkflowForDAG_def Let_def)

lemma workflows_execute_plan:
  "workflows (snd (execute_plan en e incID inc result)) =
     (if ir_PlanConfidence result \<ge> min_confidence \<and> ag_initialized (en_argo en)
      then [dagToWorkflow (iv_marshal e) (en_argo en) (workflow_name (iv_argo e) (ir_DAG result)) (ir_DAG result)]
      else [])"
  using workflows_argo [of "iv_marshal e" "iv_argo e" "en_argo en" "ir_DAG result"]
  by (auto simp: execute_plan_def Let_def split: prod.splits option.splits)

lemma workflows_of_investigation:
  "workflows (snd (InvestigateIncident en e s incID)) =
     (case planned en e s incID of
        None \<Rightarrow> []
      | Some (inc, result) \<Rightarrow>
          if passes (en_policy en) inc (ir_DAG result) \<and> ir_PlanConfidence result \<ge> min_confidence \<and>
             ag_initialized (en_argo en)
          then [dagToWorkflow (iv_marshal e) (en_argo en) (workflow_name (iv_argo e) (ir_DAG result)) (ir_DAG result)]
          else [])"
proof (cases "st_GetByID (en_store en) (iv_store e) s incID")
  case (Inr found)
  show ?thesis
  proof (cases found)
    case (Some inc)
    let ?k = "InvestigateAndPlan (iv_http e) (en_kagent en) (investigation_request inc)"
    have tr: "workflows (snd ?k) = []" by simp
    show ?thesis
    proof (cases "fst ?k")
      case (Inl err)
      then obtain t where k: "?k = (Inl err, t)" by (metis prod.collapse)
      with tr Inr Some show ?thesis by (simp add: InvestigateIncident_def planned_def)
    next
      case plan: (Inr result)
      then obtain t where k: "?k = (Inr result, t)" by (metis prod.collapse)
      with tr have t: "workflows t = []" by simp
      show ?thesis
      proof (cases "passes (en_policy en) inc (ir_DAG result)")
        case True
        then have "(case en_policy en of None \<Rightarrow> None | Some p \<Rightarrow> ValidateDAG p inc (ir_DAG result)) = None"
          by (auto simp: passes_def split: option.splits)
        with Inr Some k t True workflows_execute_plan [of en e incID inc result] show ?thesis
          by (simp add: InvestigateIncident_def planned_def case_prod_unfold)
      next
        case False
        then obtain err where
          "(case en_policy en of None \<Rightarrow> None | Some p \<Rightarrow> ValidateDAG p inc (ir_DAG result)) = Some err"
          by (auto simp: passes_def split: option.splits)
        with Inr Some k t False show ?thesis
          by (simp add: InvestigateIncident_def planned_def reject_plan_def)
      qed
    qed
  qed (use Inr in \<open>simp add: InvestigateIncident_def planned_def\<close>)
qed (simp add: InvestigateIncident_def planned_def)

lemma workflows_investigate:
  assumes "planned en e s incID = Some (inc, result)" "passes (en_policy en) inc (ir_DAG result)"
    and "ir_PlanConfidence result \<ge> min_confidence" "ag_initialized (en_argo en)"
  shows "workflows (snd (InvestigateIncident en e s incID)) =
    [dagToWorkflow (iv_marshal e) (en_argo en) (workflow_name (iv_argo e) (ir_DAG result)) (ir_DAG result)]"
  using assms by (simp add: workflows_of_investigation)

lemma investigation_asks:
  assumes "st_GetByID (en_store en) (iv_store e) s incID = Inr (Some inc)" "incident_marshals inc"
    and "he_new_request (iv_http e) (kc_baseURL (en_kagent en) @ ''/v1/incidents/plan'') = None"
  shows "HttpSent (plan_http_request (en_kagent en) (investigation_request inc)) \<in>
    set (snd (InvestigateIncident en e s incID))"
proof -
  let ?q = "HttpSent (plan_http_request (en_kagent en) (investigation_request inc))"
  have "kq_Incident (investigation_request inc) = inc" by (simp add: investigation_request_def)
  with assms(2,3) have "snd (InvestigateAndPlan (iv_http e) (en_kagent en) (investigation_request inc)) = [?q]"
    by (simp add: InvestigateAndPlan_def split: sum.split)
  then obtain r where k: "InvestigateAndPlan (iv_http e) (en_kagent en) (investigation_request inc) = (r, [?q])"
    by (metis prod.collapse)
  show ?thesis
    by (cases r) (auto simp: InvestigateIncident_def assms(1) k case_prod_unfold split: option.split)
qed

text \<open>
  C14: when a workflow is submitted: exactly one, built from the DAG the service returned, if the
  investigation gets a plan, the policy engine (where there is one) lets the DAG pass, the plan's
  confidence is at least the float64 0.6 and the client is initialised; otherwise none. Whether the
  service asks for human approval plays no part.
\<close>

theorem workflow_iff_allowed:
  "workflows (snd (InvestigateIncident en e s incID)) =
     (case planned en e s incID of
        None \<Rightarrow> []
      | Some (inc, result) \<Rightarrow>
          if passes (en_policy en) inc (ir_DAG result) \<and> ir_PlanConfidence result \<ge> min_confidence \<and>
             ag_initialized (en_argo en)
          then [dagToWorkflow (iv_marshal e) (en_argo en) (workflow_name (iv_argo e) (ir_DAG result)) (ir_DAG result)]
          else [])"
  by (rule workflows_of_investigation)

text \<open>
  C24: a rejected plan is never executed: when the engine rejects the DAG, its error is returned,
  nothing is submitted, and with a Slack client the summary of the cause (marked as needing human
  approval) and the rejection with its reason are posted, in this order, after the request for the
  plan.
\<close>

theorem rejected_plan_not_executed:
  assumes "planned en e s incID = Some (inc, result)" "en_policy en = Some p"
    and "ValidateDAG p inc (ir_DAG result) = Some err"
  shows "InvestigateIncident en e s incID =
     (Some err,
      snd (InvestigateAndPlan (iv_http e) (en_kagent en) (investigation_request inc)) @
      snd (PostMessage (iv_http e) (en_slack en) (rca_text inc (ir_RCA result) True)) @
      snd (PostMessage (iv_http e) (en_slack en) (rejection_text incID inc err)))"
proof -
  let ?k = "InvestigateAndPlan (iv_http e) (en_kagent en) (investigation_request inc)"
  from assms(1) have g: "st_GetByID (en_store en) (iv_store e) s incID = Inr (Some inc)"
    and r: "fst ?k = Inr result"
    by (auto simp: planned_def split: sum.splits option.splits)
  then obtain t where k: "?k = (Inr result, t)" by (metis prod.collapse)
  have rca: "snd (PostRCA h sl inc r pc x) = snd (PostMessage h sl (rca_text inc r x))" for h sl r pc x
    by (simp add: PostRCA_def PostMessage_def split: option.split)
  from g k assms(2,3) show ?thesis
    by (simp add: InvestigateIncident_def reject_plan_def rca)
qed

definition demo_plan_json :: "rat \<Rightarrow> dag_task list \<Rightarrow> json" where
  "demo_plan_json conf tasks = JObj
     [(''incidentId'', JStr ''i''), (''planId'', JStr ''p''),
      (''plan'', JObj [(''dag'', enc_dag (demo_dag tasks)), (''confidence'', JNum conf)])]"

definition demo_http :: "json \<Rightarrow> http_env" where
  "demo_http body =
     \<lparr>he_new_request = (\<lambda>u. None), he_do = (\<lambda>q. Inr \<lparr>hr_StatusCode = 200, hr_Body = Inr body\<rparr>)\<rparr>"

definition demo_engine :: "policy_engine option \<Rightarrow> (mem_store, mem_env) investigation_engine" where
  "demo_engine p =
     \<lparr>en_store = mem_incident_store, en_kagent = \<lparr>kc_baseURL = ''http://kagent''\<rparr>,
      en_argo = \<lparr>ag_Namespace = ''argo'', ag_initialized = True\<rparr>, en_slack = NewSlack ''http://slack'',
      en_policy = p\<rparr>"

definition demo_investigation_env :: "json \<Rightarrow> mem_env investigation_env" where
  "demo_investigation_env body =
     \<lparr>iv_store = \<lparr>me_now = 0, me_keys = []\<rparr>, iv_http = demo_http body,
      iv_argo = \<lparr>ae_now = 0, ae_create = (\<lambda>w. None), ae_get = (\<lambda>n. Inl [])\<rparr>, iv_marshal = (\<lambda>j. [])\<rparr>"

definition demo_result :: "rat \<Rightarrow> dag_task list \<Rightarrow> investigation_result" where
  "demo_result conf tasks =
     \<lparr>ir_IncidentID = ''i'', ir_PlanID = ''p'', ir_RCA = zero_rca, ir_DAG = demo_dag tasks,
      ir_PlanConfidence = conf, ir_HumanApprovalNeeded = False\<rparr>"

lemma time_marshals_epoch: "time_marshals 0"
  by (simp add: time_marshals_def civil_from_days_def day_of_def year_of_days_def epoch_days_def
      days_before_year_def Let_def)

lemma demo_marshals: "incident_marshals (demo_incident i 0)"
  using time_marshals_epoch by (simp add: incident_marshals_def demo_incident_def)

lemma demo_planned_incident:
  assumes "list_all task_wf tasks" "incident_marshals x" "ms_incidents s i = Some x"
  shows "planned (demo_engine p) ((demo_investigation_env (demo_plan_json 1 tasks))\<lparr>iv_store := ie\<rparr>) s i =
    Some (x, demo_result 1 tasks)"
proof -
  have f: "dec_float (JNum 1) = Some 1" by (simp add: dec_float_def float_lit_def float64_def fl64_1)
  have d: "dec_dag (enc_dag (demo_dag tasks)) = Some (demo_dag tasks)"
    by (rule dag_roundtrip) (use assms in \<open>simp add: dag_wf_def demo_dag_def zero_constraints_def not_empty_map_def\<close>)
  have n: "enc_dag x \<noteq> JNull" for x by (simp add: enc_dag_def)
  show ?thesis
    by (simp add: planned_def demo_engine_def demo_investigation_env_def mem_GetByID_def
        InvestigateAndPlan_def investigation_request_def assms(2,3) demo_http_def plan_http_request_def
        demo_plan_json_def dec_plan_response_def dec_plan_def field_lookup dec_struct_def
        f d n plan_result_def demo_result_def)
qed

lemma demo_planned_tasks:
  assumes "list_all task_wf tasks"
  shows "planned (demo_engine p) (demo_investigation_env (demo_plan_json 1 tasks))
     \<lparr>ms_incidents = [''i'' \<mapsto> demo_incident ''i'' 0]\<rparr> ''i'' = Some (demo_incident ''i'' 0, demo_result 1 tasks)"
  using demo_planned_incident [OF assms demo_marshals, where s = "\<lparr>ms_incidents = [''i'' \<mapsto> demo_incident ''i'' 0]\<rparr>"
      and i = "''i''" and p = p and ie = "\<lparr>me_now = 0, me_keys = []\<rparr>"]
  by (simp add: demo_investigation_env_def)

lemmas demo_planned = demo_planned_tasks [of "[]", simplified]

theorem rejected_plan_not_executed_witness:
  "fst (InvestigateIncident (demo_engine (Some \<lparr>pe_query = (\<lambda>input. Inr [])\<rparr>))
     (demo_investigation_env (demo_plan_json 1 [])) \<lparr>ms_incidents = [''i'' \<mapsto> demo_incident ''i'' 0]\<rparr> ''i'') =
   Some ''policy evaluation returned no results (check policy syntax)''"
  using rejected_plan_not_executed [OF demo_planned, where p = "\<lparr>pe_query = (\<lambda>input. Inr [])\<rparr>"]
  by (simp add: demo_engine_def ValidateDAG_def)

text \<open>
  The confidence threshold is the one the service is asked to respect: a plan that reports
  exactly the decimal 0.6 passes it, since both are rounded to the same float64.
\<close>

theorem threshold_is_decimal:
  "dec_float (JNum (6 / 10)) = Some min_confidence \<and>
   ic_MinPlanConfidence (kq_InvestigationConfig (investigation_request inc)) = 6 / 10"
proof -
  have "dec_float (JNum (6 / 10)) = Some min_confidence"
    by (simp add: dec_float_def float_lit_def float64_def fl64_six_tenths min_confidence_def)
  then show ?thesis by (simp add: investigation_request_def)
qed

end
