(* ===== verification/Dag_Runner.thy ===== *)
theory Dag_Runner
  imports Investigation
begin

text \<open>
  \<open>cmd/dag-runner/main.go\<close>: the program that a workflow's pods run, from its command line to its exit
  code, and what that means for a workflow that \<open>Argo_Client\<close> built. Argo itself is not part of the
  repository: which pods it starts and how it fills in their arguments are parameters (\<open>pods\<close>, \<open>subst\<close>)
  with hypotheses that say what its documentation promises.

  The environment is a function \<open>getenv\<close> (an unset variable is the empty string). A run is its exit code
  and the durations it sleeps for. \<open>unmarshal\<close> reads a text as a JSON value. The \<open>flag\<close> package is
  modelled for the four string flags the program declares.
\<close>

section \<open>Tasks\<close>

record task_input =
  ti_TaskID :: string
  ti_TaskName :: string
  ti_Tool :: string
  ti_Inputs :: "json gomap"
  ti_IncidentID :: string
  ti_PlanID :: string

type_synonym getenv = "string \<Rightarrow> string"

definition input_string :: "task_input \<Rightarrow> string \<Rightarrow> string option" where
  \<comment> \<open>the type assertion \<open>task.Inputs[k].(string)\<close>\<close>
  "input_string t k = (case mlookup (ti_Inputs t) k of Some (JStr s) \<Rightarrow> Some s | _ \<Rightarrow> None)"

definition executeKubectl :: "task_input \<Rightarrow> error option \<times> duration list" where
  "executeKubectl t =
     (case input_string t ''action'' of
        None \<Rightarrow> (Some ''kubectl task missing 'action' input'', [])
      | Some action \<Rightarrow> (case input_string t ''resource'' of
          None \<Rightarrow> (Some ''kubectl task missing 'resource' input'', [])
        | Some resource \<Rightarrow> (None, [2 * second])))"

definition executeHelm :: "task_input \<Rightarrow> error option \<times> duration list" where
  "executeHelm t =
     (case input_string t ''action'' of
        None \<Rightarrow> (Some ''helm task missing 'action' input'', [])
      | Some action \<Rightarrow> (case input_string t ''release'' of
          None \<Rightarrow> (Some ''helm task missing 'release' input'', [])
        | Some release \<Rightarrow> (None, [2 * second])))"

definition executeHTTP :: "task_input \<Rightarrow> error option \<times> duration list" where
  \<comment> \<open>the method (GET by default) is only logged\<close>
  "executeHTTP t =
     (case input_string t ''url'' of
        None \<Rightarrow> (Some ''http task missing 'url' input'', [])
      | Some url \<Rightarrow> (None, [1 * second]))"

definition executeScript :: "getenv \<Rightarrow> task_input \<Rightarrow> error option \<times> duration list" where
  "executeScript getenv t =
     (if getenv ''ALLOW_SCRIPT'' \<noteq> ''true''
      then (Some ''script tool disabled by runtime policy (set ALLOW_SCRIPT=true to enable)'', [])
      else (case input_string t ''script'' of
        None \<Rightarrow> (Some ''script task missing 'script' input'', [])
      | Some script \<Rightarrow> (None, [2 * second])))"

definition executeWait :: "task_input \<Rightarrow> error option \<times> duration list" where
  "executeWait t =
     (case input_string t ''duration'' of
        None \<Rightarrow> (Some ''wait task missing 'duration' input'', [])
      | Some s \<Rightarrow> (case parse_duration s of
          Inl err \<Rightarrow> (Some (wrap_err ''invalid duration'' err), [])
        | Inr d \<Rightarrow> (None, [d])))"

definition executeTask :: "getenv \<Rightarrow> task_input \<Rightarrow> error option \<times> duration list" where
  "executeTask getenv t =
     (if ti_Tool t = ''kubectl'' then executeKubectl t
      else if ti_Tool t = ''helm'' then executeHelm t
      else if ti_Tool t = ''http'' then executeHTTP t
      else if ti_Tool t = ''script'' then executeScript getenv t
      else if ti_Tool t = ''wait'' then executeWait t
      else (Some (''unknown tool: '' @ ti_Tool t), []))"

section \<open>The command line\<close>

datatype flags_result =
    Flags "(string \<times> string) list"  \<comment> \<open>the settings, latest last\<close>
  | FlagHelp
  | FlagError

definition flag_names :: "string list" where
  "flag_names = [''task-id'', ''task-name'', ''tool'', ''inputs'']"

definition split_flag :: "string \<Rightarrow> string \<times> string option" where
  \<comment> \<open>\<open>name=value\<close>, at the first equals sign that is not the first character\<close>
  "split_flag s =
     (case s of [] \<Rightarrow> ([], None)
      | c # cs \<Rightarrow> (let n = takeWhile (\<lambda>c. c \<noteq> CHR ''='') cs; r = dropWhile (\<lambda>c. c \<noteq> CHR ''='') cs in
          (c # n, case r of [] \<Rightarrow> None | _ # v \<Rightarrow> Some v)))"

definition flag_body :: "string \<Rightarrow> string option option" where
  \<comment> \<open>None: parsing ends here; Some None: bad syntax; Some (Some b): a flag with text b\<close>
  "flag_body s =
     (if length s < 2 \<or> hd s \<noteq> CHR ''-'' then None
      else if s = ''--'' then None
      else (let b = (if s ! 1 = CHR ''-'' then drop 2 s else drop 1 s) in
        if b = [] \<or> hd b = CHR ''-'' \<or> hd b = CHR ''='' then Some None else Some (Some b)))"

fun parse_flags :: "string list \<Rightarrow> (string \<times> string) list \<Rightarrow> flags_result" where
  "parse_flags [] kvs = Flags kvs"
| "parse_flags (s # args) kvs =
     (case flag_body s of
        None \<Rightarrow> Flags kvs
      | Some None \<Rightarrow> FlagError
      | Some (Some b) \<Rightarrow>
          (case split_flag b of (name, v) \<Rightarrow>
             if name \<notin> set flag_names then if name = ''help'' \<or> name = ''h'' then FlagHelp else FlagError
             else (case v of
               Some v \<Rightarrow> parse_flags args (kvs @ [(name, v)])
             | None \<Rightarrow> (case args of [] \<Rightarrow> FlagError | v # args' \<Rightarrow> parse_flags args' (kvs @ [(name, v)])))))"

definition flag_value :: "(string \<times> string) list \<Rightarrow> string \<Rightarrow> string \<Rightarrow> string" where
  "flag_value kvs name def = (case map_of (rev kvs) name of None \<Rightarrow> def | Some v \<Rightarrow> v)"

definition runner_main ::
    "(string \<Rightarrow> json option) \<Rightarrow> getenv \<Rightarrow> string list \<Rightarrow> nat \<times> error option \<times> duration list" where
  \<comment> \<open>the exit code, the error of a task that failed, and the sleeps\<close>
  "runner_main unmarshal getenv args =
     (case parse_flags args [] of
        FlagHelp \<Rightarrow> (0, None, [])
      | FlagError \<Rightarrow> (2, None, [])
      | Flags kvs \<Rightarrow>
          (case (case unmarshal (flag_value kvs ''inputs'' ''{}'') of
                   None \<Rightarrow> None | Some j \<Rightarrow> dec_map dec_any j) of
             None \<Rightarrow> (1, None, [])
           | Some inputs \<Rightarrow>
               (case executeTask getenv
                   \<lparr>ti_TaskID = flag_value kvs ''task-id'' [], ti_TaskName = flag_value kvs ''task-name'' [],
                    ti_Tool = flag_value kvs ''tool'' [], ti_Inputs = inputs,
                    ti_IncidentID = getenv ''INCIDENT_ID'', ti_PlanID = getenv ''PLAN_ID''\<rparr> of
                  (Some err, sleeps) \<Rightarrow> (1, Some err, sleeps)
                | (None, sleeps) \<Rightarrow> (0, None, sleeps))))"

section \<open>Which tasks succeed\<close>

definition runner_tools :: "string list" where
  "runner_tools = [''kubectl'', ''helm'', ''http'', ''script'', ''wait'']"

lemma execute_ok:
  "executeKubectl t = (None, ds) \<longleftrightarrow>
     (\<exists>a. input_string t ''action'' = Some a) \<and> (\<exists>r. input_string t ''resource'' = Some r) \<and> ds = [2 * second]"
  "executeHelm t = (None, ds) \<longleftrightarrow>
     (\<exists>a. input_string t ''action'' = Some a) \<and> (\<exists>r. input_string t ''release'' = Some r) \<and> ds = [2 * second]"
  "executeHTTP t = (None, ds) \<longleftrightarrow> (\<exists>u. input_string t ''url'' = Some u) \<and> ds = [1 * second]"
  "executeScript getenv t = (None, ds) \<longleftrightarrow>
     getenv ''ALLOW_SCRIPT'' = ''true'' \<and> (\<exists>s. input_string t ''script'' = Some s) \<and> ds = [2 * second]"
  "executeWait t = (None, ds) \<longleftrightarrow>
     (\<exists>s d. input_string t ''duration'' = Some s \<and> parse_duration s = Inr d \<and> ds = [d])"
proof -
  show "executeKubectl t = (None, ds) \<longleftrightarrow>
     (\<exists>a. input_string t ''action'' = Some a) \<and> (\<exists>r. input_string t ''resource'' = Some r) \<and> ds = [2 * second]"
    by (cases "input_string t ''action''"; cases "input_string t ''resource''") (auto simp: executeKubectl_def)
  show "executeHelm t = (None, ds) \<longleftrightarrow>
     (\<exists>a. input_string t ''action'' = Some a) \<and> (\<exists>r. input_string t ''release'' = Some r) \<and> ds = [2 * second]"
    by (cases "input_string t ''action''"; cases "input_string t ''release''") (auto simp: executeHelm_def)
  show "executeHTTP t = (None, ds) \<longleftrightarrow> (\<exists>u. input_string t ''url'' = Some u) \<and> ds = [1 * second]"
    by (cases "input_string t ''url''") (auto simp: executeHTTP_def)
  show "executeScript getenv t = (None, ds) \<longleftrightarrow>
     getenv ''ALLOW_SCRIPT'' = ''true'' \<and> (\<exists>s. input_string t ''script'' = Some s) \<and> ds = [2 * second]"
    by (cases "input_string t ''script''") (auto simp: executeScript_def)
  show "executeWait t = (None, ds) \<longleftrightarrow>
     (\<exists>s d. input_string t ''duration'' = Some s \<and> parse_duration s = Inr d \<and> ds = [d])"
    by (cases "input_string t ''duration''") (auto simp: executeWait_def split: sum.splits)
qed

text \<open>
  C23: exactly which tasks succeed, and for how long they sleep: a known tool with its inputs given as
  strings, a duration that parses for wait, and scripts only where ALLOW_SCRIPT is \<open>true\<close>.
\<close>

theorem executeTask_success:
  "executeTask getenv t = (None, sleeps) \<longleftrightarrow>
     (ti_Tool t = ''kubectl'' \<and> (\<exists>a. input_string t ''action'' = Some a) \<and> (\<exists>r. input_string t ''resource'' = Some r) \<and>
        sleeps = [2 * second]) \<or>
     (ti_Tool t = ''helm'' \<and> (\<exists>a. input_string t ''action'' = Some a) \<and> (\<exists>r. input_string t ''release'' = Some r) \<and>
        sleeps = [2 * second]) \<or>
     (ti_Tool t = ''http'' \<and> (\<exists>u. input_string t ''url'' = Some u) \<and> sleeps = [1 * second]) \<or>
     (ti_Tool t = ''script'' \<and> getenv ''ALLOW_SCRIPT'' = ''true'' \<and> (\<exists>s. input_string t ''script'' = Some s) \<and>
        sleeps = [2 * second]) \<or>
     (ti_Tool t = ''wait'' \<and> (\<exists>s d. input_string t ''duration'' = Some s \<and> parse_duration s = Inr d \<and> sleeps = [d]))"
  by (simp add: executeTask_def execute_ok)

lemma executeTask_unknown:
  "ti_Tool t \<notin> set runner_tools \<Longrightarrow> executeTask getenv t = (Some (''unknown tool: '' @ ti_Tool t), [])"
  by (simp add: executeTask_def runner_tools_def)

section \<open>A task of a workflow, end to end\<close>

text \<open>
  A pod runs the runner with a command line and an environment, after the tasks it depends on.
\<close>

record argo_pod =
  pod_Task :: string
  pod_After :: "string list"
  pod_Args :: "string list"
  pod_Env :: getenv

definition pod_run :: "(string \<Rightarrow> json option) \<Rightarrow> argo_pod \<Rightarrow> nat \<times> error option \<times> duration list" where
  "pod_run unmarshal p = runner_main unmarshal (pod_Env p) (pod_Args p)"

text \<open>
  What the workflow relies on. Argo replaces a parameter reference at the end of an argument by the
  value of the parameter; and it starts for a task of the entrypoint's DAG a pod of the template the
  task names, with the task's parameters, at most one for each, in any order, and certainly one for a
  task without dependencies (it leaves out a task when one it depends on has failed).
\<close>

definition substitutes :: "((string \<Rightarrow> string) \<Rightarrow> string \<Rightarrow> string) \<Rightarrow> bool" where
  "substitutes subst \<longleftrightarrow> (\<forall>vals pre n. CHR ''{'' \<notin> set pre \<longrightarrow> CHR ''}'' \<notin> set n \<longrightarrow>
     subst vals (pre @ ''{{inputs.parameters.'' @ n @ ''}}'') = pre @ vals n)"

definition workflow_pod :: "((string \<Rightarrow> string) \<Rightarrow> string \<Rightarrow> string) \<Rightarrow> json \<Rightarrow> json \<Rightarrow> argo_pod" where
  "workflow_pod subst w t =
     \<lparr>pod_Task = jstr (nested [''name''] t),
      pod_After = map (\<lambda>d. jstr (Some d)) (jarr (nested [''dependencies''] t)),
      pod_Args = (case task_container w t of None \<Rightarrow> []
        | Some c \<Rightarrow> map (\<lambda>a. subst (task_param t) (jstr (Some a))) (jarr (nested [''args''] c))),
      pod_Env = container_env (task_container w t)\<rparr>"

definition starts_pods :: "((string \<Rightarrow> string) \<Rightarrow> string \<Rightarrow> string) \<Rightarrow> (json \<Rightarrow> argo_pod list) \<Rightarrow> bool" where
  "starts_pods subst pods \<longleftrightarrow> (\<forall>w.
     mset (pods w) \<subseteq># image_mset (workflow_pod subst w) (mset (workflow_tasks w)) \<and>
     (\<forall>t \<in> set (workflow_tasks w). jarr (nested [''dependencies''] t) = [] \<longrightarrow> workflow_pod subst w t \<in> set (pods w)))"

lemma runner_args_expanded:
  assumes "substitutes subst"
  shows "map (\<lambda>a. subst vals (jstr (Some a))) (jarr (nested [''args''] (the (nested [''container''] (runner_template d))))) =
     [''--task-id='' @ vals ''task_id'', ''--task-name='' @ vals ''task_name'',
      ''--tool='' @ vals ''task_tool'', ''--inputs='' @ vals ''task_inputs'']"
proof -
  have e: "subst vals (pre @ ''{{inputs.parameters.'' @ n @ ''}}'') = pre @ vals n"
    if "CHR ''{'' \<notin> set pre" "CHR ''}'' \<notin> set n" for pre n
    using assms that unfolding substitutes_def by blast
  show ?thesis
    using e [of "''--task-id=''" "''task_id''"] e [of "''--task-name=''" "''task_name''"]
      e [of "''--tool=''" "''task_tool''"] e [of "''--inputs=''" "''task_inputs''"]
    by (simp add: runner_template_def runner_args_def jarr_def enc_list_def jstr_def)
qed

lemma flag_body_double: "b \<noteq> [] \<Longrightarrow> hd b \<noteq> CHR ''-'' \<Longrightarrow> hd b \<noteq> CHR ''='' \<Longrightarrow> flag_body (''--'' @ b) = Some (Some b)"
  by (cases b) (simp_all add: flag_body_def Let_def)

lemma parse_runner_args:
  "parse_flags [''--task-id='' @ i, ''--task-name='' @ n, ''--tool='' @ t, ''--inputs='' @ ins] [] =
     Flags [(''task-id'', i), (''task-name'', n), (''tool'', t), (''inputs'', ins)]"
  using flag_body_double [of "''task-id='' @ i"] flag_body_double [of "''task-name='' @ n"]
    flag_body_double [of "''tool='' @ t"] flag_body_double [of "''inputs='' @ ins"]
  by (simp add: split_flag_def Let_def flag_names_def)

definition run_outcome :: "error option \<times> duration list \<Rightarrow> nat \<times> error option \<times> duration list" where
  "run_outcome r = (case r of (Some err, ds) \<Rightarrow> (1, Some err, ds) | (None, ds) \<Rightarrow> (0, None, ds))"

definition workflow_env :: "dag \<Rightarrow> getenv" where
  "workflow_env d n = (case map_of (runner_env d) n of None \<Rightarrow> [] | Some v \<Rightarrow> v)"

definition workflow_input :: "dag \<Rightarrow> dag_task \<Rightarrow> task_input" where
  "workflow_input d t =
     \<lparr>ti_TaskID = tk_ID t, ti_TaskName = tk_Name t, ti_Tool = tk_Tool t, ti_Inputs = tk_Inputs t,
      ti_IncidentID = dag_IncidentID d, ti_PlanID = dag_PlanID d\<rparr>"

lemma container_env_runner: "container_env (nested [''container''] (runner_template d)) = workflow_env d"
proof
  fix n
  show "container_env (nested [''container''] (runner_template d)) n = workflow_env d n"
    by (simp add: container_env_def runner_template_def runner_env_def workflow_env_def jarr_def jstr_def param_def)
qed

lemma task_container_runner:
  "task_container (dagToWorkflow m c name d) (argo_task m t) = nested [''container''] (runner_template d)"
proof -
  have "jstr (nested [''template''] (argo_task m t)) = ''dag-task-runner''"
    by (simp add: argo_task_def jstr_def)
  then show ?thesis by (simp add: task_container_def del: nested.simps)
qed

lemma task_params:
  "task_param (argo_task m t) ''task_id'' = tk_ID t" "task_param (argo_task m t) ''task_name'' = tk_Name t"
  "task_param (argo_task m t) ''task_tool'' = tk_Tool t"
  "task_param (argo_task m t) ''task_inputs'' = m (enc_inputs (tk_Inputs t))"
  by (simp_all add: task_param_def argo_task_def jarr_def jstr_def param_def)

lemma inputs_roundtrip:
  assumes "task_wf t"
  shows "dec_map dec_any (enc_inputs (tk_Inputs t)) = Some (tk_Inputs t)"
  unfolding enc_inputs_def by (rule dec_enc_map_on) (use assms in \<open>auto simp: task_wf_def\<close>)

lemma run_task:
  assumes "unmarshal (marshal (enc_inputs (tk_Inputs t))) = Some (enc_inputs (tk_Inputs t))" "task_wf t" "substitutes subst"
  shows "pod_run unmarshal (workflow_pod subst (dagToWorkflow marshal c name d) (argo_task marshal t)) =
    run_outcome (executeTask (workflow_env d) (workflow_input d t))"
proof -
  have env: "workflow_env d ''INCIDENT_ID'' = dag_IncidentID d" "workflow_env d ''PLAN_ID'' = dag_PlanID d"
    by (simp_all add: workflow_env_def runner_env_def)
  obtain k where k: "nested [''container''] (runner_template d) = Some k" by (simp add: runner_template_def)
  have args: "pod_Args (workflow_pod subst (dagToWorkflow marshal c name d) (argo_task marshal t)) =
      [''--task-id='' @ tk_ID t, ''--task-name='' @ tk_Name t, ''--tool='' @ tk_Tool t,
       ''--inputs='' @ marshal (enc_inputs (tk_Inputs t))]"
    using runner_args_expanded [OF assms(3), of "task_param (argo_task marshal t)" d]
    by (simp add: workflow_pod_def task_container_runner k task_params del: nested.simps)
  have getenv: "pod_Env (workflow_pod subst (dagToWorkflow marshal c name d) (argo_task marshal t)) = workflow_env d"
    by (simp add: workflow_pod_def task_container_runner container_env_runner del: nested.simps)
  show ?thesis
    unfolding pod_run_def args getenv runner_main_def parse_runner_args
    by (simp add: flag_value_def assms(1) inputs_roundtrip [OF assms(2)] env workflow_input_def run_outcome_def)
qed


definition null_text :: "json \<Rightarrow> string" where
  "null_text j = ''null''"

definition read_null :: "string \<Rightarrow> json option" where
  "read_null s = (if s = ''null'' then Some JNull else None)"

lemma demo_task_reads:
  "read_null (null_text (enc_inputs (tk_Inputs (demo_task i tool after)))) =
     Some (enc_inputs (tk_Inputs (demo_task i tool after)))"
  "task_wf (demo_task i tool after)"
  by (simp_all add: read_null_def null_text_def demo_task_def enc_inputs_def task_wf_def int64_ok_def
      min_int64_def max_int64_def)


text \<open>An Argo that starts every task, in the order of the template.\<close>

definition demo_subst :: "(string \<Rightarrow> string) \<Rightarrow> string \<Rightarrow> string" where
  "demo_subst vals arg =
     takeWhile (\<lambda>c. c \<noteq> CHR ''{'') arg @
     vals (takeWhile (\<lambda>c. c \<noteq> CHR ''}'') (drop (length ''{{inputs.parameters.'') (dropWhile (\<lambda>c. c \<noteq> CHR ''{'') arg)))"

definition demo_pods :: "json \<Rightarrow> argo_pod list" where
  "demo_pods w = map (workflow_pod demo_subst w) (workflow_tasks w)"

lemma demo_argo: "substitutes demo_subst" "starts_pods demo_subst demo_pods"
proof -
  have "takeWhile (\<lambda>c. c \<noteq> CHR ''{'') (pre @ CHR ''{'' # xs) = pre" "dropWhile (\<lambda>c. c \<noteq> CHR ''{'') (pre @ CHR ''{'' # xs) = CHR ''{'' # xs"
    if "CHR ''{'' \<notin> set pre" for pre xs
    using that by (induction pre) auto
  moreover have "takeWhile (\<lambda>c. c \<noteq> CHR ''}'') (n @ CHR ''}'' # xs) = n" if "CHR ''}'' \<notin> set n" for n xs
    using that by (induction n) auto
  ultimately show "substitutes demo_subst" by (simp add: substitutes_def demo_subst_def)
  show "starts_pods demo_subst demo_pods" by (simp add: starts_pods_def demo_pods_def)
qed


text \<open>
  No workflow runs a script: whatever the plan says, the pod of a script task fails before it
  looks at the script, because the workflow's container sets ALLOW_SCRIPT to \<open>false\<close>.
\<close>

theorem scripts_never_run:
  assumes "unmarshal (marshal (enc_inputs (tk_Inputs t))) = Some (enc_inputs (tk_Inputs t))" "task_wf t" "substitutes subst"
    and "tk_Tool t = ''script''"
  shows "pod_run unmarshal (workflow_pod subst (dagToWorkflow marshal c name d) (argo_task marshal t)) =
    (1, Some ''script tool disabled by runtime policy (set ALLOW_SCRIPT=true to enable)'', [])"
proof -
  have "workflow_env d ''ALLOW_SCRIPT'' = ''false''" by (simp add: workflow_env_def runner_env_def)
  with assms(4) have "executeTask (workflow_env d) (workflow_input d t) =
      (Some ''script tool disabled by runtime policy (set ALLOW_SCRIPT=true to enable)'', [])"
    by (simp add: executeTask_def executeScript_def workflow_input_def)
  with run_task [where unmarshal = unmarshal and marshal = marshal and t = t and c = c and name = name and d = d,
      OF assms(1-3)] show ?thesis by (simp add: run_outcome_def)
qed

theorem scripts_never_run_witness:
  "pod_run read_null (workflow_pod demo_subst
     (dagToWorkflow null_text (NewArgo ''argo'') ''w'' (demo_dag [demo_task ''a'' ''script'' []]))
     (argo_task null_text (demo_task ''a'' ''script'' []))) =
   (1, Some ''script tool disabled by runtime policy (set ALLOW_SCRIPT=true to enable)'', [])"
  by (rule scripts_never_run [where unmarshal = read_null and marshal = null_text, OF demo_task_reads demo_argo(1)])
    (simp add: demo_task_def)

text \<open>
  The planner's tools and the runner's do not meet: a task that uses any tool the investigation
  request allows fails in its pod with an unknown tool.
\<close>

theorem allowed_tools_unknown_to_runner:
  assumes "unmarshal (marshal (enc_inputs (tk_Inputs t))) = Some (enc_inputs (tk_Inputs t))" "task_wf t" "substitutes subst"
    and "tk_Tool t \<in> set allowed_tools"
  shows "pod_run unmarshal (workflow_pod subst (dagToWorkflow marshal c name d) (argo_task marshal t)) =
    (1, Some (''unknown tool: '' @ tk_Tool t), [])"
proof -
  have "tk_Tool t \<notin> set runner_tools" using assms(4) by (auto simp: allowed_tools_def runner_tools_def)
  then have "executeTask (workflow_env d) (workflow_input d t) = (Some (''unknown tool: '' @ tk_Tool t), [])"
    using executeTask_unknown [of "workflow_input d t"] by (simp add: workflow_input_def)
  with run_task [where unmarshal = unmarshal and marshal = marshal and t = t and c = c and name = name and d = d,
      OF assms(1-3)] show ?thesis by (simp add: run_outcome_def)
qed

theorem allowed_tools_unknown_to_runner_witness:
  "pod_run read_null (workflow_pod demo_subst
     (dagToWorkflow null_text (NewArgo ''argo'') ''w'' (demo_dag [demo_task ''a'' ''k8s.getResource'' []]))
     (argo_task null_text (demo_task ''a'' ''k8s.getResource'' []))) = (1, Some ''unknown tool: k8s.getResource'', [])"
proof -
  have t: "tk_Tool (demo_task ''a'' ''k8s.getResource'' []) = ''k8s.getResource''" by (simp add: demo_task_def)
  then have "tk_Tool (demo_task ''a'' ''k8s.getResource'' []) \<in> set allowed_tools" by (simp add: allowed_tools_def)
  from allowed_tools_unknown_to_runner [where unmarshal = read_null and marshal = null_text,
      OF demo_task_reads demo_argo(1) this] show ?thesis by (simp add: t)
qed

end
