(* ===== verification/Correlator.thy ===== *)
theory Correlator
  imports Store_Postgres
begin

text \<open>
  \<open>internal/correlation/correlator.go\<close>: how an alert becomes part of an incident. The correlator is
  written against the interface of the store; its lemmas are proved once inside the locales of
  \<open>Store\<close> and reach both stores through their interpretations.

  A call is described by what it reads from outside: the clock, the ID source and the environments
  of its two store calls. The topology graph is the function it serves, \<open>SubgraphForService\<close>.
\<close>

section \<open>The code\<close>

record correlation_config =
  cc_InitialWindow :: duration
  cc_ExpansionWindow :: duration

record ('s, 'e) correlator =
  co_cfg :: correlation_config
  co_store :: "('s, 'e) incident_store"
  co_graph :: "string \<Rightarrow> topology_slice option result"

definition NewCorrelator ::
    "correlation_config \<Rightarrow> ('s, 'e) incident_store \<Rightarrow> (string \<Rightarrow> topology_slice option result)
      \<Rightarrow> ('s, 'e) correlator" where
  "NewCorrelator cfg store graph = \<lparr>co_cfg = cfg, co_store = store, co_graph = graph\<rparr>"

record 'e call_env =
  ce_now :: time
  ce_id :: string
  ce_find :: 'e
  ce_save :: 'e

definition primaryServiceFromLabels :: "labels \<Rightarrow> string" where
  "primaryServiceFromLabels labels =
     (case mlookup labels ''service'' of
        Some (c # s) \<Rightarrow> c # s
      | _ \<Rightarrow> (case mlookup labels ''app'' of
          Some (c # s) \<Rightarrow> c # s
        | _ \<Rightarrow> (case mlookup labels ''deployment'' of
            Some (c # s) \<Rightarrow> c # s
          | _ \<Rightarrow> ''unknown'')))"

definition severityFromLabels :: "labels \<Rightarrow> string" where
  "severityFromLabels labels =
     (case mlookup labels ''severity'' of Some (c # s) \<Rightarrow> c # s | _ \<Rightarrow> ''unknown'')"

definition buildCorrelationKey :: "alert \<Rightarrow> string" where
  "buildCorrelationKey a =
     mget (al_Labels a) ''cluster'' @ ''/'' @ mget (al_Labels a) ''namespace'' @ ''/'' @
     primaryServiceFromLabels (al_Labels a)"

definition new_incident ::
    "(string \<Rightarrow> topology_slice option result) \<Rightarrow> string \<Rightarrow> time \<Rightarrow> alert \<Rightarrow> incident" where
  "new_incident graph i now a =
     (let service = primaryServiceFromLabels (al_Labels a) in
      \<lparr>inc_ID = i, inc_Service = service, inc_Cluster = mget (al_Labels a) ''cluster'',
       inc_Environment = mget (al_Labels a) ''environment'',
       inc_Severity = severityFromLabels (al_Labels a), inc_Alerts = [a],
       inc_CorrelationKey = buildCorrelationKey a, inc_CorrelationVersion = 1,
       inc_State = IncidentStateOpen, inc_CreatedAt = now, inc_UpdatedAt = now,
       inc_FirstAlertAt = al_StartsAt a, inc_LastAlertAt = now,
       inc_TopologyContext = (case graph service of Inl _ \<Rightarrow> None | Inr slice \<Rightarrow> slice)\<rparr>)"

definition update_incident :: "time \<Rightarrow> alert \<Rightarrow> incident \<Rightarrow> incident" where
  "update_incident now a inc =
     (let s = severityFromLabels (al_Labels a) in
      inc\<lparr>inc_Alerts := inc_Alerts inc @ [a], inc_LastAlertAt := now, inc_UpdatedAt := now,
          inc_Severity := (if s > inc_Severity inc then s else inc_Severity inc),
          inc_CorrelationVersion := wrap64 (inc_CorrelationVersion inc + 1)\<rparr>)"

definition correlated ::
    "(string \<Rightarrow> topology_slice option result) \<Rightarrow> string \<Rightarrow> time \<Rightarrow> alert \<Rightarrow> incident option \<Rightarrow> incident" where
  "correlated graph i now a found =
     (case found of None \<Rightarrow> new_incident graph i now a | Some inc \<Rightarrow> update_incident now a inc)"

definition ProcessAlert ::
    "('s, 'e) correlator \<Rightarrow> 'e call_env \<Rightarrow> 's \<Rightarrow> alert \<Rightarrow> unit result \<times> 's" where
  "ProcessAlert c ce s a =
     (case st_FindOpenByCorrelationKey (co_store c) (ce_find ce) s (buildCorrelationKey a)
             (cc_ExpansionWindow (co_cfg c)) of
        Inl err \<Rightarrow> (Inl (wrap_err ''find incident'' err), s)
      | Inr found \<Rightarrow>
          st_Save (co_store c) (ce_save ce) s (correlated (co_graph c) (ce_id ce) (ce_now ce) a found))"

section \<open>The incident that is saved\<close>

lemma primaryService_nonempty [simp]: "primaryServiceFromLabels ls \<noteq> []"
  by (auto simp: primaryServiceFromLabels_def split: option.splits list.splits)

lemma correlated_ID:
  "inc_ID (correlated g i now a found) = (case found of None \<Rightarrow> i | Some x \<Rightarrow> inc_ID x)"
  by (simp add: correlated_def new_incident_def update_incident_def Let_def split: option.split)

lemma correlated_fields [simp]:
  "inc_LastAlertAt (correlated g i now a found) = now"
  "inc_UpdatedAt (correlated g i now a found) = now"
  "inc_Alerts (correlated g i now a found) = (case found of None \<Rightarrow> [] | Some x \<Rightarrow> inc_Alerts x) @ [a]"
  "inc_State (correlated g i now a found) = (case found of None \<Rightarrow> IncidentStateOpen | Some x \<Rightarrow> inc_State x)"
  "inc_CorrelationKey (correlated g i now a found) =
     (case found of None \<Rightarrow> buildCorrelationKey a | Some x \<Rightarrow> inc_CorrelationKey x)"
  by (simp_all add: correlated_def new_incident_def update_incident_def Let_def split: option.split)

lemma severity_max:
  "inc_Severity (correlated g i now a found) =
     (case found of None \<Rightarrow> severityFromLabels (al_Labels a)
      | Some x \<Rightarrow> max (inc_Severity x) (severityFromLabels (al_Labels a)))"
  by (auto simp: correlated_def new_incident_def update_incident_def Let_def max_def not_less
      split: option.split)

lemma correlated_fingerprints:
  "al_Fingerprint a \<in> fingerprints (correlated g i now a found)"
  "found = Some x \<Longrightarrow> fingerprints x \<subseteq> fingerprints (correlated g i now a found)"
  by (auto simp: fingerprints_def)

text \<open>
  The correlation key: cluster, namespace and service joined by slashes.
\<close>

lemma append_slash_inject:
  "CHR ''/'' \<notin> set xs \<Longrightarrow> CHR ''/'' \<notin> set xs' \<Longrightarrow>
     xs @ CHR ''/'' # ys = xs' @ CHR ''/'' # ys' \<longleftrightarrow> xs = xs' \<and> ys = ys'"
proof (induction xs arbitrary: xs')
  case Nil
  then show ?case by (cases xs') auto
next
  case (Cons x xs)
  then show ?case by (cases xs') auto
qed

text \<open>
  C34: when is the grouping right? Two alerts get the same correlation key exactly when cluster,
  namespace and service (its fallbacks included) agree, as long as no cluster or namespace label has
  a slash in it.
\<close>

theorem correlation_key_inject:
  assumes "\<And>l. l \<in> {''cluster'', ''namespace''} \<Longrightarrow>
      CHR ''/'' \<notin> set (mget (al_Labels a) l) \<and> CHR ''/'' \<notin> set (mget (al_Labels b) l)"
  shows "buildCorrelationKey a = buildCorrelationKey b \<longleftrightarrow>
    mget (al_Labels a) ''cluster'' = mget (al_Labels b) ''cluster'' \<and>
    mget (al_Labels a) ''namespace'' = mget (al_Labels b) ''namespace'' \<and>
    primaryServiceFromLabels (al_Labels a) = primaryServiceFromLabels (al_Labels b)"
  using assms by (simp add: buildCorrelationKey_def append_slash_inject)

definition labelled :: "(string \<times> string) list \<Rightarrow> alert" where
  "labelled kvs = (demo_alert ''f'' 0)\<lparr>al_Labels := Some (fmap_of_list kvs)\<rparr>"

theorem correlation_key_inject_witness:
  "buildCorrelationKey (labelled [(''cluster'', ''c''), (''app'', ''web'')]) =
   buildCorrelationKey (labelled [(''cluster'', ''c''), (''deployment'', ''web'')])"
  by (subst correlation_key_inject) (auto simp: labelled_def fmlookup_of_list primaryServiceFromLabels_def)

text \<open>
  With a slash in a label, different clusters and namespaces do share a key.
\<close>

lemma correlation_key_collision:
  "buildCorrelationKey (labelled [(''cluster'', ''a/b''), (''namespace'', ''n''), (''service'', ''s'')]) =
   buildCorrelationKey (labelled [(''cluster'', ''a''), (''namespace'', ''b/n''), (''service'', ''s'')])"
  by (simp add: labelled_def fmlookup_of_list primaryServiceFromLabels_def buildCorrelationKey_def)

text \<open>
  The comparison of severities is that of strings, so the usual names do not escalate by weight.
\<close>

lemma severity_order: "''critical'' < (''warning''::string)" "''high'' < (''low''::string)" "''critical'' < (''info''::string)"
  by (simp_all add: less_char_def)

section \<open>One call, against any store\<close>

definition unresolved_with_key :: "string \<Rightarrow> incident \<Rightarrow> bool" where
  "unresolved_with_key key x \<longleftrightarrow> inc_CorrelationKey x = key \<and> inc_State x \<noteq> IncidentStateResolved"

context store_contract
begin

lemma find_char:
  assumes "inv s" "ok e s" "st_FindOpenByCorrelationKey S e s k w = Inr found"
  shows "case found of
      None \<Rightarrow> \<forall>i y. abs s i = Some y \<longrightarrow> unresolved_with_key k y \<longrightarrow> \<not> recent e w y
    | Some x \<Rightarrow> (\<exists>y. abs s (inc_ID x) = Some y \<and> same_incident x y) \<and> unresolved_with_key k x \<and>
        recent e w x \<and>
        (\<forall>i y. abs s i = Some y \<longrightarrow> unresolved_with_key k y \<longrightarrow> recent e w y \<longrightarrow>
           inc_LastAlertAt y \<le> inc_LastAlertAt x)"
  using find_None [OF assms(1,2), of k w] find_sound [OF assms(1,2), of k w]
    find_complete [OF assms] assms(3)
  by (cases found) (auto simp: unresolved_with_key_def)

lemma process_cases:
  assumes "inv s" "ok (ce_find ce) s" "co_store c = S" "ProcessAlert c ce s a = (r, s')"
  obtains (find_failed) m where "r = Inl (wrap_err ''find incident'' m)" "s' = s"
    | (fresh) "st_Save S (ce_save ce) s (new_incident (co_graph c) (ce_id ce) (ce_now ce) a) = (r, s')"
        "\<And>i y. abs s i = Some y \<Longrightarrow> unresolved_with_key (buildCorrelationKey a) y \<Longrightarrow>
           \<not> recent (ce_find ce) (cc_ExpansionWindow (co_cfg c)) y"
    | (grouped) x y where "st_Save S (ce_save ce) s (update_incident (ce_now ce) a x) = (r, s')"
        "abs s (inc_ID x) = Some y" "same_incident x y"
        "unresolved_with_key (buildCorrelationKey a) x"
        "recent (ce_find ce) (cc_ExpansionWindow (co_cfg c)) x"
        "\<And>i z. abs s i = Some z \<Longrightarrow> unresolved_with_key (buildCorrelationKey a) z \<Longrightarrow>
           recent (ce_find ce) (cc_ExpansionWindow (co_cfg c)) z \<Longrightarrow> inc_LastAlertAt z \<le> inc_LastAlertAt x"
proof (cases "st_FindOpenByCorrelationKey S (ce_find ce) s (buildCorrelationKey a) (cc_ExpansionWindow (co_cfg c))")
  case (Inl m)
  with assms find_failed show thesis by (auto simp: ProcessAlert_def)
next
  case (Inr found)
  note f = find_char [OF assms(1,2) Inr]
  show thesis
  proof (cases found)
    case None
    with f Inr assms fresh show thesis by (auto simp: ProcessAlert_def correlated_def)
  next
    case (Some x)
    with f obtain y where "abs s (inc_ID x) = Some y" "same_incident x y" by auto
    with Some f Inr assms grouped [of x y] show thesis by (auto simp: ProcessAlert_def correlated_def)
  qed
qed

lemma new_incident_key [simp]:
  "unresolved_with_key (buildCorrelationKey a) (new_incident g i now a)"
  "inc_ID (new_incident g i now a) = i" "inc_LastAlertAt (new_incident g i now a) = now"
  by (simp_all add: unresolved_with_key_def new_incident_def Let_def)

lemma update_incident_key [simp]:
  "unresolved_with_key k (update_incident now a x) = unresolved_with_key k x"
  "inc_ID (update_incident now a x) = inc_ID x" "inc_LastAlertAt (update_incident now a x) = now"
  by (simp_all add: unresolved_with_key_def update_incident_def Let_def)

lemma persisted_key: "persisted r x y \<Longrightarrow> unresolved_with_key k x = unresolved_with_key k y"
  by (simp add: unresolved_with_key_def persisted_def)

lemma persisted_recorded:
  assumes "abs s' (inc_ID inc) = Some x \<and> persisted r inc x" "unresolved_with_key k inc" "fp \<in> fingerprints inc"
  shows "\<exists>i x. abs s' i = Some x \<and> unresolved_with_key k x \<and> fp \<in> fingerprints x \<and>
    inc_LastAlertAt x = r (inc_LastAlertAt inc)"
  using assms persisted_key [of r inc x k] by (auto simp: persisted_def)

lemma save_dom:
  assumes "inv s" "ok e s" "st_Save S e s inc = (Inr u, s')"
  shows "dom (abs s') = insert (inc_ID inc) (dom (abs s))"
  using save_frame [OF assms] save_stores [OF assms] by (auto simp: dom_def) metis+

text \<open>
  An alert that is accepted is recorded under its key; it opens a new incident exactly when no
  unresolved incident with its key is in the window.
\<close>

lemma process_recorded:
  assumes "inv s" "ok (ce_find ce) s" "ok (ce_save ce) s" "co_store c = S"
    and "ProcessAlert c ce s a = (Inr u, s')"
  shows "\<exists>i x. abs s' i = Some x \<and> unresolved_with_key (buildCorrelationKey a) x \<and>
    al_Fingerprint a \<in> fingerprints x \<and> inc_LastAlertAt x = rt (ce_now ce)"
  using assms(1,2,4,5)
proof (cases rule: process_cases)
  case fresh
  have "al_Fingerprint a \<in> fingerprints (new_incident (co_graph c) (ce_id ce) (ce_now ce) a)"
    by (simp add: fingerprints_def new_incident_def Let_def)
  with save_stores [OF assms(1,3) fresh(1)] persisted_recorded [of s' _ _ rt "buildCorrelationKey a"]
  show ?thesis by (metis new_incident_key(1,3))
next
  case (grouped x y)
  have "al_Fingerprint a \<in> fingerprints (update_incident (ce_now ce) a x)"
    by (simp add: fingerprints_def update_incident_def Let_def)
  with save_stores [OF assms(1,3) grouped(1)] grouped(4) persisted_recorded [of s' _ _ rt "buildCorrelationKey a"]
  show ?thesis by (metis update_incident_key(1,3))
qed simp

lemma process_dom:
  assumes "inv s" "ok (ce_find ce) s" "ok (ce_save ce) s" "co_store c = S"
    and "ProcessAlert c ce s a = (Inr u, s')"
  shows "dom (abs s') =
    (if \<exists>i y. abs s i = Some y \<and> unresolved_with_key (buildCorrelationKey a) y \<and>
          recent (ce_find ce) (cc_ExpansionWindow (co_cfg c)) y
     then dom (abs s) else insert (ce_id ce) (dom (abs s)))"
  using assms(1,2,4,5)
proof (cases rule: process_cases)
  case fresh
  with save_dom [OF assms(1,3) fresh(1)] show ?thesis by auto
next
  case (grouped x y)
  have y: "unresolved_with_key (buildCorrelationKey a) y"
    "recent (ce_find ce) (cc_ExpansionWindow (co_cfg c)) y"
    using grouped(4,5) recent_last [OF same_incident_fields(12) [OF grouped(3)]]
    by (simp_all add: unresolved_with_key_def same_incident_fields [OF grouped(3)])
  with grouped(2) have ex: "\<exists>i y. abs s i = Some y \<and> unresolved_with_key (buildCorrelationKey a) y \<and>
      recent (ce_find ce) (cc_ExpansionWindow (co_cfg c)) y" by blast
  show ?thesis unfolding if_P [OF ex] using save_dom [OF assms(1,3) grouped(1)] grouped(2) by auto
qed simp

end

section \<open>A sequence of calls\<close>

text \<open>
  Alerts processed one after the other, over a clock that does not go back; an incident may get any
  ID, and any store call may fail. \<open>(t, s)\<close> is the time of the last search and the state.
\<close>

inductive process_run ::
    "('s, 'e) correlator \<Rightarrow> ('e \<Rightarrow> 's \<Rightarrow> bool) \<Rightarrow> ('e \<Rightarrow> time) \<Rightarrow> time \<times> 's \<Rightarrow> time \<times> 's \<Rightarrow> bool"
  for c ok clk where
  start: "process_run c ok clk ts ts"
| process: "process_run c ok clk ts (t, s) \<Longrightarrow> ok (ce_find ce) s \<Longrightarrow> ok (ce_save ce) s
    \<Longrightarrow> t \<le> ce_now ce \<Longrightarrow> ce_now ce \<le> clk (ce_find ce)
    \<Longrightarrow> ProcessAlert c ce s a = (r, s') \<Longrightarrow> process_run c ok clk ts (clk (ce_find ce), s')"

context clocked_store
begin

definition single_open :: "duration \<Rightarrow> time \<Rightarrow> 's \<Rightarrow> bool" where
  "single_open w t s \<longleftrightarrow>
     (\<forall>i j x y k e s'. abs s i = Some x \<longrightarrow> abs s j = Some y \<longrightarrow> unresolved_with_key k x \<longrightarrow>
        unresolved_with_key k y \<longrightarrow> ok e s' \<longrightarrow> t \<le> clk e \<longrightarrow> recent e w x \<longrightarrow> recent e w y \<longrightarrow> i = j)"

lemma single_openD:
  "single_open w t s \<Longrightarrow> abs s i = Some x \<Longrightarrow> abs s j = Some y \<Longrightarrow> unresolved_with_key k x
    \<Longrightarrow> unresolved_with_key k y \<Longrightarrow> ok e s' \<Longrightarrow> t \<le> clk e \<Longrightarrow> recent e w x \<Longrightarrow> recent e w y \<Longrightarrow> i = j"
  unfolding single_open_def by blast

lemma single_open_later:
  assumes so: "single_open w t s" and t: "t \<le> t'" and eq: "abs s' = abs s"
  shows "single_open w t' s'"
  unfolding single_open_def eq
proof (intro allI impI)
  fix i j x y k e s1
  assume a: "abs s i = Some x" "abs s j = Some y" "unresolved_with_key k x" "unresolved_with_key k y"
    "ok e s1" "t' \<le> clk e" "recent e w x" "recent e w y"
  show "i = j" by (rule single_openD [OF so a(1-5) order_trans [OF t a(6)] a(7,8)])
qed

text \<open>
  One save of an incident that has the key \<open>k\<close> keeps the property, if at the time of the search no
  other incident with that key was in the window.
\<close>

lemma single_open_save:
  assumes so: "single_open w t s" and inv: "inv s" and ok: "ok e s" and ok0: "ok e0 s0"
    and t: "t \<le> clk e0" and save: "st_Save S e s inc = (r, s')" and key: "unresolved_with_key k inc"
    and others: "\<And>i y. i \<noteq> inc_ID inc \<Longrightarrow> abs s i = Some y \<Longrightarrow> unresolved_with_key k y \<Longrightarrow> \<not> recent e0 w y"
  shows "single_open w (clk e0) s'"
proof -
  from save_atomic [OF inv ok, of inc _ s'] save_stores [OF inv ok, of inc _ s'] save
  consider (same) "abs s' = abs s"
    | (new) x where "abs s' (inc_ID inc) = Some x" "persisted rt inc x"
    by (cases r) blast+
  then show ?thesis
  proof cases
    case same
    then show ?thesis by (rule single_open_later [OF so t])
  next
    case new
    have old: "abs s' i = abs s i" if "i \<noteq> inc_ID inc" for i
      using save_frame [OF inv ok save that] .
    have kx: "unresolved_with_key k' x = unresolved_with_key k' inc" for k'
      using persisted_key [OF new(2)] by simp
    have k': "k' = k" if "unresolved_with_key k' inc" for k'
      using that key by (simp add: unresolved_with_key_def)
    have out: "\<not> recent e' w y" if "i \<noteq> inc_ID inc" "abs s' i = Some y" "unresolved_with_key k y"
      "ok e' s1" "clk e0 \<le> clk e'" for i y e' s1
      using others [OF that(1) _ that(3)] that recent_antimono [OF ok0 that(4,5)] old by auto
    show ?thesis
      unfolding single_open_def
    proof (intro allI impI)
      fix i j y z k' e' s1
      assume a: "abs s' i = Some y" "abs s' j = Some z" "unresolved_with_key k' y" "unresolved_with_key k' z"
        "ok e' s1" "clk e0 \<le> clk e'" "recent e' w y" "recent e' w z"
      show "i = j"
      proof (cases "i = inc_ID inc \<or> j = inc_ID inc")
        case True
        with a(1-4) new(1) kx k' have "k' = k" by auto
        with True a(1-8) out [of i y e' s1] out [of j z e' s1] show ?thesis by auto
      next
        case False
        with a(1,2) old have "abs s i = Some y" "abs s j = Some z" by simp_all
        then show ?thesis by (rule single_openD [OF so _ _ a(3-5) order_trans [OF t a(6)] a(7,8)])
      qed
    qed
  qed
qed

lemma process_single_open:
  assumes so: "single_open (cc_ExpansionWindow (co_cfg c)) t s" and inv: "inv s"
    and ok: "ok (ce_find ce) s" "ok (ce_save ce) s" and c: "co_store c = S"
    and t: "t \<le> ce_now ce" "ce_now ce \<le> clk (ce_find ce)"
    and p: "ProcessAlert c ce s a = (r, s')"
  shows "single_open (cc_ExpansionWindow (co_cfg c)) (clk (ce_find ce)) s' \<and> inv s'"
  using inv ok(1) c p
proof (cases rule: process_cases)
  case find_failed
  with single_open_later [OF so order_trans [OF t], of s] inv show ?thesis by simp
next
  case fresh
  have "single_open (cc_ExpansionWindow (co_cfg c)) (clk (ce_find ce)) s'"
    by (rule single_open_save [OF so inv ok(2,1) _ fresh(1), where k = "buildCorrelationKey a"])
      (use t fresh(2) in auto)
  with save_inv [OF inv ok(2) fresh(1)] show ?thesis by simp
next
  case (grouped x y)
  let ?w = "cc_ExpansionWindow (co_cfg c)" and ?k = "buildCorrelationKey a"
  have y: "unresolved_with_key ?k y" "recent (ce_find ce) ?w y"
    using grouped(4,5) recent_last [OF same_incident_fields(12) [OF grouped(3)]]
    by (simp_all add: unresolved_with_key_def same_incident_fields [OF grouped(3)])
  have "\<not> recent (ce_find ce) ?w z"
    if "i \<noteq> inc_ID x" "abs s i = Some z" "unresolved_with_key ?k z" for i z
    using single_openD [OF so that(2) grouped(2) that(3) y(1) ok(1) _ _ y(2)] that(1) t by auto
  then have "single_open ?w (clk (ce_find ce)) s'"
    by (intro single_open_save [OF so inv ok(2,1) _ grouped(1), where k = ?k]) (use t grouped(4) in auto)
  with save_inv [OF inv ok(2) grouped(1)] show ?thesis by simp
qed

lemma process_run_single_open:
  assumes "process_run c ok clk (t0, s0) (t, s)" and "inv s0" "abs s0 = Map.empty" "co_store c = S"
  shows "single_open (cc_ExpansionWindow (co_cfg c)) t s \<and> inv s"
  using assms
proof (induction "(t0, s0)" "(t, s)" arbitrary: t s rule: process_run.induct)
  case start
  then show ?case by (simp add: single_open_def)
next
  case (process t s ce a r s')
  then show ?case using process_single_open by blast
qed

end

section \<open>Properties of the correlator\<close>

lemma pg_abs_empty: "pg_abs empty_db = Map.empty"
  by (simp add: pg_abs_def find_row_def empty_db_def fun_eq_iff)

text \<open>
  C1: an alert the correlator accepts is in the store afterwards: the database holds an unresolved
  incident with the alert's correlation key, its fingerprint and the time of the call; and the call
  opened a new incident exactly when no unresolved incident with the key was inside the window.
\<close>

theorem ProcessAlert_recorded:
  assumes "db_inv d" "pg_ok rt (ce_find ce) d" "pg_ok rt (ce_save ce) d"
    and "co_store c = pg_incident_store" "ProcessAlert c ce d a = (Inr (), d')"
  shows "(\<exists>i x. pg_abs d' i = Some x \<and> unresolved_with_key (buildCorrelationKey a) x \<and>
      al_Fingerprint a \<in> fingerprints x \<and> inc_LastAlertAt x = rt (ce_now ce)) \<and>
    dom (pg_abs d') =
      (if \<exists>i y. pg_abs d i = Some y \<and> unresolved_with_key (buildCorrelationKey a) y \<and>
            pg_recent (ce_find ce) (cc_ExpansionWindow (co_cfg c)) y
       then dom (pg_abs d) else insert (ce_id ce) (dom (pg_abs d)))"
  using pg.process_recorded [OF assms] pg.process_dom [OF assms] by simp

definition demo_correlator :: "('s, 'e) incident_store \<Rightarrow> ('s, 'e) correlator" where
  "demo_correlator S =
     \<lparr>co_cfg = \<lparr>cc_InitialWindow = 300, cc_ExpansionWindow = 900\<rparr>, co_store = S,
      co_graph = (\<lambda>s. Inr None)\<rparr>"

definition demo_call :: "'e \<Rightarrow> time \<Rightarrow> string \<Rightarrow> 'e call_env" where
  "demo_call e t i = \<lparr>ce_now = t, ce_id = i, ce_find = e, ce_save = e\<rparr>"

theorem ProcessAlert_recorded_witness:
  "\<exists>x. pg_abs (snd (ProcessAlert (demo_correlator pg_incident_store)
      (demo_call (demo_pg_env None 9) 9 ''i'') empty_db (demo_alert ''f'' 1))) ''i'' = Some x"
proof -
  let ?c = "demo_correlator pg_incident_store :: (db, pg_env) correlator"
  let ?ce = "demo_call (demo_pg_env None 9) 9 ''i''"
  let ?p = "ProcessAlert ?c ?ce empty_db (demo_alert ''f'' 1)"
  have p: "?p = (Inr (), snd ?p)"
    by (simp add: ProcessAlert_def demo_correlator_def demo_call_def pg_FindOpenByCorrelationKey_def
        FindOpenByCorrelationKey_def order_by_desc_def correlated_def new_incident_def pg_eval)
  have ok: "pg_ok (\<lambda>t. t) (ce_find ?ce) empty_db" "pg_ok (\<lambda>t. t) (ce_save ?ce) empty_db"
    and c: "co_store ?c = pg_incident_store" "ce_id ?ce = ''i''"
    by (simp_all add: demo_call_def demo_correlator_def demo_pg_ok)
  from ProcessAlert_recorded [OF db_inv_empty ok c(1) p] c(2) have "dom (pg_abs (snd ?p)) = {''i''}"
    by (simp only: pg_abs_empty) simp
  then show ?thesis by blast
qed

text \<open>
  C2: alerts processed one after the other never leave two open incidents for the same key inside
  the window, at any later time, whatever IDs the incidents get, whatever store calls fail and
  whichever COMMIT replies get lost (on PostgreSQL, from the empty database).
\<close>

theorem one_open_incident_pg:
  assumes "process_run c (pg_ok rt) pe_now (t0, empty_db) (t, d)" "co_store c = pg_incident_store"
    and "pg_ok rt e d" "t \<le> pe_now e"
    and "pg_abs d i = Some x" "unresolved_with_key k x" "pg_recent e (cc_ExpansionWindow (co_cfg c)) x"
    and "pg_abs d j = Some y" "unresolved_with_key k y" "pg_recent e (cc_ExpansionWindow (co_cfg c)) y"
  shows "i = j"
proof -
  from pg_abs_empty pg_clk.process_run_single_open [OF assms(1)] assms(2)
  have "pg_clk.single_open rt (cc_ExpansionWindow (co_cfg c)) t d" by simp
  from pg_clk.single_openD [OF this assms(5,8,6,9,3,4,7,10)] show ?thesis .
qed

lemma demo_run:
  fixes S :: "('s, 'e) incident_store"
  assumes "ok e s" "clk e = t"
    and "ProcessAlert (demo_correlator S) (demo_call e t i) s a = (r, s')"
  shows "process_run (demo_correlator S) ok clk (t, s) (t, s')"
proof -
  have "process_run (demo_correlator S) ok clk (t, s)
      (clk (ce_find (demo_call e t i)), s')"
    by (rule process_run.process [OF process_run.start _ _ _ _ assms(3)])
      (use assms in \<open>simp_all add: demo_call_def\<close>)
  with assms(2) show ?thesis by (simp add: demo_call_def)
qed

theorem one_open_incident_pg_witness:
  "\<exists>d. process_run (demo_correlator pg_incident_store) (pg_ok (\<lambda>t. t)) pe_now (9, empty_db) (9, d) \<and>
     (\<forall>i x j y. pg_abs d i = Some x \<longrightarrow> unresolved_with_key ''//unknown'' x \<longrightarrow>
        pg_recent (demo_pg_env None 10) 900 x \<longrightarrow> pg_abs d j = Some y \<longrightarrow>
        unresolved_with_key ''//unknown'' y \<longrightarrow> pg_recent (demo_pg_env None 10) 900 y \<longrightarrow> i = j)"
proof -
  let ?c = "demo_correlator pg_incident_store :: (db, pg_env) correlator"
  let ?p = "ProcessAlert ?c (demo_call (demo_pg_env None 9) 9 ''i'') empty_db (demo_alert ''f'' 1)"
  have r: "process_run ?c (pg_ok (\<lambda>t. t)) pe_now (9, empty_db) (9, snd ?p)"
    by (rule demo_run [where e = "demo_pg_env None 9" and i = "''i''" and a = "demo_alert ''f'' 1" and r = "fst ?p"])
      (simp_all add: demo_pg_ok, simp_all add: demo_pg_env_def)
  have c: "co_store ?c = pg_incident_store" "cc_ExpansionWindow (co_cfg ?c) = 900" "9 \<le> pe_now (demo_pg_env None 10)"
    by (simp_all add: demo_correlator_def demo_pg_env_def)
  from one_open_incident_pg [OF r c(1) demo_pg_ok c(3)] r show ?thesis by (auto simp: c(2))
qed

end
