(* ===== verification/Correlator_Concurrent.thy ===== *)
theory Correlator_Concurrent
  imports Correlator
begin

text \<open>
  The service handles HTTP requests and queue messages in parallel, so several goroutines run
  \<open>ProcessAlert\<close> at once. Each call of the store is atomic (a mutex, or a transaction), but nothing
  joins the search of a call to its save. A thread is Idle, or between its two store calls; a step is
  one store call of one thread. A save that opens an incident may use any ID: \<open>NewIncidentID\<close> reads a
  clock, and nothing checks that the ID is an unused one. The ghost field \<open>cw_ids\<close> lists the IDs that
  were used for new incidents, so a theorem that needs them distinct says so. The topology graph is the
  one of the moment, so a save takes its slice from any graph.

  What survives any interleaving and what does not: every incident of the in-memory store stays
  internally consistent (its alerts being values here; \<open>Alert_Slices\<close> has the arrays that the copies of
  an incident share); on PostgreSQL no accepted alert is ever lost, and it stays under its key as long
  as the IDs are distinct; in memory one can be lost, and in both two threads can open two incidents
  for one key.
\<close>

datatype thread =
    Idle
  | Searched alert time "incident option"

record 's world =
  cw_state :: 's
  cw_threads :: "nat \<Rightarrow> thread"
  cw_accepted :: "alert list"  \<comment> \<open>the alerts whose \<open>ProcessAlert\<close> has returned nil\<close>
  cw_ids :: "string list"  \<comment> \<open>the IDs given to new incidents, the latest first\<close>

definition init_world :: "'s \<Rightarrow> 's world" where
  "init_world s = \<lparr>cw_state = s, cw_threads = (\<lambda>_. Idle), cw_accepted = [], cw_ids = []\<rparr>"

definition drawn :: "string \<Rightarrow> incident option \<Rightarrow> string list" where
  "drawn i found = (case found of None \<Rightarrow> [i] | Some _ \<Rightarrow> [])"

lemma drawn_simps [simp]: "drawn i None = [i]" "drawn i (Some x) = []"
  by (simp_all add: drawn_def)

inductive conc_step ::
    "('s, 'e) correlator \<Rightarrow> ('e \<Rightarrow> 's \<Rightarrow> bool) \<Rightarrow> 's world \<Rightarrow> 's world \<Rightarrow> bool"
  for c ok where
  search: "conc_step c ok w (w\<lparr>cw_threads := (cw_threads w)(n := Searched a now found)\<rparr>)"
    if "cw_threads w n = Idle" and "ok e (cw_state w)"
      and "st_FindOpenByCorrelationKey (co_store c) e (cw_state w) (buildCorrelationKey a)
             (cc_ExpansionWindow (co_cfg c)) = Inr found"
| save: "conc_step c ok w
      (w\<lparr>cw_state := s', cw_threads := (cw_threads w)(n := Idle),
         cw_accepted := (case r of Inr _ \<Rightarrow> a # cw_accepted w | Inl _ \<Rightarrow> cw_accepted w),
         cw_ids := drawn i found @ cw_ids w\<rparr>)"
    if "cw_threads w n = Searched a now found" and "ok e (cw_state w)"
      and "st_Save (co_store c) e (cw_state w) (correlated g i now a found) = (r, s')"

abbreviation conc_reachable where
  "conc_reachable c ok s w \<equiv> (conc_step c ok)\<^sup>*\<^sup>* (init_world s) w"

text \<open>
  A search followed at once by its save is a call of \<open>ProcessAlert\<close>.
\<close>

lemma ProcessAlert_steps:
  assumes "cw_threads w n = Idle" "ok (ce_find ce) (cw_state w)" "ok (ce_save ce) (cw_state w)"
    and "ProcessAlert c ce (cw_state w) a = (Inr (), s')"
  obtains ids where "set ids \<subseteq> {ce_id ce}" "distinct ids" "(conc_step c ok)\<^sup>*\<^sup>* w
    (w\<lparr>cw_state := s', cw_threads := (cw_threads w)(n := Idle), cw_accepted := a # cw_accepted w,
       cw_ids := ids @ cw_ids w\<rparr>)"
proof -
  from assms(4) obtain found where f: "st_FindOpenByCorrelationKey (co_store c) (ce_find ce) (cw_state w)
      (buildCorrelationKey a) (cc_ExpansionWindow (co_cfg c)) = Inr found"
    and s: "st_Save (co_store c) (ce_save ce) (cw_state w)
      (correlated (co_graph c) (ce_id ce) (ce_now ce) a found) = (Inr (), s')"
    by (auto simp: ProcessAlert_def split: sum.splits)
  let ?w = "w\<lparr>cw_threads := (cw_threads w)(n := Searched a (ce_now ce) found)\<rparr>"
  have "conc_step c ok w ?w"
    by (rule conc_step.search [where w = w and n = n]) (use assms f in auto)
  moreover have "conc_step c ok ?w
      (w\<lparr>cw_state := s', cw_threads := (cw_threads w)(n := Idle), cw_accepted := a # cw_accepted w,
         cw_ids := drawn (ce_id ce) found @ cw_ids w\<rparr>)"
    using conc_step.save [where w = ?w and n = n and a = a and now = "ce_now ce" and found = found
        and i = "ce_id ce" and g = "co_graph c" and e = "ce_save ce" and r = "Inr ()" and s' = s' and ok = ok and c = c]
      assms(3) s by simp
  ultimately show thesis by (intro that [of "drawn (ce_id ce) found"]) (auto simp: drawn_def split: option.split)
qed

section \<open>In memory: every incident stays consistent\<close>

definition wf_incident :: "incident \<Rightarrow> bool" where
  "wf_incident x \<longleftrightarrow>
     inc_Alerts x \<noteq> [] \<and>
     inc_CorrelationVersion x = wrap64 (int (length (inc_Alerts x))) \<and>
     inc_Severity x = Max ((\<lambda>a. severityFromLabels (al_Labels a)) ` set (inc_Alerts x)) \<and>
     (\<forall>a \<in> set (inc_Alerts x). buildCorrelationKey a = inc_CorrelationKey x) \<and>
     inc_FirstAlertAt x = al_StartsAt (hd (inc_Alerts x)) \<and>
     inc_Service x = primaryServiceFromLabels (al_Labels (hd (inc_Alerts x))) \<and>
     inc_UpdatedAt x = inc_LastAlertAt x \<and> inc_State x = IncidentStateOpen"

lemma wf_new_incident [simp]: "wf_incident (new_incident g i now a)"
  by (simp add: wf_incident_def new_incident_def Let_def wrap64_id min_int64_def max_int64_def)

lemma wf_update_incident:
  assumes wf: "wf_incident x" and key: "inc_CorrelationKey x = buildCorrelationKey a"
  shows "wf_incident (update_incident now a x)"
proof -
  let ?sev = "\<lambda>a. severityFromLabels (al_Labels a)"
  have ne: "inc_Alerts x \<noteq> []" using wf by (simp add: wf_incident_def)
  then have "Max (?sev ` set (inc_Alerts x @ [a])) = max (?sev a) (Max (?sev ` set (inc_Alerts x)))"
    by simp
  moreover have "inc_Severity (update_incident now a x) = max (?sev a) (inc_Severity x)"
    by (auto simp: update_incident_def Let_def max_def)
  ultimately have "inc_Severity (update_incident now a x) = Max (?sev ` set (inc_Alerts x @ [a]))"
    using wf by (simp add: wf_incident_def)
  moreover have "inc_CorrelationVersion (update_incident now a x) = wrap64 (int (length (inc_Alerts x @ [a])))"
    using wf by (simp add: wf_incident_def update_incident_def Let_def wrap64_Suc add.commute)
  ultimately show ?thesis
    using wf key ne by (simp add: wf_incident_def) (auto simp: update_incident_def Let_def)
qed

lemma wf_correlated:
  "\<forall>x. found = Some x \<longrightarrow> wf_incident x \<and> inc_CorrelationKey x = buildCorrelationKey a \<Longrightarrow>
     wf_incident (correlated g i now a found)"
  by (cases found) (simp_all add: correlated_def wf_update_incident)

definition mem_world_inv :: "mem_store world \<Rightarrow> bool" where
  "mem_world_inv w \<longleftrightarrow>
     (\<forall>i x. ms_incidents (cw_state w) i = Some x \<longrightarrow> inc_ID x = i \<and> wf_incident x) \<and>
     (\<forall>n a now x. cw_threads w n = Searched a now (Some x) \<longrightarrow>
        wf_incident x \<and> inc_CorrelationKey x = buildCorrelationKey a)"

lemma conc_step_mem_inv:
  assumes "conc_step c mem_ok w w'" "co_store c = mem_incident_store" "mem_world_inv w"
  shows "mem_world_inv w'"
  using assms(1)
proof (cases rule: conc_step.cases)
  case (search n e a found now)
  have inv: "mem_inv (cw_state w)" using assms(3) by (simp add: mem_world_inv_def mem_inv_def)
  have "wf_incident x \<and> inc_CorrelationKey x = buildCorrelationKey a" if "found = Some x" for x
    using mem_find_char [OF inv search(3), of "buildCorrelationKey a" "cc_ExpansionWindow (co_cfg c)" found]
      search(4) that assms(2,3) by (auto simp: mem_world_inv_def mem_eligible_def)
  with assms(3) search(1) show ?thesis by (auto simp: mem_world_inv_def split: if_splits)
next
  case (save n a now found e g i r s')
  have "wf_incident (correlated g i now a found)"
    using save(2) assms(3) by (intro wf_correlated) (auto simp: mem_world_inv_def)
  with assms(2,3) save(1,4) show ?thesis
    by (auto simp: mem_world_inv_def mem_Save_def split: if_splits)
qed

lemma conc_mem_inv:
  assumes "conc_reachable c mem_ok NewInMemoryIncidentStore w" "co_store c = mem_incident_store"
  shows "mem_world_inv w"
  using assms(1)
proof (induction rule: rtranclp_induct)
  case base
  then show ?case by (simp add: mem_world_inv_def init_world_def NewInMemoryIncidentStore_def)
next
  case (step v w)
  then show ?case using conc_step_mem_inv assms(2) by blast
qed

section \<open>In memory: what is lost\<close>

text \<open>
  Two runs, step by step: \<open>mem_search\<close> and \<open>mem_save\<close> are the steps of the in-memory service, as
  functions of the world.
\<close>

definition mem_demo :: "(mem_store, mem_env) correlator" where
  "mem_demo = demo_correlator mem_incident_store"

lemma mem_search_step:
  assumes "cw_threads w n = Idle" "dom (ms_incidents (cw_state w)) = set ks" "distinct ks"
    and "mem_FindOpenByCorrelationKey \<lparr>me_now = t, me_keys = ks\<rparr> (cw_state w) (buildCorrelationKey a) 900 = Inr found"
  shows "conc_step mem_demo mem_ok w
    (w\<lparr>cw_threads := (cw_threads w)(n := Searched a now found)\<rparr>)"
  by (rule conc_step.search [where e = "\<lparr>me_now = t, me_keys = ks\<rparr>"])
    (use assms in \<open>simp_all add: mem_demo_def demo_correlator_def mem_ok_def enumerates_def\<close>)

lemma mem_save_step:
  assumes "cw_threads w n = Searched a now found" "dom (ms_incidents (cw_state w)) = set ks" "distinct ks"
    and "x = correlated (\<lambda>s. Inr None) i now a found"
  shows "conc_step mem_demo mem_ok w
    (w\<lparr>cw_state := \<lparr>ms_incidents = (ms_incidents (cw_state w))(inc_ID x \<mapsto> x)\<rparr>,
       cw_threads := (cw_threads w)(n := Idle), cw_accepted := a # cw_accepted w,
       cw_ids := drawn i found @ cw_ids w\<rparr>)"
  using conc_step.save [where w = w and n = n and a = a and now = now and found = found and i = i
      and g = "\<lambda>s. Inr None" and e = "\<lparr>me_now = now, me_keys = ks\<rparr>" and r = "Inr ()" and ok = mem_ok and c = mem_demo
      and s' = "\<lparr>ms_incidents = (ms_incidents (cw_state w))(inc_ID x \<mapsto> x)\<rparr>"] assms
  by (auto simp: mem_demo_def demo_correlator_def mem_ok_def enumerates_def mem_Save_def)

lemma steps_trans [trans]:
  "R\<^sup>*\<^sup>* a b \<Longrightarrow> R b c \<Longrightarrow> R\<^sup>*\<^sup>* a c"
  by (rule rtranclp.rtrancl_into_rtrancl)

definition no_threads :: "nat \<Rightarrow> thread" where
  "no_threads = (\<lambda>_. Idle)"

definition world_of :: "(string \<Rightarrow> incident option) \<Rightarrow> (nat \<Rightarrow> thread) \<Rightarrow> alert list \<Rightarrow> string list
    \<Rightarrow> mem_store world" where
  "world_of m ts as ids = \<lparr>cw_state = \<lparr>ms_incidents = m\<rparr>, cw_threads = ts, cw_accepted = as, cw_ids = ids\<rparr>"

lemma world_search:
  assumes "ts n = Idle" "dom m = set ks" "distinct ks"
    and "mem_FindOpenByCorrelationKey \<lparr>me_now = t, me_keys = ks\<rparr> \<lparr>ms_incidents = m\<rparr> (buildCorrelationKey a) 900 = Inr found"
  shows "conc_step mem_demo mem_ok (world_of m ts as ids) (world_of m (ts(n := Searched a now found)) as ids)"
  using mem_search_step [where w = "world_of m ts as ids"] assms by (simp add: world_of_def)

lemma world_save:
  assumes "ts n = Searched a now found" "dom m = set ks" "distinct ks"
    and "x = correlated (\<lambda>s. Inr None) i now a found" "ids' = drawn i found @ ids"
  shows "conc_step mem_demo mem_ok (world_of m ts as ids)
    (world_of (m(inc_ID x \<mapsto> x)) (ts(n := Idle)) (a # as) ids')"
  using mem_save_step [where w = "world_of m ts as ids"] assms by (simp add: world_of_def)

lemma init_world_of: "init_world NewInMemoryIncidentStore = world_of Map.empty no_threads [] []"
  by (simp add: init_world_def NewInMemoryIncidentStore_def world_of_def no_threads_def)

lemmas mem_run_eval =
  no_threads_def mem_FindOpenByCorrelationKey_def demo_alert_def buildCorrelationKey_def
  primaryServiceFromLabels_def severityFromLabels_def correlated_def new_incident_def
  update_incident_def incident_state_defs time_sub_def sat64_def min_int64_def max_int64_def Let_def

text \<open>
  Under any interleaving, every incident of the in-memory store is consistent: its version
  counts its alerts, its severity is the largest of theirs, they all have its correlation key, its
  first-alert time and service are those of its first alert, and it is open.
\<close>

theorem conc_incidents_wf:
  assumes "conc_reachable c mem_ok NewInMemoryIncidentStore w" "co_store c = mem_incident_store"
    and "ms_incidents (cw_state w) i = Some x"
  shows "inc_ID x = i \<and> wf_incident x"
  using conc_mem_inv [OF assms(1,2)] assms(3) by (simp add: mem_world_inv_def)

theorem conc_incidents_wf_witness:
  "\<exists>(w :: mem_store world) x. ms_incidents (cw_state w) ''i'' = Some x \<and> wf_incident x \<and> inc_CorrelationVersion x = 1"
proof -
  let ?a = "demo_alert ''f'' 0" and ?R = "conc_step mem_demo mem_ok"
  let ?t = "no_threads(0 := Searched ?a 1 None)"
  define x where "x = correlated (\<lambda>s. Inr None) ''i'' 1 ?a None"
  have "?R\<^sup>*\<^sup>* (init_world NewInMemoryIncidentStore) (world_of Map.empty no_threads [] [])"
    by (simp add: init_world_of)
  also have "?R (world_of Map.empty no_threads [] []) (world_of Map.empty ?t [] [])"
    by (rule world_search [of _ _ _ "[]" 1]) (simp_all add: mem_run_eval)
  also have "?R (world_of Map.empty ?t [] []) (world_of (Map.empty(inc_ID x \<mapsto> x)) (?t(0 := Idle)) [?a] [''i''])"
    by (rule world_save [of _ _ _ _ None _ "[]" _ "''i''"]) (simp_all add: x_def)
  finally have r: "conc_reachable mem_demo mem_ok NewInMemoryIncidentStore
      (world_of (Map.empty(inc_ID x \<mapsto> x)) (?t(0 := Idle)) [?a] [''i''])" .
  have m: "ms_incidents (cw_state (world_of (Map.empty(inc_ID x \<mapsto> x)) (?t(0 := Idle)) [?a] [''i''])) ''i'' = Some x"
    by (simp add: world_of_def x_def correlated_ID)
  have "co_store mem_demo = mem_incident_store" by (simp add: mem_demo_def demo_correlator_def)
  from conc_incidents_wf [OF r this m] have "wf_incident x \<and> inc_CorrelationVersion x = 1"
    by (simp add: x_def correlated_def new_incident_def Let_def)
  with m show ?thesis by blast
qed

text \<open>
  C35: two threads that search before either saves open two incidents for one key: both alerts are
  accepted, and two unresolved incidents with their key stay in the window, so the guarantee for
  alerts processed one after the other does not carry over.
\<close>

theorem duplicate_incident_possible:
  "\<exists>w x y. conc_reachable mem_demo mem_ok NewInMemoryIncidentStore w \<and> distinct (cw_ids w) \<and>
     ms_incidents (cw_state w) ''i'' = Some x \<and> ms_incidents (cw_state w) ''j'' = Some y \<and>
     inc_CorrelationKey x = inc_CorrelationKey y \<and> mem_eligible (inc_CorrelationKey x) 900 2 x \<and>
     mem_eligible (inc_CorrelationKey y) 900 2 y"
proof -
  let ?a = "demo_alert ''f'' 0" and ?b = "demo_alert ''g'' 0"
  define x where "x = correlated (\<lambda>s. Inr None) ''i'' 1 ?a None"
  define y where "y = correlated (\<lambda>s. Inr None) ''j'' 1 ?b None"
  have id: "inc_ID x = ''i''" "inc_ID y = ''j''" by (simp_all add: x_def y_def correlated_ID)
  let ?R = "conc_step mem_demo mem_ok"
  let ?t1 = "no_threads(0 := Searched ?a 1 None)"
  let ?t2 = "?t1(1 := Searched ?b 1 None)"
  have "?R\<^sup>*\<^sup>* (init_world NewInMemoryIncidentStore) (world_of Map.empty no_threads [] [])"
    by (simp add: init_world_of)
  also have "?R (world_of Map.empty no_threads [] []) (world_of Map.empty ?t1 [] [])"
    by (rule world_search [of _ _ _ "[]" 1]) (simp_all add: mem_run_eval)
  also have "?R (world_of Map.empty ?t1 [] []) (world_of Map.empty ?t2 [] [])"
    by (rule world_search [of _ _ _ "[]" 1]) (simp_all add: mem_run_eval)
  also have "?R (world_of Map.empty ?t2 [] []) (world_of (Map.empty(inc_ID x \<mapsto> x)) (?t2(0 := Idle)) [?a] [''i''])"
    by (rule world_save [of _ _ _ _ None _ "[]" _ "''i''"]) (simp_all add: x_def)
  also have "?R (world_of (Map.empty(inc_ID x \<mapsto> x)) (?t2(0 := Idle)) [?a] [''i''])
      (world_of (Map.empty(inc_ID x \<mapsto> x, inc_ID y \<mapsto> y)) ((?t2(0 := Idle))(1 := Idle)) [?b, ?a] [''j'', ''i''])"
    by (rule world_save [of _ _ _ _ None _ "[''i'']" _ "''j''"]) (simp_all add: y_def id)
  finally show ?thesis
    by (rule exI [of _ "world_of _ _ _ _", OF exI [of _ x, OF exI [of _ y, OF conjI]]])
      (simp add: world_of_def id, simp add: x_def y_def mem_eligible_def mem_run_eval)
qed

text \<open>
  C36: in memory an accepted alert can be lost: two threads read the same incident, and the later save
  overwrites the earlier one's alert, so that no incident holds it although its sender got no error.
\<close>

theorem lost_update_possible:
  "\<exists>w b. conc_reachable mem_demo mem_ok NewInMemoryIncidentStore w \<and> distinct (cw_ids w) \<and>
     b \<in> set (cw_accepted w) \<and> (\<forall>n. cw_threads w n = Idle) \<and>
     b \<notin> (\<Union>x \<in> ran (ms_incidents (cw_state w)). set (inc_Alerts x))"
proof -
  let ?a = "demo_alert ''f'' 0" and ?b = "demo_alert ''g'' 0" and ?c = "demo_alert ''h'' 0"
  define x where "x = correlated (\<lambda>s. Inr None) ''i'' 1 ?a None"
  define y where "y = correlated (\<lambda>s. Inr None) ''j'' 2 ?b (Some x)"
  define z where "z = correlated (\<lambda>s. Inr None) ''k'' 2 ?c (Some x)"
  have id: "inc_ID x = ''i''" "inc_ID y = ''i''" "inc_ID z = ''i''"
    by (simp_all add: x_def y_def z_def correlated_ID)
  have x': "inc_CorrelationKey x = ''//unknown''" "inc_State x = IncidentStateOpen" "inc_LastAlertAt x = 1"
    by (simp_all add: x_def mem_run_eval)
  let ?R = "conc_step mem_demo mem_ok"
  let ?m = "Map.empty(''i'' \<mapsto> x)"
  let ?t1 = "no_threads(0 := Searched ?a 1 None)"
  let ?u = "?t1(0 := Idle)"
  let ?u1 = "?u(0 := Searched ?b 2 (Some x))"
  let ?u2 = "?u1(1 := Searched ?c 2 (Some x))"
  have found: "mem_FindOpenByCorrelationKey \<lparr>me_now = 2, me_keys = [''i'']\<rparr> \<lparr>ms_incidents = ?m\<rparr> ''//unknown'' 900 =
      Inr (Some x)"
    using x' by (simp add: mem_FindOpenByCorrelationKey_def incident_state_defs time_sub_def sat64_def
        min_int64_def max_int64_def)
  have key: "buildCorrelationKey ?b = ''//unknown''" "buildCorrelationKey ?c = ''//unknown''"
    by (simp_all add: mem_run_eval)
  have "?R\<^sup>*\<^sup>* (init_world NewInMemoryIncidentStore) (world_of Map.empty no_threads [] [])"
    by (simp add: init_world_of)
  also have "?R (world_of Map.empty no_threads [] []) (world_of Map.empty ?t1 [] [])"
    by (rule world_search [of _ _ _ "[]" 1]) (simp_all add: mem_run_eval)
  also have "?R (world_of Map.empty ?t1 [] []) (world_of (Map.empty(inc_ID x \<mapsto> x)) ?u [?a] [''i''])"
    by (rule world_save [of _ _ _ _ None _ "[]" _ "''i''"]) (simp_all add: x_def)
  also have "?R (world_of (Map.empty(inc_ID x \<mapsto> x)) ?u [?a] [''i'']) (world_of ?m ?u1 [?a] [''i''])"
    unfolding id by (rule world_search [of _ _ _ "[''i'']" 2]) (simp_all add: found key no_threads_def)
  also have "?R (world_of ?m ?u1 [?a] [''i'']) (world_of ?m ?u2 [?a] [''i''])"
    by (rule world_search [of _ _ _ "[''i'']" 2]) (simp_all add: found key no_threads_def)
  also have "?R (world_of ?m ?u2 [?a] [''i'']) (world_of (?m(inc_ID y \<mapsto> y)) (?u2(0 := Idle)) [?b, ?a] [''i''])"
    by (rule world_save [of _ _ _ _ "Some x" _ "[''i'']" _ "''j''"]) (simp_all add: y_def)
  also have "?R (world_of (?m(inc_ID y \<mapsto> y)) (?u2(0 := Idle)) [?b, ?a] [''i''])
      (world_of (?m(inc_ID y \<mapsto> y, inc_ID z \<mapsto> z)) ((?u2(0 := Idle))(1 := Idle)) [?c, ?b, ?a] [''i''])"
    by (rule world_save [of _ _ _ _ "Some x" _ "[''i'']" _ "''k''"]) (simp_all add: z_def id)
  finally have run: "?R\<^sup>*\<^sup>* (init_world NewInMemoryIncidentStore)
      (world_of (?m(inc_ID y \<mapsto> y, inc_ID z \<mapsto> z)) ((?u2(0 := Idle))(1 := Idle)) [?c, ?b, ?a] [''i''])" .
  have "inc_Alerts z = [?a, ?c]" by (simp add: z_def x_def)
  then have "?b \<notin> set (inc_Alerts z)" by (simp add: demo_alert_def)
  moreover define w where "w = world_of (?m(inc_ID y \<mapsto> y, inc_ID z \<mapsto> z)) ((?u2(0 := Idle))(1 := Idle)) [?c, ?b, ?a] [''i'']"
  ultimately have "?R\<^sup>*\<^sup>* (init_world NewInMemoryIncidentStore) w \<and> distinct (cw_ids w) \<and> ?b \<in> set (cw_accepted w) \<and>
      (\<forall>n. cw_threads w n = Idle) \<and>
      ?b \<notin> (\<Union>x \<in> ran (ms_incidents (cw_state w)). set (inc_Alerts x))"
    using run by (simp only:) (simp add: world_of_def id no_threads_def ran_map_upd)
  then show ?thesis by blast
qed

section \<open>On PostgreSQL: no accepted alert is lost\<close>

text \<open>
  A store whose saves only add alerts. Whatever IDs the new incidents get, an accepted alert stays in
  some incident of the store. While they are distinct (and were not in the store at the start), an
  incident never changes its key either, and the alert stays recorded under its own.
\<close>

locale accumulating_store = store_contract S abs inv ok rt recent
  for S :: "('s, 'e) incident_store" and abs :: "'s \<Rightarrow> string \<Rightarrow> incident option"
    and inv :: "'s \<Rightarrow> bool" and ok :: "'e \<Rightarrow> 's \<Rightarrow> bool" and rt :: "time \<Rightarrow> time"
    and recent :: "'e \<Rightarrow> duration \<Rightarrow> incident \<Rightarrow> bool" +
  assumes save_accumulates: "inv s \<Longrightarrow> ok e s \<Longrightarrow> st_Save S e s inc = (r, s') \<Longrightarrow> abs s i = Some x
    \<Longrightarrow> \<exists>y. abs s' i = Some y \<and> fingerprints x \<subseteq> fingerprints y"
begin

definition held :: "'s \<Rightarrow> alert \<Rightarrow> bool" where
  "held s a \<longleftrightarrow> (\<exists>i x. abs s i = Some x \<and> al_Fingerprint a \<in> fingerprints x)"

definition recorded :: "'s \<Rightarrow> alert \<Rightarrow> bool" where
  "recorded s a \<longleftrightarrow> (\<exists>i x. abs s i = Some x \<and> inc_CorrelationKey x = buildCorrelationKey a \<and>
     al_Fingerprint a \<in> fingerprints x)"

definition conc_inv :: "'s \<Rightarrow> 's world \<Rightarrow> bool" where
  \<comment> \<open>whatever the IDs\<close>
  "conc_inv s0 w \<longleftrightarrow> inv (cw_state w) \<and>
     dom (abs (cw_state w)) \<subseteq> dom (abs s0) \<union> set (cw_ids w) \<and>
     (\<forall>n a now x. cw_threads w n = Searched a now (Some x) \<longrightarrow> inc_ID x \<in> dom (abs (cw_state w))) \<and>
     (\<forall>a \<in> set (cw_accepted w). held (cw_state w) a)"

definition fresh_ids :: "'s \<Rightarrow> string list \<Rightarrow> bool" where
  "fresh_ids s0 ids \<longleftrightarrow> distinct ids \<and> set ids \<inter> dom (abs s0) = {}"

definition keyed_inv :: "'s world \<Rightarrow> bool" where
  \<comment> \<open>while the IDs are fresh ones\<close>
  "keyed_inv w \<longleftrightarrow>
     (\<forall>n a now x. cw_threads w n = Searched a now (Some x) \<longrightarrow>
        inc_CorrelationKey x = buildCorrelationKey a \<and>
        (\<exists>y. abs (cw_state w) (inc_ID x) = Some y \<and> inc_CorrelationKey y = buildCorrelationKey a)) \<and>
     (\<forall>a \<in> set (cw_accepted w). recorded (cw_state w) a)"

lemma fresh_ids_append: "fresh_ids s0 (ids @ ids') \<Longrightarrow> fresh_ids s0 ids'"
  by (auto simp: fresh_ids_def)

lemma save_keeps_key:
  assumes inv: "inv s" "ok e s" and save: "st_Save S e s inc = (r, s')" and x: "abs s i = Some x"
    and key: "i = inc_ID inc \<Longrightarrow> inc_CorrelationKey x = inc_CorrelationKey inc"
  shows "\<exists>y. abs s' i = Some y \<and> inc_CorrelationKey y = inc_CorrelationKey x \<and> fingerprints x \<subseteq> fingerprints y"
proof -
  from save_accumulates [OF inv save x] obtain y where y: "abs s' i = Some y" "fingerprints x \<subseteq> fingerprints y"
    by blast
  have "inc_CorrelationKey y = inc_CorrelationKey x"
  proof (cases "i = inc_ID inc")
    case True
    have "abs s' = abs s \<or> (\<exists>z. abs s' (inc_ID inc) = Some z \<and> persisted rt inc z)"
      using save_atomic [OF inv, of inc _ s'] save_stores [OF inv, of inc _ s'] save by (cases r) auto
    with True x y key show ?thesis by (auto simp: persisted_def)
  next
    case False
    with save_frame [OF inv save False] x y show ?thesis by simp
  qed
  with y show ?thesis by blast
qed

lemma save_keeps_recorded:
  assumes "\<And>j x. abs s j = Some x \<Longrightarrow>
      \<exists>y. abs s' j = Some y \<and> inc_CorrelationKey y = inc_CorrelationKey x \<and> fingerprints x \<subseteq> fingerprints y"
    and "recorded s b"
  shows "recorded s' b"
proof -
  from assms(2) obtain j x where x: "abs s j = Some x" "inc_CorrelationKey x = buildCorrelationKey b"
    "al_Fingerprint b \<in> fingerprints x" unfolding recorded_def by blast
  from assms(1) [OF x(1)] obtain y where "abs s' j = Some y" "inc_CorrelationKey y = inc_CorrelationKey x"
    "fingerprints x \<subseteq> fingerprints y" by auto
  with x show ?thesis unfolding recorded_def by auto
qed

lemma save_records:
  assumes "inv s" "ok e s" "st_Save S e s (correlated g i now a found) = (Inr u, s')"
    and "inc_CorrelationKey (correlated g i now a found) = buildCorrelationKey a"
  shows "recorded s' a"
proof -
  from save_stores [OF assms(1-3)] obtain x
    where "abs s' (inc_ID (correlated g i now a found)) = Some x" "persisted rt (correlated g i now a found) x" by blast
  with assms(4) correlated_fingerprints(1) [of a g i now found] show ?thesis
    unfolding recorded_def persisted_def by auto
qed

lemma save_dom:
  assumes "inv s" "ok e s" "st_Save S e s inc = (r, s')"
  shows "dom (abs s) \<subseteq> dom (abs s')" "dom (abs s') \<subseteq> insert (inc_ID inc) (dom (abs s))"
proof -
  show "dom (abs s) \<subseteq> dom (abs s')" using save_accumulates [OF assms] by blast
  have "abs s' i = abs s i" if "i \<noteq> inc_ID inc" for i
    using save_frame [OF assms that] .
  then show "dom (abs s') \<subseteq> insert (inc_ID inc) (dom (abs s))" by (auto simp: dom_def)
qed

lemma conc_step_inv:
  assumes "conc_step c ok w w'" "co_store c = S" "conc_inv s0 w"
  shows "conc_inv s0 w'"
  using assms(1)
proof (cases rule: conc_step.cases)
  case (search n e a found now)
  have inv: "inv (cw_state w)" using assms(3) by (simp add: conc_inv_def)
  have "inc_ID x \<in> dom (abs (cw_state w))" if "found = Some x" for x
    using find_sound [OF inv search(3), of "buildCorrelationKey a" "cc_ExpansionWindow (co_cfg c)" x]
      search(4) that assms(2) by fastforce
  with assms(3) search(1) show ?thesis by (auto simp: conc_inv_def split: if_splits)
next
  case (save n a now found e g i r s')
  let ?inc = "correlated g i now a found"
  have inv: "inv (cw_state w)" using assms(3) by (simp add: conc_inv_def)
  have sv: "st_Save S e (cw_state w) ?inc = (r, s')" using save(4) assms(2) by simp
  note d = save_dom [OF inv save(3) sv]
  have id: "inc_ID ?inc \<in> set (drawn i found) \<union> dom (abs (cw_state w))"
    using assms(3) save(2) by (cases found) (auto simp: conc_inv_def correlated_ID)
  have old: "held s' b" if "held (cw_state w) b" for b
    using that save_accumulates [OF inv save(3) sv] unfolding held_def by blast
  have new: "held s' a" if "r = Inr u" for u
    using save_stores [OF inv save(3) sv [unfolded that]] correlated_fingerprints(1) [of a g i now found]
    by (auto simp: held_def persisted_def)
  have "dom (abs s') \<subseteq> dom (abs s0) \<union> set (drawn i found @ cw_ids w)"
    using d(2) id assms(3) by (auto simp: conc_inv_def)
  moreover have "inc_ID x \<in> dom (abs s')" if "cw_threads w m = Searched b t (Some x)" for m b t x
    using that assms(3) d(1) unfolding conc_inv_def by blast
  ultimately show ?thesis
    using assms(3) save(1) save_inv [OF inv save(3) sv] old new
    by (auto simp: conc_inv_def split: if_splits sum.splits)
qed

lemma conc_step_keyed:
  assumes "conc_step c ok w w'" "co_store c = S" "conc_inv s0 w" "keyed_inv w" "fresh_ids s0 (cw_ids w')"
  shows "keyed_inv w'"
  using assms(1)
proof (cases rule: conc_step.cases)
  case (search n e a found now)
  have inv: "inv (cw_state w)" using assms(3) by (simp add: conc_inv_def)
  have "inc_CorrelationKey x = buildCorrelationKey a \<and>
      (\<exists>y. abs (cw_state w) (inc_ID x) = Some y \<and> inc_CorrelationKey y = buildCorrelationKey a)"
    if "found = Some x" for x
    using find_sound [OF inv search(3), of "buildCorrelationKey a" "cc_ExpansionWindow (co_cfg c)" x]
      search(4) that assms(2) same_incident_fields(6) by fastforce
  with assms(4) search(1) show ?thesis by (auto simp: keyed_inv_def split: if_splits)
next
  case (save n a now found e g i r s')
  let ?inc = "correlated g i now a found"
  have inv: "inv (cw_state w)" using assms(3) by (simp add: conc_inv_def)
  have sv: "st_Save S e (cw_state w) ?inc = (r, s')" using save(4) assms(2) by simp
  have key: "inc_CorrelationKey ?inc = buildCorrelationKey a"
    using assms(4) save(2) by (auto simp: keyed_inv_def split: option.split)
  have same: "inc_CorrelationKey x = inc_CorrelationKey ?inc"
    if "j = inc_ID ?inc" "abs (cw_state w) j = Some x" for j x
  proof (cases found)
    case None
    with assms(3,5) save(1) have "abs (cw_state w) i = None"
      by (auto simp: fresh_ids_def conc_inv_def domIff)
    with None that show ?thesis by (simp add: correlated_ID)
  next
    case (Some z)
    with save(2) assms(4) have "\<exists>y. abs (cw_state w) (inc_ID z) = Some y \<and>
        inc_CorrelationKey y = buildCorrelationKey a"
      unfolding keyed_inv_def by blast
    with that Some key show ?thesis by (auto simp: correlated_ID)
  qed
  have keep: "\<exists>y. abs s' j = Some y \<and> inc_CorrelationKey y = inc_CorrelationKey x \<and> fingerprints x \<subseteq> fingerprints y"
    if x: "abs (cw_state w) j = Some x" for j x
    by (rule save_keeps_key [OF inv save(3) sv x]) (rule same [OF _ x])
  have threads: "\<exists>y. abs s' (inc_ID x) = Some y \<and> inc_CorrelationKey y = buildCorrelationKey b"
    if "cw_threads w m = Searched b t (Some x)" for m b t x
  proof -
    from assms(4) that obtain y where y: "abs (cw_state w) (inc_ID x) = Some y"
      "inc_CorrelationKey y = buildCorrelationKey b" unfolding keyed_inv_def by blast
    from keep [OF y(1)] y(2) show ?thesis by auto
  qed
  have old: "recorded s' b" if "recorded (cw_state w) b" for b
    by (rule save_keeps_recorded [OF keep that])
  have new: "recorded s' a" if "r = Inr u" for u
    by (rule save_records [OF inv save(3) sv [unfolded that] key])
  show ?thesis
    using assms(4) save(1) threads old new by (auto simp: keyed_inv_def split: if_splits sum.splits)
qed

lemma conc_reachable_inv:
  assumes "conc_reachable c ok s w" "co_store c = S" "inv s"
  shows "conc_inv s w \<and> (fresh_ids s (cw_ids w) \<longrightarrow> keyed_inv w)"
  using assms(1)
proof (induction rule: rtranclp_induct)
  case base
  then show ?case using assms(3) by (simp add: conc_inv_def keyed_inv_def init_world_def)
next
  case (step v w)
  have "fresh_ids s (cw_ids w) \<longrightarrow> fresh_ids s (cw_ids v)"
    using step.hyps(2) by (auto elim!: conc_step.cases intro: fresh_ids_append)
  with step conc_step_inv [OF step.hyps(2) assms(2)] conc_step_keyed [OF step.hyps(2) assms(2)] show ?case by blast
qed

lemma accepted_kept:
  assumes "conc_reachable c ok s w" "co_store c = S" "inv s" "a \<in> set (cw_accepted w)"
  shows "held (cw_state w) a" "fresh_ids s (cw_ids w) \<Longrightarrow> recorded (cw_state w) a"
  using conc_reachable_inv [OF assms(1-3)] assms(4) by (auto simp: conc_inv_def keyed_inv_def)

end

lemma pg_Save_accumulates:
  assumes inv: "db_inv d" and save: "pg_Save e d inc = (r, d')" and x: "pg_abs d i = Some x"
  shows "\<exists>y. pg_abs d' i = Some y \<and> fingerprints x \<subseteq> fingerprints y"
  using save
proof (cases rule: pg_Save_cases)
  case (failed m k)
  then have "pg_abs d' i = pg_abs d i" by (simp add: pg_abs_def find_row_def alerts_of_def)
  with x show ?thesis by simp
next
  case (stored c c1 c2)
  note s = pg_Save_done [OF stored(1-3)]
  from x s(1) [of i] obtain y where y: "pg_abs (snd c2) i = Some y"
    by (auto simp: pg_abs_def split: if_splits)
  have "fp \<in> fingerprints y" if "fp \<in> fingerprints x" for fp
    using that alert_at_fingerprints [OF x] alert_at_fingerprints [OF y] s(3) [of i fp]
    by (auto simp: alert_columns_def split: option.splits)
  with y stored(4) show ?thesis by auto
qed

interpretation pg_acc: accumulating_store pg_incident_store pg_abs db_inv "pg_ok rt" rt pg_recent for rt
  by unfold_locales (simp add: pg_Save_accumulates)

lemma pg_fresh_ids: "pg_acc.fresh_ids empty_db ids \<longleftrightarrow> distinct ids"
  by (auto simp: pg_acc.fresh_ids_def pg_abs_empty)

text \<open>
  C4: on PostgreSQL no accepted alert is ever lost, under any interleaving of calls, any failing round
  trips and any IDs of the new incidents: from then on an incident of the store holds its fingerprint.
  As long as the new incidents have distinct IDs, that is so of an incident with the alert's own
  correlation key; a collision of two IDs can move it to the incident of another key.
\<close>

theorem accepted_alerts_recorded:
  assumes "conc_reachable c (pg_ok rt) empty_db w" "co_store c = pg_incident_store"
    and "a \<in> set (cw_accepted w)"
  shows "(\<exists>i x. pg_abs (cw_state w) i = Some x \<and> al_Fingerprint a \<in> fingerprints x) \<and>
    (distinct (cw_ids w) \<longrightarrow> (\<exists>i x. pg_abs (cw_state w) i = Some x \<and>
       inc_CorrelationKey x = buildCorrelationKey a \<and> al_Fingerprint a \<in> fingerprints x))"
  using pg_acc.accepted_kept [OF assms(1,2) db_inv_empty assms(3)]
  by (simp add: pg_fresh_ids pg_acc.held_def pg_acc.recorded_def)

theorem accepted_alerts_recorded_witness:
  "\<exists>(w :: db world) i x. cw_accepted w = [demo_alert ''f'' 1] \<and> distinct (cw_ids w) \<and> pg_abs (cw_state w) i = Some x \<and>
     inc_CorrelationKey x = buildCorrelationKey (demo_alert ''f'' 1) \<and> ''f'' \<in> fingerprints x"
proof -
  let ?c = "demo_correlator pg_incident_store :: (db, pg_env) correlator" and ?a = "demo_alert ''f'' 1"
  let ?ce = "demo_call (demo_pg_env None 9) 9 ''i''" and ?w = "init_world empty_db"
  let ?p = "ProcessAlert ?c ?ce empty_db ?a"
  have p: "ProcessAlert ?c ?ce (cw_state ?w) ?a = (Inr (), snd ?p)"
    by (simp add: ProcessAlert_def demo_correlator_def demo_call_def pg_FindOpenByCorrelationKey_def
        FindOpenByCorrelationKey_def order_by_desc_def correlated_def new_incident_def pg_eval init_world_def)
  have ok: "pg_ok (\<lambda>t. t) (ce_find ?ce) (cw_state ?w)" "pg_ok (\<lambda>t. t) (ce_save ?ce) (cw_state ?w)"
    "cw_threads ?w 0 = Idle" "co_store ?c = pg_incident_store"
    by (simp_all add: demo_call_def demo_correlator_def demo_pg_ok init_world_def)
  obtain w where r: "conc_reachable ?c (pg_ok (\<lambda>t. t)) empty_db w" and acc: "cw_accepted w = [?a]"
    and ids: "distinct (cw_ids w)"
    by (rule ProcessAlert_steps [where w = ?w and n = 0 and ce = ?ce and ok = "pg_ok (\<lambda>t. t)", OF ok(3,1,2) p])
      (force simp: init_world_def)
  from acc have "?a \<in> set (cw_accepted w)" by simp
  from accepted_alerts_recorded [OF r ok(4) this] acc ids show ?thesis by (auto simp: demo_alert_def)
qed

end
