(* ===== verification/Queue_Nats.thy ===== *)
theory Queue_Nats
  imports Effects
begin

text \<open>
  \<open>internal/queue\<close> (the interface \<open>Queue\<close> and its NATS JetStream implementation) and \<open>internal/ingest\<close>
  (the worker that consumes the subject \<open>alerts.ingest\<close>).

  The NATS client library is an argument: \<open>nats_env\<close> has the outcome of each of its calls. The loop
  \<open>processMessages\<close> is a partial function, since it may run for ever: its value is the trace of what
  it did to each message, or None if it does not return. A message is the reading of its bytes as
  JSON. The connection's options (a name, endless reconnects 2 seconds apart, handlers that log) and
  those of \<open>PullSubscribe\<close> (bound to the stream, manual acknowledgement) are not represented.
\<close>

section \<open>The client\<close>

datatype storage_type = FileStorage | MemoryStorage

datatype retention_policy = LimitsPolicy | InterestPolicy | WorkQueuePolicy

datatype ack_policy = AckNonePolicy | AckAllPolicy | AckExplicitPolicy

datatype deliver_policy = DeliverAllPolicy | DeliverLastPolicy | DeliverNewPolicy

record stream_config =
  sc_Name :: string
  sc_Subjects :: "string list"
  sc_Storage :: storage_type
  sc_Retention :: retention_policy
  sc_MaxAge :: duration
  sc_MaxBytes :: int
  sc_Replicas :: int

record consumer_config =
  cn_Durable :: string
  cn_FilterSubject :: string
  cn_AckPolicy :: ack_policy
  cn_DeliverPolicy :: deliver_policy
  cn_MaxDeliver :: int
  cn_AckWait :: duration

record nats_env =
  ne_connect :: "error option"
  ne_jetstream :: "error option"
  ne_stream_info :: "error option"
  ne_add_stream :: "stream_config \<Rightarrow> error option"
  ne_publish :: "string \<Rightarrow> json \<Rightarrow> error option"
  ne_pull_subscribe :: "nat \<Rightarrow> string \<Rightarrow> error option"  \<comment> \<open>the first and the second try\<close>
  ne_add_consumer :: "consumer_config \<Rightarrow> error option"

datatype nats_event =
    ConnOpened
  | ConnClosed
  | StreamAdded stream_config
  | ConsumerAdded consumer_config

record nats_queue =
  nq_js :: bool   \<comment> \<open>whether the JetStream context is set\<close>
  nq_nc :: bool   \<comment> \<open>whether the connection is set\<close>
  nq_url :: string

definition alerts_stream :: stream_config where
  "alerts_stream =
     \<lparr>sc_Name = ''alerts'', sc_Subjects = [''alerts.>''], sc_Storage = FileStorage,
      sc_Retention = LimitsPolicy, sc_MaxAge = 7 * 24 * hour,
      sc_MaxBytes = 5 * 1024 * 1024 * 1024, sc_Replicas = 1\<rparr>"

definition quoted :: "string \<Rightarrow> string" where
  "quoted s = [CHR 0x27] @ s @ [CHR 0x27]"

definition ensureStream :: "nats_env \<Rightarrow> error option \<times> nats_event list" where
  "ensureStream e =
     (case ne_stream_info e of
        None \<Rightarrow> (None, [])
      | Some _ \<Rightarrow>
          (case ne_add_stream e alerts_stream of
             Some err \<Rightarrow> (Some (wrap_err (''failed to create stream '' @ quoted (sc_Name alerts_stream)) err), [])
           | None \<Rightarrow> (None, [StreamAdded alerts_stream])))"

definition NewNATSQueue :: "nats_env \<Rightarrow> string \<Rightarrow> nats_queue result \<times> nats_event list" where
  "NewNATSQueue e url =
     (if url = [] then (Inl ''NATS URL cannot be empty'', [])
      else (case ne_connect e of
        Some err \<Rightarrow> (Inl (wrap_err (''failed to connect to NATS at '' @ url) err), [])
      | None \<Rightarrow>
          (case ne_jetstream e of
             Some err \<Rightarrow> (Inl (wrap_err ''failed to initialize JetStream'' err), [ConnOpened, ConnClosed])
           | None \<Rightarrow>
               (case ensureStream e of
                  (Some err, tr) \<Rightarrow>
                    (Inl (wrap_err ''failed to ensure stream exists'' err), [ConnOpened] @ tr @ [ConnClosed])
                | (None, tr) \<Rightarrow>
                    (Inr \<lparr>nq_js = True, nq_nc = True, nq_url = url\<rparr>, [ConnOpened] @ tr)))))"

definition Publish :: "nats_env \<Rightarrow> nats_queue \<Rightarrow> string \<Rightarrow> json \<Rightarrow> error option \<times> effect list" where
  "Publish e q subject data =
     (if \<not> nq_js q then (Some ''JetStream context not initialized'', [])
      else (map_option (wrap_err (''failed to publish to '' @ subject)) (ne_publish e subject data),
            [Published subject data]))"

definition ingest_consumer :: "string \<Rightarrow> consumer_config" where
  "ingest_consumer subject =
     \<lparr>cn_Durable = ''sentientd-ingest'', cn_FilterSubject = subject, cn_AckPolicy = AckExplicitPolicy,
      cn_DeliverPolicy = DeliverAllPolicy, cn_MaxDeliver = 10,
      cn_AckWait = 30 * second\<rparr>"

definition Subscribe :: "nats_env \<Rightarrow> nats_queue \<Rightarrow> string \<Rightarrow> error option \<times> nats_event list" where
  \<comment> \<open>without an error the processing loop has been started\<close>
  "Subscribe e q subject =
     (if \<not> nq_js q then (Some ''JetStream context not initialized'', [])
      else (case ne_pull_subscribe e 0 subject of
        None \<Rightarrow> (None, [])
      | Some _ \<Rightarrow>
          (case ne_add_consumer e (ingest_consumer subject) of
             Some err \<Rightarrow>
               (Some (wrap_err (''failed to create consumer '' @ quoted (cn_Durable (ingest_consumer subject))) err), [])
           | None \<Rightarrow>
               (case ne_pull_subscribe e 1 subject of
                  Some err \<Rightarrow>
                    (Some (wrap_err (''failed to subscribe to subject '' @ quoted subject) err),
                     [ConsumerAdded (ingest_consumer subject)])
                | None \<Rightarrow> (None, [ConsumerAdded (ingest_consumer subject)])))))"

definition CloseQueue :: "nats_queue \<Rightarrow> nats_event list" where
  "CloseQueue q = (if nq_nc q then [ConnClosed] else [])"

section \<open>The processing loop\<close>

type_synonym message = "json result"
type_synonym handler = "message \<Rightarrow> error option"

datatype fetch =
    FetchTimeout
  | FetchError error
  | Fetched "message list"

datatype action =
    Ack message
  | Nak message
  | Sleep duration

fun process_batch :: "handler \<Rightarrow> message list \<Rightarrow> action list" where
  "process_batch h [] = []"
| "process_batch h (m # ms) =
     (case h m of Some err \<Rightarrow> Nak m | None \<Rightarrow> Ack m) # process_batch h ms"

definition process_fetch :: "handler \<Rightarrow> fetch \<Rightarrow> action list" where
  "process_fetch h f =
     (case f of
        FetchTimeout \<Rightarrow> []
      | FetchError err \<Rightarrow> [Sleep (2 * second)]
      | Fetched ms \<Rightarrow> process_batch h ms)"

partial_function (option) processMessages ::
    "handler \<Rightarrow> (nat \<Rightarrow> fetch option) \<Rightarrow> nat \<Rightarrow> action list option" where
  \<comment> \<open>\<open>sub n\<close> is what the n-th turn finds: None if the subscription is no longer valid\<close>
  "processMessages h sub n =
     (case sub n of
        None \<Rightarrow> Some []
      | Some f \<Rightarrow> do { rest \<leftarrow> processMessages h sub (Suc n); Some (process_fetch h f @ rest) })"

definition process_fetches :: "handler \<Rightarrow> fetch list \<Rightarrow> action list" where
  \<comment> \<open>what finitely many turns do\<close>
  "process_fetches h fs = concat (map (process_fetch h) fs)"

section \<open>The interface\<close>

text \<open>
  The interface \<open>Queue\<close> as the record of its operations. What a subscription leads to (its fetches, in
  their order, and what is done to each message) is the result of \<open>Subscribe\<close>.
\<close>

record ('q, 'e) queue_ops =
  qo_Publish :: "'e \<Rightarrow> 'q \<Rightarrow> string \<Rightarrow> json \<Rightarrow> error option \<times> effect list"
  qo_Subscribe :: "'e \<Rightarrow> 'q \<Rightarrow> string \<Rightarrow> handler \<Rightarrow> fetch list \<Rightarrow> error option \<times> action list"
  qo_Close :: "'q \<Rightarrow> error option \<times> nats_event list"

definition nats_queue_ops :: "(nats_queue, nats_env) queue_ops" where
  "nats_queue_ops =
     \<lparr>qo_Publish = Publish,
      qo_Subscribe = (\<lambda>e q subject h fs.
        case fst (Subscribe e q subject) of
          Some err \<Rightarrow> (Some err, [])
        | None \<Rightarrow> (None, process_fetches h fs)),
      qo_Close = (\<lambda>q. (None, CloseQueue q))\<rparr>"

section \<open>The ingest worker\<close>

definition handleMessage :: handler where
  "handleMessage msg =
     (case msg of
        Inl err \<Rightarrow> Some err
      | Inr j \<Rightarrow> (case dec_map dec_any j of None \<Rightarrow> Some json_error | Some data \<Rightarrow> None))"

record ('q, 'e) worker =
  wk_ops :: "('q, 'e) queue_ops"
  wk_queue :: 'q

definition NewWorker :: "('q, 'e) queue_ops \<Rightarrow> 'q \<Rightarrow> ('q, 'e) worker" where
  "NewWorker ops q = \<lparr>wk_ops = ops, wk_queue = q\<rparr>"

definition StartWorker :: "'e \<Rightarrow> ('q, 'e) worker \<Rightarrow> fetch list \<Rightarrow> error option \<times> action list" where
  \<comment> \<open>from the start to the end of its context; \<open>fs\<close> is what the subscription fetches meanwhile\<close>
  "StartWorker e w fs = qo_Subscribe (wk_ops w) e (wk_queue w) ''alerts.ingest'' handleMessage fs"

section \<open>Properties\<close>

text \<open>
  Setting up the queue leaks no connection: after an error every connection that was opened is
  closed, and a queue is returned with its connection open and its stream present: found, or added by
  this call with the subjects \<open>alerts.>\<close> that the worker's subject falls under.
\<close>

theorem NewNATSQueue_no_leak:
  "case NewNATSQueue e url of
     (Inl err, tr) \<Rightarrow> count_list tr ConnOpened = count_list tr ConnClosed
   | (Inr q, tr) \<Rightarrow> nq_js q \<and> nq_nc q \<and> count_list tr ConnOpened = 1 \<and> count_list tr ConnClosed = 0 \<and>
       (if ne_stream_info e = None then True else StreamAdded alerts_stream \<in> set tr)"
  by (auto simp: NewNATSQueue_def ensureStream_def split: option.split)

definition acked :: "action list \<Rightarrow> message list" where
  "acked as = concat (map (\<lambda>a. case a of Ack m \<Rightarrow> [m] | _ \<Rightarrow> []) as)"

definition naked :: "action list \<Rightarrow> message list" where
  "naked as = concat (map (\<lambda>a. case a of Nak m \<Rightarrow> [m] | _ \<Rightarrow> []) as)"

fun fetched_messages :: "fetch list \<Rightarrow> message list" where
  "fetched_messages [] = []"
| "fetched_messages (Fetched ms # fs) = ms @ fetched_messages fs"
| "fetched_messages (_ # fs) = fetched_messages fs"

lemma acked_batch:
  "acked (process_batch h ms @ as) = filter (\<lambda>m. h m = None) ms @ acked as"
  "naked (process_batch h ms @ as) = filter (\<lambda>m. h m \<noteq> None) ms @ naked as"
  by (induction ms) (auto simp: acked_def naked_def split: option.split)

lemma acked_sleep [simp]: "acked (Sleep d # as) = acked as" "naked (Sleep d # as) = naked as"
  by (simp_all add: acked_def naked_def)

lemma process_fetches_settle:
  "acked (process_fetches h fs) = filter (\<lambda>m. h m = None) (fetched_messages fs)"
  "naked (process_fetches h fs) = filter (\<lambda>m. h m \<noteq> None) (fetched_messages fs)"
proof (induction fs rule: fetched_messages.induct)
  case 1
  {
    case 1
    show ?case by (simp add: process_fetches_def acked_def)
  next
    case 2
    show ?case by (simp add: process_fetches_def naked_def)
  }
qed (simp_all add: process_fetches_def process_fetch_def acked_batch)

text \<open>
  The loop settles every message it fetches, once and in order: it acknowledges exactly those
  whose handler succeeds and gives back exactly those whose handler fails; time-outs and fetch errors
  in between lose none.
\<close>

theorem processMessages_settles:
  "acked (process_fetches h fs) = filter (\<lambda>m. h m = None) (fetched_messages fs) \<and>
   naked (process_fetches h fs) = filter (\<lambda>m. h m \<noteq> None) (fetched_messages fs)"
  by (simp add: process_fetches_settle)

lemma processMessages_stops:
  assumes "sub (n + k) = None" "\<And>j. j < k \<Longrightarrow> sub (n + j) \<noteq> None"
  shows "processMessages h sub n = Some (process_fetches h (map (\<lambda>j. the (sub (n + j))) [0..<k]))"
  using assms
proof (induction k arbitrary: n)
  case 0
  then show ?case by (subst processMessages.simps) (simp add: process_fetches_def)
next
  case (Suc k)
  from Suc.prems(2) [of 0] obtain f where f: "sub n = Some f" by auto
  have r: "processMessages h sub (Suc n) =
      Some (process_fetches h (map (\<lambda>j. the (sub (Suc n + j))) [0..<k]))"
    by (rule Suc.IH) (use Suc.prems(1) Suc.prems(2) [of "Suc j" for j] in auto)
  have "[0..<Suc k] = 0 # map Suc [0..<k]" by (simp add: upt_conv_Cons map_Suc_upt del: upt_Suc)
  with f r show ?case
    by (subst processMessages.simps) (simp add: process_fetches_def comp_def del: upt_Suc)
qed

lemma processMessages_stopped: "processMessages h sub n = Some as \<Longrightarrow> \<exists>k \<ge> n. sub k = None"
proof (erule processMessages.raw_induct [where P = "\<lambda>h sub n as. \<exists>k \<ge> n. sub k = None", rotated])
  fix loop :: "handler \<Rightarrow> (nat \<Rightarrow> fetch option) \<Rightarrow> nat \<Rightarrow> action list option"
    and h :: handler and sub :: "nat \<Rightarrow> fetch option" and n as
  assume IH: "\<And>h sub n as. loop h sub n = Some as \<Longrightarrow> \<exists>k \<ge> n. sub k = None"
    and "(case sub n of None \<Rightarrow> Some []
      | Some f \<Rightarrow> do { rest \<leftarrow> loop h sub (Suc n); Some (process_fetch h f @ rest) }) = Some as"
  then consider "sub n = None" | rest where "loop h sub (Suc n) = Some rest"
    by (auto split: option.splits Option.bind_splits)
  then show "\<exists>k \<ge> n. sub k = None" by cases (use IH [of h sub "Suc n"] in \<open>auto dest: Suc_leD\<close>)
qed

text \<open>
  C22: when the processing loop ends: exactly if the subscription becomes invalid at some turn, which
  is the only way out of it; it has then processed what was fetched in all the turns before. Neither
  time-outs nor errors of Fetch or of the handler end it, and the worker's context does not either.
\<close>

theorem processMessages_returns:
  "processMessages h sub 0 =
     (if \<exists>n. sub n = None
      then Some (process_fetches h (map (\<lambda>n. the (sub n)) [0..<LEAST n. sub n = None]))
      else None)"
proof (cases "\<exists>n. sub n = None")
  case True
  let ?k = "LEAST n. sub n = None"
  have "sub (0 + ?k) = None" using LeastI_ex [OF True] by (simp only: add_0)
  moreover have "sub (0 + j) \<noteq> None" if "j < ?k" for j
    using not_less_Least [OF that] by (simp only: add_0) blast
  ultimately have "processMessages h sub 0 = Some (process_fetches h (map (\<lambda>j. the (sub (0 + j))) [0..<?k]))"
    by (rule processMessages_stops)
  then show ?thesis unfolding if_P [OF True] by (simp only: add_0)
next
  case False
  then have "processMessages h sub 0 = None"
    using processMessages_stopped [of h sub 0] by (meson not_None_eq)
  then show ?thesis unfolding if_not_P [OF False] .
qed

text \<open>
  What the worker accepts: a message is acknowledged exactly if it is a JSON object, or null,
  all of whose numbers fit a float64. Nothing else of its content matters.
\<close>

theorem handleMessage_accepts:
  "handleMessage msg = None \<longleftrightarrow>
     (msg = Inr JNull \<or> (\<exists>kvs. msg = Inr (JObj kvs) \<and> dec_entries dec_any kvs fmempty \<noteq> None))"
  by (auto simp: handleMessage_def dec_map_def split: sum.splits option.splits json.splits)

text \<open>
  The consumer's settings (at most 10 deliveries, 30 seconds to acknowledge) reach the server
  only when the first attempt to subscribe fails.
\<close>

theorem consumer_config_only_on_failure:
  "ConsumerAdded cn \<in> set (snd (Subscribe e q subject)) \<longleftrightarrow>
     nq_js q \<and> ne_pull_subscribe e 0 subject \<noteq> None \<and> ne_add_consumer e (ingest_consumer subject) = None \<and>
     cn = ingest_consumer subject"
  by (auto simp: Subscribe_def split: option.splits)

section \<open>What a client may rely on\<close>

locale queue_contract =
  fixes ops :: "('q, 'e) queue_ops"
  assumes publish_sends: "qo_Publish ops e q subject j = (None, tr) \<Longrightarrow> tr = [Published subject j]"
    and publish_error: "qo_Publish ops e q subject j = (Some err, tr) \<Longrightarrow> set tr \<subseteq> {Published subject j}"
    and settles: "qo_Subscribe ops e q subject h fs = (None, as) \<Longrightarrow>
      acked as = filter (\<lambda>m. h m = None) (fetched_messages fs) \<and>
      naked as = filter (\<lambda>m. h m \<noteq> None) (fetched_messages fs)"
    and not_subscribed: "qo_Subscribe ops e q subject h fs = (Some err, as) \<Longrightarrow> as = []"
begin

lemma worker_acks:
  assumes "StartWorker e (NewWorker ops q) fs = (None, as)"
  shows "set (acked as) = {m \<in> set (fetched_messages fs). handleMessage m = None}"
    and "set (naked as) = {m \<in> set (fetched_messages fs). handleMessage m \<noteq> None}"
  using settles [of e q "''alerts.ingest''" handleMessage fs as] assms by (auto simp: StartWorker_def NewWorker_def)

lemma worker_settles_all:
  assumes "StartWorker e (NewWorker ops q) fs = (None, as)"
  shows "set (fetched_messages fs) = set (acked as) \<union> set (naked as)"
  using worker_acks [OF assms] by auto

end

interpretation nats: queue_contract nats_queue_ops
proof
  show "qo_Publish nats_queue_ops e q subject j = (None, tr) \<Longrightarrow> tr = [Published subject j]" for e q subject j tr
    by (auto simp: nats_queue_ops_def Publish_def split: if_splits)
  show "qo_Publish nats_queue_ops e q subject j = (Some err, tr) \<Longrightarrow> set tr \<subseteq> {Published subject j}" for e q subject j err tr
    by (auto simp: nats_queue_ops_def Publish_def split: if_splits)
qed (auto simp: nats_queue_ops_def process_fetches_settle split: option.splits)

text \<open>
  The worker that \<open>main\<close> starts: between its start and the end of its context it acknowledges exactly the
  fetched messages that are JSON objects or null, and gives the others back.
\<close>

lemma ingest_worker_settles:
  assumes "StartWorker e (NewWorker nats_queue_ops q) fs = (None, as)"
  shows "set (acked as) = {m \<in> set (fetched_messages fs). handleMessage m = None}"
    and "set (fetched_messages fs) = set (acked as) \<union> set (naked as)"
  by (rule nats.worker_acks(1) [OF assms], rule nats.worker_settles_all [OF assms])

end
