(* ===== verification/Config.thy ===== *)
theory Config
  imports Domain
begin

text \<open>
  \<open>internal/config\<close>: the configuration read from the environment. \<open>getenv\<close> is \<open>os.Getenv\<close>: the empty
  string for an unset variable.
\<close>

record config =
  cf_ListenAddr :: string
  cf_AlertPath :: string
  cf_InitialWindow :: duration
  cf_ExpansionWindow :: duration
  cf_KagentURL :: string
  cf_ArgoNamespace :: string
  cf_SlackWebhookURL :: string
  cf_ServiceName :: string
  cf_Environment :: string
  cf_DatabaseURL :: string
  cf_UseInMemoryStore :: bool
  cf_NATSURL :: string
  cf_NATSEnabled :: bool
  cf_PolicyDir :: string

definition getEnv :: "(string \<Rightarrow> string) \<Rightarrow> string \<Rightarrow> string \<Rightarrow> string" where
  "getEnv getenv key def = (let v = getenv key in if v = [] then def else v)"

definition getDurationEnv :: "(string \<Rightarrow> string) \<Rightarrow> string \<Rightarrow> duration \<Rightarrow> duration" where
  "getDurationEnv getenv key def =
     (let v = getenv key in
      if v = [] then def
      else (case parse_duration v of Inl err \<Rightarrow> def | Inr d \<Rightarrow> d))"

definition FromEnv :: "(string \<Rightarrow> string) \<Rightarrow> config" where
  "FromEnv getenv =
     \<lparr>cf_ListenAddr = getEnv getenv ''SENTIENTD_LISTEN_ADDR'' '':8080'',
      cf_AlertPath = ''/alertmanager/webhook'',
      cf_InitialWindow = getDurationEnv getenv ''SENTIENTD_INITIAL_WINDOW'' (30 * second),
      cf_ExpansionWindow = getDurationEnv getenv ''SENTIENTD_EXPANSION_WINDOW'' (5 * minute),
      cf_KagentURL = getEnv getenv ''SENTIENTD_KAGENT_URL'' ''http://kagent:8080'',
      cf_ArgoNamespace = getEnv getenv ''SENTIENTD_ARGO_NAMESPACE'' ''argo'',
      cf_SlackWebhookURL = getEnv getenv ''SENTIENTD_SLACK_WEBHOOK_URL'' [],
      cf_ServiceName = getEnv getenv ''SENTIENTD_SERVICE_NAME'' ''sentientd'',
      cf_Environment = getEnv getenv ''SENTIENTD_ENVIRONMENT'' ''dev'',
      cf_DatabaseURL = getEnv getenv ''DATABASE_URL'' [],
      cf_UseInMemoryStore = (getEnv getenv ''USE_INMEMORY_STORE'' ''false'' = ''true''),
      cf_NATSURL = getEnv getenv ''NATS_URL'' [],
      cf_NATSEnabled = (getEnv getenv ''NATS_ENABLED'' ''false'' = ''true''),
      cf_PolicyDir = getEnv getenv ''POLICY_DIR'' ''internal/policy/policies''\<rparr>"

lemma getEnv_nonempty: "def \<noteq> [] \<Longrightarrow> getEnv getenv key def \<noteq> []"
  by (simp add: getEnv_def Let_def)

text \<open>
  What every environment gives: the addresses, names and the policy directory are never empty
  (so the engine is always asked to load policies), and a window is the variable's duration exactly
  when the variable parses; a window may be negative, since nothing checks its sign.
\<close>

theorem FromEnv_defaults:
  "list_all (\<lambda>s. s \<noteq> []) [cf_ListenAddr (FromEnv getenv), cf_AlertPath (FromEnv getenv),
     cf_KagentURL (FromEnv getenv), cf_ArgoNamespace (FromEnv getenv), cf_ServiceName (FromEnv getenv),
     cf_Environment (FromEnv getenv), cf_PolicyDir (FromEnv getenv)] \<and>
   cf_ExpansionWindow (FromEnv getenv) =
     (case parse_duration (getenv ''SENTIENTD_EXPANSION_WINDOW'') of Inl _ \<Rightarrow> 5 * minute | Inr d \<Rightarrow> d) \<and>
   cf_InitialWindow (FromEnv getenv) =
     (case parse_duration (getenv ''SENTIENTD_INITIAL_WINDOW'') of Inl _ \<Rightarrow> 30 * second | Inr d \<Rightarrow> d)"
proof -
  have "parse_duration [] = Inl (invalid_duration [])" by (simp add: parse_duration_def)
  then show ?thesis by (simp add: FromEnv_def getEnv_def getDurationEnv_def Let_def)
qed

end
