(* ===== verification/Calendar.thy ===== *)
theory Calendar
  imports Effects
begin

text \<open>
  That the calendar of \<open>GoTime\<close> is one: a day has exactly one date, with a month from 1 to 12 and a day
  the month has; so the texts of instants that the service writes (incident IDs, the times in JSON)
  determine the instant up to their precision.
\<close>

section \<open>Years\<close>

lemma div_succ:
  fixes y k :: int
  assumes "0 < k"
  shows "(y + k) div k = (y + (k - 1)) div k + (if y mod k = 0 then 1 else 0)"
proof -
  let ?q = "y div k" and ?r = "y mod k"
  have y: "y = ?r + k * ?q" by simp
  have r: "0 \<le> ?r" "?r < k" using assms by simp_all
  have "(y + (k - 1)) div k = (?r + (k - 1) + k * ?q) div k"
    by (rule arg_cong [where f = "\<lambda>x. x div k"]) (use y in linarith)
  also have "\<dots> = ?q + (?r + (k - 1)) div k" using assms by (intro div_mult_self2) simp
  also have "(?r + (k - 1)) div k = (if ?r = 0 then 0 else 1)"
  proof (cases "?r = 0")
    case False
    with r have "(?r + (k - 1)) div k = (?r - 1) div k + 1"
      using div_add_self2 [of k "?r - 1"] assms by (simp add: algebra_simps)
    also have "(?r - 1) div k = 0" using False r by (intro div_pos_pos_trivial) linarith+
    finally show ?thesis using False by simp
  qed (use assms in simp)
  finally show ?thesis using assms by simp
qed

lemma days_before_year_Suc: "days_before_year (y + 1) = days_before_year y + 365 + (if is_leap y then 1 else 0)"
proof -
  have s: "(y + 4) div 4 = (y + (4 - 1)) div 4 + (if y mod 4 = 0 then 1 else 0)"
    "(y + 100) div 100 = (y + (100 - 1)) div 100 + (if y mod 100 = 0 then 1 else 0)"
    "(y + 400) div 400 = (y + (400 - 1)) div 400 + (if y mod 400 = 0 then 1 else 0)"
    by (rule div_succ, rule zero_less_numeral)+
  have t: "(4::int) - 1 = 3" "(100::int) - 1 = 99" "(400::int) - 1 = 399" by simp_all
  have a: "(y + 4) div 4 = (y + 3) div 4 + (if y mod 4 = 0 then 1 else 0)"
    and b: "(y + 100) div 100 = (y + 99) div 100 + (if y mod 100 = 0 then 1 else 0)"
    and c: "(y + 400) div 400 = (y + 399) div 400 + (if y mod 400 = 0 then 1 else 0)"
    using s unfolding t by blast+
  have e: "y + 1 + 3 = y + 4" "y + 1 + 99 = y + 100" "y + 1 + 399 = y + 400" by simp_all
  have dvd: "4 dvd (100::int)" "100 dvd (400::int)" by simp_all
  have m: "y mod 100 = 0 \<longrightarrow> y mod 4 = 0" "y mod 400 = 0 \<longrightarrow> y mod 100 = 0"
    by (rule impI, rule dvd_imp_mod_0, rule dvd_trans [OF dvd(1)], erule mod_0_imp_dvd,
        rule impI, rule dvd_imp_mod_0, rule dvd_trans [OF dvd(2)], erule mod_0_imp_dvd)
  have eq: "365 * (y + 1) + (A + (if p then 1 else 0)) - (B + (if q then 1 else 0)) + (C + (if r then 1 else 0)) =
      365 * y + A - B + C + 365 + (if p \<and> (\<not> q \<or> r) then 1 else 0)"
    if "q \<longrightarrow> p" "r \<longrightarrow> q" for A B C :: int and p q r
    using that by (cases p; cases q; cases r) simp_all
  show ?thesis unfolding days_before_year_def is_leap_def e a b c by (rule eq [OF m])
qed

lemma days_before_year_bounds:
  "146097 * y - 396 \<le> 400 * days_before_year y" "400 * days_before_year y \<le> 146097 * y + 699"
proof -
  have d: "k * (x div k) \<le> x" "x < k * (x div k) + k" if "0 < k" for x k :: int
    using that pos_mod_bound [OF that, of x] pos_mod_sign [OF that, of x] mult_div_mod_eq [of k x] by linarith+
  have a: "4 * ((y + 3) div 4) \<le> y + 3" "y + 3 < 4 * ((y + 3) div 4) + 4" by (rule d, simp)+
  have b: "100 * ((y + 99) div 100) \<le> y + 99" "y + 99 < 100 * ((y + 99) div 100) + 100" by (rule d, simp)+
  have c: "400 * ((y + 399) div 400) \<le> y + 399" "y + 399 < 400 * ((y + 399) div 400) + 400" by (rule d, simp)+
  have "146097 * y - 396 \<le> 400 * (365 * y + A - B + C) \<and> 400 * (365 * y + A - B + C) \<le> 146097 * y + 699"
    if "4 * A \<le> y + 3" "y + 3 < 4 * A + 4" "100 * B \<le> y + 99" "y + 99 < 100 * B + 100"
      "400 * C \<le> y + 399" "y + 399 < 400 * C + 400" for A B C :: int
    using that by auto
  from this [OF a b c]
  show "146097 * y - 396 \<le> 400 * days_before_year y" "400 * days_before_year y \<le> 146097 * y + 699"
    unfolding days_before_year_def by blast+
qed

lemma year_of_days_bounds:
  "days_before_year (year_of_days n) \<le> n + epoch_days \<and> n + epoch_days < days_before_year (year_of_days n + 1)"
proof -
  let ?N = "n + epoch_days"
  have approx: "days_before_year (y - 1) \<le> N \<and> N < days_before_year (y + 2)"
    if "146097 * y \<le> 400 * N" "400 * N < 146097 * y + 146097" for y N
    using that days_before_year_bounds(2) [of "y - 1"] days_before_year_bounds(1) [of "y + 2"] by auto
  let ?y = "(400 * ?N) div 146097"
  have "146097 * ?y \<le> 400 * ?N" "400 * ?N < 146097 * ?y + 146097" by linarith+
  note b = approx [OF this]
  consider "?N < days_before_year ?y" | "days_before_year ?y \<le> ?N" "days_before_year (?y + 1) \<le> ?N"
    | "days_before_year ?y \<le> ?N" "?N < days_before_year (?y + 1)" by linarith
  then show ?thesis
  proof cases
    case 1
    then have "year_of_days n = ?y - 1" by (simp only: year_of_days_def Let_def if_True)
    with 1 b show ?thesis by simp
  next
    case 2
    then have "\<not> ?N < days_before_year ?y" by linarith
    with 2 have "year_of_days n = ?y + 1" by (simp only: year_of_days_def Let_def if_True if_False)
    with 2 b show ?thesis by (simp add: add.assoc)
  next
    case 3
    then have "\<not> ?N < days_before_year ?y" "\<not> days_before_year (?y + 1) \<le> ?N" by linarith+
    then have "year_of_days n = ?y" by (simp only: year_of_days_def Let_def if_False)
    with 3 show ?thesis by simp
  qed
qed

section \<open>Months and days\<close>

lemma month_of_yday_cases:
  assumes "0 \<le> yd" "yd < 365 + (if leap then 1 else 0)"
  shows "let m = month_of_yday leap yd 11; adj = (\<lambda>m. if 2 < m \<and> leap then 1 else 0) in
    1 \<le> m \<and> m \<le> 12 \<and> days_before (m - 1) + adj m \<le> yd \<and>
    yd < days_before m + (if 2 \<le> m \<and> leap then 1 else 0)"
  using assms by (cases leap) (simp_all add: days_before_def Let_def eval_nat_numeral)

lemma civil_from_days_date:
  assumes "civil_from_days n = (y, m, d)"
  shows "y = year_of_days n \<and> 1 \<le> m \<and> m \<le> 12 \<and> 1 \<le> d \<and> d \<le> days_in m y \<and> days_from_civil y m d = n"
proof -
  let ?y = "year_of_days n"
  let ?yd = "n + epoch_days - days_before_year ?y"
  have yd: "0 \<le> ?yd" "?yd < 365 + (if is_leap ?y then 1 else 0)"
    using year_of_days_bounds [of n] days_before_year_Suc [of ?y] by (auto split: if_splits)
  from assms have m: "y = ?y" "m = month_of_yday (is_leap ?y) ?yd 11"
    and d: "d = ?yd - days_before (m - 1) - (if 2 < m \<and> is_leap ?y then 1 else 0) + 1"
    by (auto simp: civil_from_days_def Let_def)
  note mo = month_of_yday_cases [OF yd, folded m(2), unfolded Let_def]
  have "days_from_civil y m d = n" by (simp add: days_from_civil_def m(1) d)
  moreover have "days_before m - days_before (m - 1) + (if m = 2 \<and> is_leap ?y then 1 else 0) = days_in m ?y"
    by (auto simp: days_in_def days_before_def)
  ultimately show ?thesis using mo d m(1) by auto
qed

lemma civil_from_days_inject: "civil_from_days n = civil_from_days n' \<Longrightarrow> n = n'"
  by (metis civil_from_days_date prod_cases3)

section \<open>Padded numbers\<close>

lemma digits_val_snoc: "digits_val (s @ [c]) = 10 * digits_val s + digit_val c"
  by (simp add: digits_val_def)

lemma digits_val_zeros_front [simp]: "digits_val (replicate k (CHR ''0'') @ s) = digits_val s"
proof (induction k)
  case (Suc k)
  have "digits_val (CHR ''0'' # xs) = digits_val xs" for xs by (simp add: digits_val_def digit_val_def)
  with Suc show ?case by simp
qed simp

lemma digits_val_zeros_back: "digits_val (s @ replicate k (CHR ''0'')) = digits_val s * 10 ^ k"
proof (induction k)
  case (Suc k)
  have "digits_val (s @ replicate (Suc k) (CHR ''0'')) = 10 * digits_val (s @ replicate k (CHR ''0''))"
    using digits_val_snoc [of "s @ replicate k (CHR ''0'')" "CHR ''0''"]
    by (simp add: digit_val_def replicate_append_same [symmetric])
  with Suc show ?case by simp
qed simp

lemma show_nat_digits: "list_all is_digit (show_nat n) \<and> digits_val (show_nat n) = n"
proof (induction n rule: show_nat.induct)
  case (1 n)
  show ?case
  proof (cases "n < 10")
    case True
    then show ?thesis by (simp add: show_nat.simps [of n]) (simp add: digits_val_def)
  next
    case False
    with 1 show ?thesis by (simp add: show_nat.simps [of n] digits_val_snoc)
  qed
qed

lemma show_nat_length: "n < 10 ^ w \<Longrightarrow> 0 < w \<Longrightarrow> length (show_nat n) \<le> w"
proof (induction w arbitrary: n)
  case (Suc w)
  show ?case
  proof (cases "n < 10")
    case False
    with Suc.prems have "0 < w" "n div 10 < 10 ^ w" by (cases w; simp)+
    from Suc.IH [OF this(2,1)] False show ?thesis by (simp add: show_nat.simps [of n])
  qed (simp add: show_nat.simps [of n])
qed simp

lemma pad_digits:
  assumes "n < 10 ^ w" "0 < w"
  shows "length (pad w n) = w" "list_all is_digit (pad w n)" "digits_val (pad w n) = n"
  using show_nat_length [OF assms] show_nat_digits [of n]
  by (auto simp: pad_def Let_def list_all_iff is_digit_def)

lemma pad_inject: "n < 10 ^ w \<Longrightarrow> n' < 10 ^ w \<Longrightarrow> 0 < w \<Longrightarrow> pad w n = pad w n' \<longleftrightarrow> n = n'"
  using pad_digits(3) by metis

lemma take_digits_pad: "n < 10 ^ w \<Longrightarrow> 0 < w \<Longrightarrow> take_digits w (pad w n @ s) = Some (n, s)"
  by (simp add: take_digits_def pad_digits)

lemma rstrip0_zeros: "\<exists>k. s = rstrip0 s @ replicate k (CHR ''0'')"
proof -
  let ?z = "takeWhile (\<lambda>c. c = CHR ''0'') (rev s)"
  have "?z = replicate (length ?z) (CHR ''0'')"
    by (rule replicate_length_same [symmetric]) (auto dest: set_takeWhileD)
  moreover have "s = rstrip0 s @ rev ?z"
    unfolding rstrip0_def by (metis rev_append rev_rev_ident takeWhile_dropWhile_id)
  ultimately show ?thesis by (metis rev_replicate)
qed

lemma take_frac_nano:
  assumes "0 \<le> ns" "ns < second"
  shows "take_frac (frac_nano ns @ ''Z'') = (nat ns, ''Z'')"
proof (cases "ns = 0")
  case True
  then show ?thesis by (simp add: frac_nano_def take_frac_def comma_or_period_def)
next
  case False
  let ?p = "pad 9 (nat ns)" and ?r = "rstrip0 (pad 9 (nat ns))"
  have n: "nat ns < 10 ^ 9" using assms by (simp add: second_def)
  note p = pad_digits [OF n]
  obtain k where k: "?p = ?r @ replicate k (CHR ''0'')" using rstrip0_zeros by blast
  have len: "length ?r + k = 9" using arg_cong [OF k, of length] p(1) by simp
  have dig: "list_all is_digit ?r" using p(2) k by (metis list_all_append zero_less_numeral)
  have val: "digits_val ?r * 10 ^ (9 - length ?r) = nat ns"
    using digits_val_zeros_back [of ?r k] k p(3) len by (metis diff_add_inverse zero_less_numeral)
  have "?r \<noteq> []"
  proof
    assume "?r = []"
    then have "digits_val ?r = 0" by (simp add: digits_val_def)
    with val False assms show False by simp
  qed
  then obtain d rest where r: "?r = d # rest" by (cases ?r) auto
  have z: "\<not> is_digit (CHR ''Z'')" by (simp add: is_digit_def)
  have tw: "takeWhile is_digit (?r @ ''Z'') = ?r" "dropWhile is_digit (?r @ ''Z'') = ''Z''"
    using dig z by (simp_all add: list_all_iff)
  have "take 9 ?r = ?r" using len by simp
  with tw val dig r show ?thesis
    unfolding frac_nano_def take_frac_def using False
    by (simp add: comma_or_period_def Let_def)
qed

section \<open>The time of day\<close>

lemma day_clock:
  "t = (86400 * day_of t + sec_of_day t) * second + nanos_of t"
  "0 \<le> sec_of_day t" "sec_of_day t < 86400" "0 \<le> nanos_of t" "nanos_of t < second"
proof -
  have d: "day_of t = t div second div 86400"
    using zdiv_zmult2_eq [of 86400 t second] by (simp add: day_of_def mult.commute)
  have "t = (t div second) * second + nanos_of t" by (simp add: nanos_of_def)
  moreover have "t div second = 86400 * day_of t + sec_of_day t" by (simp add: d sec_of_day_def)
  ultimately show "t = (86400 * day_of t + sec_of_day t) * second + nanos_of t" by simp
qed (simp_all add: sec_of_day_def nanos_of_def second_def)

lemma clock_parts:
  fixes s :: int
  assumes "0 \<le> s" "s < 86400"
  shows "nat (s div 3600) < 24" "nat (s div 60 mod 60) < 60" "nat (s mod 60) < 60"
    "int (nat (s div 3600)) * 3600 + int (nat (s div 60 mod 60)) * 60 + int (nat (s mod 60)) = s"
proof -
  have q: "s div 3600 = s div 60 div 60" using zdiv_zmult2_eq [of 60 s 60] by simp
  have gen: "nat h < 24 \<and> nat m < 60 \<and> nat r < 60 \<and> int (nat h) * 3600 + int (nat m) * 60 + int (nat r) = s"
    if "s = 60 * n + r" "n = 60 * h + m" "0 \<le> r" "r < 60" "0 \<le> m" "m < 60" for n h m r
  proof -
    have "0 \<le> h" "h < 24" using that assms by linarith+
    with that show ?thesis by (simp add: nat_less_iff)
  qed
  have "nat (s div 60 div 60) < 24 \<and> nat (s div 60 mod 60) < 60 \<and> nat (s mod 60) < 60 \<and>
      int (nat (s div 60 div 60)) * 3600 + int (nat (s div 60 mod 60)) * 60 + int (nat (s mod 60)) = s"
    by (rule gen [of "s div 60"]) simp_all
  then show "nat (s div 3600) < 24" "nat (s div 60 mod 60) < 60" "nat (s mod 60) < 60"
    "int (nat (s div 3600)) * 3600 + int (nat (s div 60 mod 60)) * 60 + int (nat (s mod 60)) = s"
    unfolding q by blast+
qed

lemma civil_ranges:
  assumes "time_marshals t" "civil_from_days (day_of t) = (y, m, d)"
  shows "0 \<le> y" "nat y < 10 ^ 4" "1 \<le> m" "m \<le> 12" "1 \<le> d" "d \<le> days_in m y" "nat d < 10 ^ 2"
    "days_from_civil y m d = day_of t"
proof -
  note c = civil_from_days_date [OF assms(2)]
  have "1 \<le> m" "m \<le> 12" using c by blast+
  then have "m = 1 \<or> m = 2 \<or> m = 3 \<or> m = 4 \<or> m = 5 \<or> m = 6 \<or> m = 7 \<or> m = 8 \<or> m = 9 \<or> m = 10 \<or> m = 11 \<or> m = 12"
    by arith
  then have "days_in m y \<le> 31" by (elim disjE) (simp_all add: days_in_def days_before_def)
  with c show "1 \<le> m" "m \<le> 12" "1 \<le> d" "d \<le> days_in m y" "nat d < 10 ^ 2" "days_from_civil y m d = day_of t"
    by auto
  show "0 \<le> y" "nat y < 10 ^ 4" using assms by (auto simp: time_marshals_def)
qed

section \<open>Texts determine instants\<close>

lemma parse_rfc3339_parts:
  assumes "y < 10 ^ 4" "mo < 10 ^ 2" "d < 10 ^ 2" "h < 24" "mi < 60" "se < 60" "0 \<le> ns" "ns < second"
    and "1 \<le> mo" "mo \<le> 12" "1 \<le> d" "int d \<le> days_in mo (int y)"
  shows "parse_rfc3339 (pad 4 y @ ''-'' @ pad 2 mo @ ''-'' @ pad 2 d @ ''T'' @ pad 2 h @ '':'' @ pad 2 mi @
      '':'' @ pad 2 se @ frac_nano ns @ ''Z'') =
    Some ((days_from_civil (int y) mo (int d) * 86400 + int h * 3600 + int mi * 60 + int se) * second + ns)"
proof -
  have b: "h < 10 ^ 2" "mi < 10 ^ 2" "se < 10 ^ 2" using assms(4-6) by simp_all
  have td: "take_digits 4 (pad 4 y @ s) = Some (y, s)" "take_digits 2 (pad 2 mo @ s) = Some (mo, s)"
    "take_digits 2 (pad 2 d @ s) = Some (d, s)" "take_digits 2 (pad 2 h @ s) = Some (h, s)"
    "take_digits 2 (pad 2 mi @ s) = Some (mi, s)" "take_digits 2 (pad 2 se @ s) = Some (se, s)" for s
    by (rule take_digits_pad; use assms b in simp)+
  have lit: "take_lit c ([c] @ s) = Some s" for c s by (simp add: take_lit_def)
  have z: "take_zone ''Z'' = Some (0, [])" by (simp add: take_zone_def)
  show ?thesis
    unfolding parse_rfc3339_def td bind.bind_lunit prod.case lit take_hour_def option.case
      take_frac_nano [OF assms(7,8)] Let_def z
    using assms(4-12) by simp
qed

lemma rfc3339_roundtrip:
  assumes "time_marshals t"
  shows "parse_rfc3339 (format_rfc3339nano t) = Some t"
proof -
  obtain y m d where c: "civil_from_days (day_of t) = (y, m, d)" by (cases "civil_from_days (day_of t)")
  note r = civil_ranges [OF assms c] and k = clock_parts [OF day_clock(2,3), of t]
  have ok: "int (nat d) = d" "int (nat y) = y" "1 \<le> nat d" "m < 10 ^ 2" using r by simp_all
  note p = parse_rfc3339_parts [OF r(2) ok(4) r(7) k(1-3) day_clock(4,5) r(3,4) ok(3), of t,
      unfolded ok(1,2) r(8) add.assoc, OF r(6), folded add.assoc]
  have e: "A + B + C + D = A + (B + C + D)" for A B C D :: int by simp
  have "parse_rfc3339 (format_rfc3339nano t) =
      Some ((day_of t * 86400 + sec_of_day t) * second + nanos_of t)"
    unfolding format_rfc3339nano_def c Let_def prod.case p e k(4) ..
  also have "\<dots> = Some t" using day_clock(1) [of t] by (simp only: mult.commute)
  finally show ?thesis .
qed

lemma micro_id_parts:
  assumes "y < 10 ^ 4" "mo < 10 ^ 2" "d < 10 ^ 2" "h < 10 ^ 2" "mi < 10 ^ 2" "se < 10 ^ 2" "us < 10 ^ 6"
    and "y' < 10 ^ 4" "mo' < 10 ^ 2" "d' < 10 ^ 2" "h' < 10 ^ 2" "mi' < 10 ^ 2" "se' < 10 ^ 2" "us' < 10 ^ 6"
    and "pad 4 y @ pad 2 mo @ pad 2 d @ ''-'' @ pad 2 h @ pad 2 mi @ pad 2 se @ ''.'' @ pad 6 us =
      pad 4 y' @ pad 2 mo' @ pad 2 d' @ ''-'' @ pad 2 h' @ pad 2 mi' @ pad 2 se' @ ''.'' @ pad 6 us'"
  shows "y = y'" "mo = mo'" "d = d'" "h = h'" "mi = mi'" "se = se'" "us = us'"
  using assms(15) assms(1-14) by (simp_all add: pad_digits(1) pad_inject)

lemma format_micro_id_inject:
  assumes "time_marshals t" "time_marshals u" "format_micro_id t = format_micro_id u"
  shows "t div 1000 = u div 1000"
proof -
  obtain y m d where c: "civil_from_days (day_of t) = (y, m, d)" by (cases "civil_from_days (day_of t)")
  obtain y' m' d' where c': "civil_from_days (day_of u) = (y', m', d')" by (cases "civil_from_days (day_of u)")
  note r = civil_ranges [OF assms(1) c] and r' = civil_ranges [OF assms(2) c']
  note k = clock_parts [OF day_clock(2,3), of t] and k' = clock_parts [OF day_clock(2,3), of u]
  have us: "0 \<le> nanos_of x div 1000" "nanos_of x div 1000 < 10 ^ 6" for x
    using day_clock(4,5) [of x] by (simp_all add: second_def)
  have us': "nat (nanos_of x div 1000) < 10 ^ 6" for x using us [of x] by simp
  have b: "n < 10 ^ 2" if "n < 60" for n :: nat using that by simp
  have m: "m < 10 ^ 2" "m' < 10 ^ 2" "nat (sec_of_day t div 3600) < 10 ^ 2" "nat (sec_of_day u div 3600) < 10 ^ 2"
    using r(4) r'(4) k(1) k'(1) by simp_all
  note e = micro_id_parts [OF r(2) m(1) r(7) m(3) b [OF k(2)] b [OF k(3)] us' r'(2) m(2) r'(7) m(4) b [OF k'(2)]
      b [OF k'(3)] us' assms(3) [unfolded format_micro_id_def c c' Let_def prod.case]]
  have split: "x div 1000 = (86400 * day_of x + sec_of_day x) * 1000000 + nanos_of x div 1000" for x
  proof -
    have gen: "y div 1000 = A * 1000000 + n div 1000" if "y = A * 1000000000 + n" for y A n :: int
    proof -
      have y: "y = n + 1000 * (A * 1000000)" using that by linarith
      show ?thesis unfolding y by (rule div_mult_self2, rule zero_neq_numeral [symmetric])
    qed
    show ?thesis by (rule gen) (rule day_clock(1) [of x, unfolded second_def])
  qed
  have "sec_of_day t = sec_of_day u" using k(4) k'(4) e(4-6) by simp
  moreover have "day_of t = day_of u"
  proof (rule civil_from_days_inject)
    have "y = y'" "d = d'" using e(1,3) r(1,5) r'(1,5) by linarith+
    then show "civil_from_days (day_of t) = civil_from_days (day_of u)" unfolding c c' using e(2) by simp
  qed
  moreover have "nanos_of t div 1000 = nanos_of u div 1000" using e(7) us(1) by (simp add: eq_nat_nat_iff)
  ultimately show ?thesis unfolding split [of t] split [of u] by (simp only:)
qed

end
