(* ===== verification/Http_Server.thy ===== *)
theory Http_Server
  imports Correlator_Concurrent Queue_Nats Config Calendar
begin

text \<open>
  \<open>internal/httpserver\<close>: the webhook that Alertmanager posts to, and the routes. A request's body is
  the reading of its bytes as JSON. The handler runs the correlator on one alert after the other, over
  any store, then publishes the batch if there is a queue. The router library and its middleware are
  represented by the routes they serve.
\<close>

section \<open>The payload\<close>

record alert_payload =
  pa_Status :: string
  pa_Labels :: labels
  pa_Annotations :: labels
  pa_StartsAt :: string
  pa_EndsAt :: string
  pa_GeneratorURL :: string
  pa_Fingerprint :: string

record webhook_payload =
  pw_Receiver :: string
  pw_Status :: string
  pw_Alerts :: "alert_payload list"
  pw_ExternalURL :: string
  pw_GroupLabels :: labels
  pw_CommonLabels :: labels
  pw_CommonAnnotations :: labels
  pw_Version :: string
  pw_GroupKey :: string
  pw_TruncatedAlerts :: int

definition dec_alert_payload :: "json \<Rightarrow> alert_payload option" where
  "dec_alert_payload = dec_struct (\<lambda>kvs.
     do { s \<leftarrow> dec_field dec_str [] ''status'' kvs;
          l \<leftarrow> dec_field dec_labels None ''labels'' kvs;
          a \<leftarrow> dec_field dec_labels None ''annotations'' kvs;
          st \<leftarrow> dec_field dec_str [] ''startsAt'' kvs;
          en \<leftarrow> dec_field dec_str [] ''endsAt'' kvs;
          g \<leftarrow> dec_field dec_str [] ''generatorURL'' kvs;
          f \<leftarrow> dec_field dec_str [] ''fingerprint'' kvs;
          Some \<lparr>pa_Status = s, pa_Labels = l, pa_Annotations = a, pa_StartsAt = st, pa_EndsAt = en,
               pa_GeneratorURL = g, pa_Fingerprint = f\<rparr> })"

definition dec_webhook_payload :: "json \<Rightarrow> webhook_payload option" where
  "dec_webhook_payload = dec_struct (\<lambda>kvs.
     do { r \<leftarrow> dec_field dec_str [] ''receiver'' kvs;
          s \<leftarrow> dec_field dec_str [] ''status'' kvs;
          as \<leftarrow> dec_field (dec_list dec_alert_payload) [] ''alerts'' kvs;
          x \<leftarrow> dec_field dec_str [] ''externalURL'' kvs;
          gl \<leftarrow> dec_field dec_labels None ''groupLabels'' kvs;
          cl \<leftarrow> dec_field dec_labels None ''commonLabels'' kvs;
          ca \<leftarrow> dec_field dec_labels None ''commonAnnotations'' kvs;
          v \<leftarrow> dec_field dec_str [] ''version'' kvs;
          gk \<leftarrow> dec_field dec_str [] ''groupKey'' kvs;
          t \<leftarrow> dec_field dec_int 0 ''truncatedAlerts'' kvs;
          Some \<lparr>pw_Receiver = r, pw_Status = s, pw_Alerts = as, pw_ExternalURL = x,
               pw_GroupLabels = gl, pw_CommonLabels = cl, pw_CommonAnnotations = ca, pw_Version = v,
               pw_GroupKey = gk, pw_TruncatedAlerts = t\<rparr> })"

definition parseTime :: "string \<Rightarrow> time option" where
  "parseTime s = parse_rfc3339 s"

definition to_alert :: "alert_payload \<Rightarrow> alert" where
  \<comment> \<open>a start that does not parse is the zero time; an end that is empty or does not parse is nil\<close>
  "to_alert a =
     \<lparr>al_Fingerprint = pa_Fingerprint a, al_Labels = pa_Labels a, al_Annotations = pa_Annotations a,
      al_StartsAt = (case parseTime (pa_StartsAt a) of None \<Rightarrow> zero_time | Some t \<Rightarrow> t),
      al_EndsAt = (if pa_EndsAt a = [] then None else parseTime (pa_EndsAt a))\<rparr>"

section \<open>The handler\<close>

record http_response =
  rs_Status :: nat
  rs_Body :: string

datatype http_state = HttpNew | HttpServing | HttpClosed

record http_server =
  \<comment> \<open>\<open>http.Server\<close> of the standard library, as far as the service uses it\<close>
  hs_Addr :: string
  hs_State :: http_state

record ('s, 'e) server =
  sv_cfg :: config
  sv_correlator :: "('s, 'e) correlator"
  sv_queue :: "nats_queue option"
  sv_httpServer :: "http_server option"

record 'e server_env =
  se_call :: "nat \<Rightarrow> 'e call_env"  \<comment> \<open>the environment of the n-th call of the correlator\<close>
  se_now :: time
  se_nats :: nats_env

definition NewServer :: "config \<Rightarrow> ('s, 'e) correlator \<Rightarrow> ('s, 'e) server" where
  "NewServer cfg c = \<lparr>sv_cfg = cfg, sv_correlator = c, sv_queue = None, sv_httpServer = None\<rparr>"

definition SetQueue :: "nats_queue \<Rightarrow> ('s, 'e) server \<Rightarrow> ('s, 'e) server" where
  "SetQueue q s = s\<lparr>sv_queue := Some q\<rparr>"

fun process_alerts ::
    "('s, 'e) correlator \<Rightarrow> (nat \<Rightarrow> 'e call_env) \<Rightarrow> nat \<Rightarrow> 's \<Rightarrow> alert list \<Rightarrow> 's" where
  \<comment> \<open>an error of the correlator is only logged\<close>
  "process_alerts c env n s [] = s"
| "process_alerts c env n s (a # as) =
     process_alerts c env (Suc n) (snd (ProcessAlert c (env n) s a)) as"

definition batch_json :: "webhook_payload \<Rightarrow> alert list \<Rightarrow> time \<Rightarrow> json" where
  "batch_json p alerts now = JObj
     [(''alerts'', enc_list enc_alert alerts), (''receiver'', JStr (pw_Receiver p)),
      (''status'', JStr (pw_Status p)), (''timestamp'', enc_time now)]"

definition publish_batch ::
    "('s, 'e) server \<Rightarrow> 'e server_env \<Rightarrow> webhook_payload \<Rightarrow> alert list \<Rightarrow> effect list" where
  "publish_batch sv e p alerts =
     (case sv_queue sv of
        None \<Rightarrow> []
      | Some q \<Rightarrow>
          if list_all alert_marshals alerts \<and> time_marshals (se_now e)
          then snd (Publish (se_nats e) q ''alerts.ingest'' (batch_json p alerts (se_now e)))
          else [])"

definition handleAlertmanagerWebhook ::
    "('s, 'e) server \<Rightarrow> 'e server_env \<Rightarrow> 's \<Rightarrow> json result \<Rightarrow> http_response \<times> effect list \<times> 's" where
  "handleAlertmanagerWebhook sv e s body =
     (case (case body of Inl err \<Rightarrow> None | Inr j \<Rightarrow> dec_webhook_payload j) of
        None \<Rightarrow> (\<lparr>rs_Status = 400, rs_Body = ''bad request'' @ [CHR 0x0A]\<rparr>, [], s)
      | Some payload \<Rightarrow>
          let alerts = map to_alert (pw_Alerts payload);
              s' = process_alerts (sv_correlator sv) (se_call e) 0 s alerts
          in (\<lparr>rs_Status = 200, rs_Body = ''ok'' @ [CHR 0x0A]\<rparr>, publish_batch sv e payload alerts, s'))"

definition serve ::
    "('s, 'e) server \<Rightarrow> 'e server_env \<Rightarrow> 's \<Rightarrow> string \<Rightarrow> string \<Rightarrow> json result
      \<Rightarrow> http_response \<times> effect list \<times> 's" where
  \<comment> \<open>the router: a path it does not know is 404, another method on a path it knows is 405\<close>
  "serve sv e s meth path body =
     (if path = cf_AlertPath (sv_cfg sv) \<and> meth = ''POST'' then handleAlertmanagerWebhook sv e s body
      else if path = ''/healthz'' \<and> meth = ''GET''
      then (\<lparr>rs_Status = 200, rs_Body = ''ok'' @ [CHR 0x0A]\<rparr>, [], s)
      else if path = cf_AlertPath (sv_cfg sv) \<or> path = ''/healthz''
      then (\<lparr>rs_Status = 405, rs_Body = []\<rparr>, [], s)
      else (\<lparr>rs_Status = 404, rs_Body = ''404 page not found'' @ [CHR 0x0A]\<rparr>, [], s))"

section \<open>Listening and shutting down\<close>

definition http_listen :: "(string \<Rightarrow> error option) \<Rightarrow> http_server \<Rightarrow> error option \<times> http_server" where
  \<comment> \<open>the library's \<open>ListenAndServe\<close> up to the point where it serves; \<open>listen\<close> is \<open>net.Listen\<close>\<close>
  "http_listen listen hs =
     (if hs_State hs = HttpClosed then (Some ''http: Server closed'', hs)
      else (case listen (if hs_Addr hs = [] then '':http'' else hs_Addr hs) of
        Some err \<Rightarrow> (Some err, hs)
      | None \<Rightarrow> (None, hs\<lparr>hs_State := HttpServing\<rparr>)))"

definition http_shutdown :: "error option \<Rightarrow> http_server \<Rightarrow> error option \<times> http_server" where
  \<comment> \<open>the first argument: None if the open requests end in time, the error of the context otherwise\<close>
  "http_shutdown drain hs = (drain, hs\<lparr>hs_State := HttpClosed\<rparr>)"

text \<open>The states of a server come one after the other.\<close>

fun http_rank :: "http_state \<Rightarrow> nat" where
  "http_rank HttpNew = 0"
| "http_rank HttpServing = 1"
| "http_rank HttpClosed = 2"

lemma http_rank_inject: "http_rank x = http_rank y \<Longrightarrow> x = y"
  by (cases x; cases y) simp_all

instantiation http_state :: linorder
begin

definition less_eq_http_state :: "http_state \<Rightarrow> http_state \<Rightarrow> bool" where
  "less_eq_http_state x y \<longleftrightarrow> http_rank x \<le> http_rank y"

definition less_http_state :: "http_state \<Rightarrow> http_state \<Rightarrow> bool" where
  "less_http_state x y \<longleftrightarrow> http_rank x < http_rank y"

instance
  by intro_classes (auto simp: less_eq_http_state_def less_http_state_def intro: http_rank_inject)

end

lemma http_state_order [simp]:
  "HttpNew \<le> st" "st \<le> HttpClosed" "HttpClosed \<le> st \<longleftrightarrow> st = HttpClosed"
  "st \<le> HttpServing \<longleftrightarrow> st \<noteq> HttpClosed"
  by (cases st; simp add: less_eq_http_state_def)+

definition create_http_server :: "('s, 'e) server \<Rightarrow> ('s, 'e) server" where
  "create_http_server sv =
     sv\<lparr>sv_httpServer := Some \<lparr>hs_Addr = cf_ListenAddr (sv_cfg sv), hs_State = HttpNew\<rparr>\<rparr>"

definition listen_http_server :: "(string \<Rightarrow> error option) \<Rightarrow> ('s, 'e) server \<Rightarrow> error option \<times> ('s, 'e) server" where
  "listen_http_server listen sv =
     (case sv_httpServer sv of
        None \<Rightarrow> (None, sv)
      | Some hs \<Rightarrow> (case http_listen listen hs of (err, hs') \<Rightarrow> (err, sv\<lparr>sv_httpServer := Some hs'\<rparr>)))"

definition ListenAndServe :: "(string \<Rightarrow> error option) \<Rightarrow> ('s, 'e) server \<Rightarrow> error option \<times> ('s, 'e) server" where
  \<comment> \<open>without an error the server is serving\<close>
  "ListenAndServe listen sv = listen_http_server listen (create_http_server sv)"

definition Shutdown :: "error option \<Rightarrow> ('s, 'e) server \<Rightarrow> error option \<times> ('s, 'e) server" where
  "Shutdown drain sv =
     (case sv_httpServer sv of
        None \<Rightarrow> (None, sv)
      | Some hs \<Rightarrow> (case http_shutdown drain hs of (err, hs') \<Rightarrow> (err, sv\<lparr>sv_httpServer := Some hs'\<rparr>)))"

text \<open>
  A server that was shut down never serves again unless \<open>ListenAndServe\<close> runs after it from the
  start, which replaces the server that was closed: \<open>Shutdown\<close> keeps only what it finds from serving.
\<close>

lemma listen_after_shutdown:
  "sv_httpServer sv \<noteq> None \<Longrightarrow>
     listen_http_server listen (snd (Shutdown drain sv)) = (Some ''http: Server closed'', snd (Shutdown drain sv))"
  by (auto simp: listen_http_server_def Shutdown_def http_listen_def http_shutdown_def)

lemma ListenAndServe_after_shutdown:
  "listen (if cf_ListenAddr (sv_cfg sv) = [] then '':http'' else cf_ListenAddr (sv_cfg sv)) = None \<Longrightarrow>
     ListenAndServe listen (snd (Shutdown drain sv)) =
       (None, sv\<lparr>sv_httpServer := Some \<lparr>hs_Addr = cf_ListenAddr (sv_cfg sv), hs_State = HttpServing\<rparr>\<rparr>)"
  by (cases "cf_ListenAddr (sv_cfg sv) = []"; cases "sv_httpServer sv")
    (simp_all add: ListenAndServe_def create_http_server_def listen_http_server_def Shutdown_def
      http_listen_def http_shutdown_def)

section \<open>Properties\<close>

text \<open>
  What the webhook answers and stores: 400 without any effect exactly when the body is not JSON
  of the payload's shape; otherwise 200, whatever the correlator, the store or the queue did, with the
  store as the correlator leaves it after the alerts in their order. The status of an alert (firing or
  resolved) plays no part, and neither does a time that cannot be parsed.
\<close>

theorem webhook_answers:
  "handleAlertmanagerWebhook sv e s body =
     (case (case body of Inl _ \<Rightarrow> None | Inr j \<Rightarrow> dec_webhook_payload j) of
        None \<Rightarrow> (\<lparr>rs_Status = 400, rs_Body = ''bad request'' @ [CHR 0x0A]\<rparr>, [], s)
      | Some p \<Rightarrow>
          (\<lparr>rs_Status = 200, rs_Body = ''ok'' @ [CHR 0x0A]\<rparr>,
           publish_batch sv e p (map to_alert (pw_Alerts p)),
           process_alerts (sv_correlator sv) (se_call e) 0 s
             (map to_alert (map (\<lambda>a. a\<lparr>pa_Status := ''firing'', pa_GeneratorURL := []\<rparr>) (pw_Alerts p)))))"
proof -
  have "to_alert (a\<lparr>pa_Status := ''firing'', pa_GeneratorURL := []\<rparr>) = to_alert a" for a
    by (simp add: to_alert_def)
  then show ?thesis
    by (simp add: handleAlertmanagerWebhook_def Let_def comp_def split: option.split)
qed

text \<open>
  A whole batch, on a store whose saves only add alerts: the alerts whose calls returned nil.
\<close>

fun accepted_alerts ::
    "('s, 'e) correlator \<Rightarrow> (nat \<Rightarrow> 'e call_env) \<Rightarrow> nat \<Rightarrow> 's \<Rightarrow> alert list \<Rightarrow> alert list" where
  "accepted_alerts c env n s [] = []"
| "accepted_alerts c env n s (a # as) =
     (case ProcessAlert c (env n) s a of (r, s') \<Rightarrow>
        (case r of Inr _ \<Rightarrow> [a] | Inl _ \<Rightarrow> []) @ accepted_alerts c env (Suc n) s' as)"

fun calls_ok ::
    "('e \<Rightarrow> 's \<Rightarrow> bool) \<Rightarrow> ('s \<Rightarrow> string \<Rightarrow> incident option) \<Rightarrow> ('s, 'e) correlator \<Rightarrow> (nat \<Rightarrow> 'e call_env)
      \<Rightarrow> nat \<Rightarrow> 's \<Rightarrow> alert list \<Rightarrow> bool" where
  \<comment> \<open>every call has environments that can occur, and an unused ID\<close>
  "calls_ok ok view c env n s [] \<longleftrightarrow> True"
| "calls_ok ok view c env n s (a # as) \<longleftrightarrow>
     ok (ce_find (env n)) s \<and> ok (ce_save (env n)) s \<and> view s (ce_id (env n)) = None \<and>
     calls_ok ok view c env (Suc n) (snd (ProcessAlert c (env n) s a)) as"

context accumulating_store
begin

lemma process_keeps:
  assumes inv: "inv s" and ok: "ok (ce_find ce) s" "ok (ce_save ce) s" and c: "co_store c = S"
    and fresh: "abs s (ce_id ce) = None" and p: "ProcessAlert c ce s a = (r, s')"
  shows "inv s' \<and> (recorded s b \<longrightarrow> recorded s' b) \<and> (r = Inr u \<longrightarrow> recorded s' a)"
proof -
  have saved: "inv s' \<and> (recorded s b \<longrightarrow> recorded s' b) \<and> (r = Inr u \<longrightarrow> recorded s' a)"
    if sv: "st_Save S (ce_save ce) s inc = (r, s')" and key: "inc_CorrelationKey inc = buildCorrelationKey a"
      and fp: "al_Fingerprint a \<in> fingerprints inc"
      and old: "\<And>x. abs s (inc_ID inc) = Some x \<Longrightarrow> inc_CorrelationKey x = inc_CorrelationKey inc" for inc
  proof -
    have "recorded s' b" if "recorded s b"
      using that save_keeps_key [OF inv ok(2) sv] old unfolding recorded_def by (metis subsetD)
    moreover have "recorded s' a" if "r = Inr u"
    proof -
      from save_stores [OF inv ok(2) sv [unfolded that]] obtain x
        where "abs s' (inc_ID inc) = Some x" "persisted rt inc x" by blast
      with key fp show ?thesis unfolding recorded_def persisted_def by auto
    qed
    ultimately show ?thesis using save_inv [OF inv ok(2) sv] by blast
  qed
  from inv ok(1) c p show ?thesis
  proof (cases rule: process_cases)
    case find_failed
    with inv show ?thesis by simp
  next
    case new: fresh
    show ?thesis
      by (rule saved [OF new(1)])
        (use fresh in \<open>simp_all add: new_incident_def fingerprints_def Let_def\<close>)
  next
    case (grouped x y)
    have k: "inc_CorrelationKey x = buildCorrelationKey a" "inc_CorrelationKey y = inc_CorrelationKey x"
      using grouped(4) same_incident_fields(6) [OF grouped(3)] by (simp_all add: unresolved_with_key_def)
    show ?thesis
      by (rule saved [OF grouped(1)])
        (use k grouped(2) in \<open>simp_all add: update_incident_def fingerprints_def Let_def\<close>)
  qed
qed

lemma process_alerts_recorded:
  assumes "inv s" "co_store c = S" "calls_ok ok abs c env n s as"
  shows "inv (process_alerts c env n s as) \<and>
    (\<forall>b. recorded s b \<or> b \<in> set (accepted_alerts c env n s as) \<longrightarrow> recorded (process_alerts c env n s as) b)"
  using assms(1,3)
proof (induction as arbitrary: n s)
  case (Cons a as)
  obtain r s' where p: "ProcessAlert c (env n) s a = (r, s')" by (metis prod.exhaust)
  note k = process_keeps [OF Cons.prems(1) _ _ assms(2) _ p]
  from Cons.prems(2) p have "inv s'" "\<And>b. recorded s b \<Longrightarrow> recorded s' b" "\<And>u. r = Inr u \<Longrightarrow> recorded s' a"
    using k by auto
  with Cons.IH [of s' "Suc n"] Cons.prems(2) p show ?case
    by (auto split: sum.splits)
qed simp

end

text \<open>
  Every alert of a batch that the store accepts is recorded when the webhook answers: on
  PostgreSQL, for each alert whose call returned nil, an incident with its key holds its fingerprint
  after the batch, and so it does for whatever had been recorded before.
\<close>

theorem webhook_records_batch:
  assumes "db_inv d" "co_store (sv_correlator sv) = pg_incident_store"
    and "dec_webhook_payload j = Some p"
    and "calls_ok (pg_ok rt) pg_abs (sv_correlator sv) (se_call e) 0 d (map to_alert (pw_Alerts p))"
    and "handleAlertmanagerWebhook sv e d (Inr j) = (resp, tr, d')"
    and "a \<in> set (accepted_alerts (sv_correlator sv) (se_call e) 0 d (map to_alert (pw_Alerts p)))"
  shows "\<exists>i x. pg_abs d' i = Some x \<and> inc_CorrelationKey x = buildCorrelationKey a \<and>
    al_Fingerprint a \<in> fingerprints x"
proof -
  have "d' = process_alerts (sv_correlator sv) (se_call e) 0 d (map to_alert (pw_Alerts p))"
    using assms(3,5) by (simp add: handleAlertmanagerWebhook_def Let_def)
  with pg_acc.process_alerts_recorded [OF assms(1,2,4)] assms(6) show ?thesis
    by (simp add: pg_acc.recorded_def)
qed

definition demo_payload :: json where
  "demo_payload = JObj [(''receiver'', JStr ''sentientd''),
     (''alerts'', JArr [JObj [(''fingerprint'', JStr ''f''), (''status'', JStr ''firing'')]])]"

definition demo_server :: "(db, pg_env) server" where
  "demo_server = NewServer (FromEnv (\<lambda>k. [])) (demo_correlator pg_incident_store)"

definition demo_server_env :: "pg_env server_env" where
  "demo_server_env =
     \<lparr>se_call = (\<lambda>n. demo_call (demo_pg_env None 9) 9 ''i''), se_now = 9,
      se_nats = \<lparr>ne_connect = None, ne_jetstream = None, ne_stream_info = None,
        ne_add_stream = (\<lambda>c. None), ne_publish = (\<lambda>s j. None), ne_pull_subscribe = (\<lambda>n s. None),
        ne_add_consumer = (\<lambda>c. None)\<rparr>\<rparr>"

theorem webhook_records_batch_witness:
  "\<exists>i x. pg_abs (snd (snd (handleAlertmanagerWebhook demo_server demo_server_env empty_db (Inr demo_payload)))) i = Some x \<and>
     ''f'' \<in> fingerprints x"
proof -
  let ?h = "handleAlertmanagerWebhook demo_server demo_server_env empty_db (Inr demo_payload)"
  let ?ap = "\<lparr>pa_Status = ''firing'', pa_Labels = None, pa_Annotations = None, pa_StartsAt = [],
    pa_EndsAt = [], pa_GeneratorURL = [], pa_Fingerprint = ''f''\<rparr>"
  let ?p = "\<lparr>pw_Receiver = ''sentientd'', pw_Status = [], pw_Alerts = [?ap], pw_ExternalURL = [],
    pw_GroupLabels = None, pw_CommonLabels = None, pw_CommonAnnotations = None, pw_Version = [],
    pw_GroupKey = [], pw_TruncatedAlerts = 0\<rparr>"
  let ?a = "to_alert ?ap" and ?c = "demo_correlator pg_incident_store :: (db, pg_env) correlator"
  let ?ce = "demo_call (demo_pg_env None 9) 9 ''i''"
  have dec: "dec_webhook_payload demo_payload = Some ?p"
    by (simp add: dec_webhook_payload_def demo_payload_def dec_alert_payload_def field_lookup
        dec_struct_def dec_list_def)
  have c: "co_store (sv_correlator demo_server) = pg_incident_store" "sv_correlator demo_server = ?c"
    "se_call demo_server_env n = ?ce" for n
    by (simp_all add: demo_server_def NewServer_def demo_correlator_def demo_server_env_def)
  have ok: "calls_ok (pg_ok (\<lambda>t. t)) pg_abs (sv_correlator demo_server) (se_call demo_server_env) 0 empty_db
      (map to_alert (pw_Alerts ?p))"
    by (simp add: c pg_abs_empty) (simp add: demo_call_def demo_pg_ok)
  have "\<exists>s'. ProcessAlert ?c ?ce empty_db ?a = (Inr (), s')"
    by (simp add: ProcessAlert_def demo_correlator_def demo_call_def pg_FindOpenByCorrelationKey_def
        FindOpenByCorrelationKey_def order_by_desc_def correlated_def new_incident_def pg_eval to_alert_def)
  then obtain s' where p: "ProcessAlert ?c ?ce empty_db ?a = (Inr (), s')" by blast
  have acc: "?a \<in> set (accepted_alerts (sv_correlator demo_server) (se_call demo_server_env) 0 empty_db
      (map to_alert (pw_Alerts ?p)))"
    by (simp add: c p)
  have h: "?h = (fst ?h, fst (snd ?h), snd (snd ?h))" by simp
  from webhook_records_batch [OF db_inv_empty c(1) dec ok h acc] show ?thesis
    by (auto simp: to_alert_def)
qed

section \<open>The batch on the queue\<close>

lemma enc_alert_not_null [simp]: "enc_alert a \<noteq> JNull" "enc_time t \<noteq> JNull"
  by (simp_all add: enc_alert_def enc_time_def)

lemma enc_labels_null [simp]: "enc_labels m = JNull \<longleftrightarrow> m = None"
  by (simp add: enc_labels_def)

lemma format_nonempty [simp]: "format_rfc3339nano t \<noteq> []"
  by (simp add: format_rfc3339nano_def Let_def split: prod.split)

definition payload_of :: "alert \<Rightarrow> alert_payload" where
  "payload_of a =
     \<lparr>pa_Status = [], pa_Labels = al_Labels a, pa_Annotations = al_Annotations a,
      pa_StartsAt = format_rfc3339nano (al_StartsAt a),
      pa_EndsAt = (case al_EndsAt a of None \<Rightarrow> [] | Some t \<Rightarrow> format_rfc3339nano t),
      pa_GeneratorURL = [], pa_Fingerprint = al_Fingerprint a\<rparr>"

lemma dec_alert_payload_enc: "dec_alert_payload (enc_alert a) = Some (payload_of a)"
proof -
  obtain kvs where kvs: "enc_alert a = JObj kvs" by (simp add: enc_alert_def)
  note k = kvs [unfolded enc_alert_def, simplified, symmetric]
  have "dec_field dec_str [] ''status'' kvs = Some []" "dec_field dec_str [] ''generatorURL'' kvs = Some []"
    by (simp_all add: k field_lookup)
  moreover have "dec_field dec_labels None ''labels'' kvs = Some (al_Labels a)"
    "dec_field dec_labels None ''annotations'' kvs = Some (al_Annotations a)"
    by (auto simp: k field_lookup)
  moreover have "dec_field dec_str [] ''startsAt'' kvs = Some (format_rfc3339nano (al_StartsAt a))"
    "dec_field dec_str [] ''endsAt'' kvs =
      Some (case al_EndsAt a of None \<Rightarrow> [] | Some t \<Rightarrow> format_rfc3339nano t)"
    "dec_field dec_str [] ''fingerprint'' kvs = Some (al_Fingerprint a)"
    by (cases "al_EndsAt a"; simp add: k field_lookup enc_ptr_def enc_time_def)+
  ultimately show ?thesis by (simp add: kvs dec_alert_payload_def dec_struct_def payload_of_def)
qed

lemma to_alert_payload_of:
  assumes "alert_marshals a"
  shows "to_alert (payload_of a) = a"
  using assms
  by (cases a) (auto simp: to_alert_def payload_of_def parseTime_def alert_marshals_def rfc3339_roundtrip
      split: option.splits)

lemma dec_any_fields_some:
  "dec_any_fields kvs \<noteq> None \<longleftrightarrow> (\<forall>kv \<in> set kvs. dec_any (snd kv) \<noteq> None)"
  by (induction kvs) (auto split: Option.bind_splits)

lemma dec_anys_some: "dec_anys js \<noteq> None \<longleftrightarrow> (\<forall>j \<in> set js. dec_any j \<noteq> None)"
  by (induction js) (auto split: Option.bind_splits)

lemma dec_any_labels: "dec_any (enc_labels m) \<noteq> None"
  using dec_any_fields_some by (cases m) (auto simp: enc_labels_def enc_map_def)

lemma dec_any_alert: "dec_any (enc_alert a) \<noteq> None"
proof -
  from dec_any_labels obtain l n where "dec_any (enc_labels (al_Labels a)) = Some l"
    "dec_any (enc_labels (al_Annotations a)) = Some n" by blast
  then show ?thesis by (simp add: enc_alert_def enc_time_def enc_ptr_def omitempty_def split: option.split)
qed

lemma dec_batch:
  "\<exists>q. dec_webhook_payload (batch_json p alerts now) = Some q \<and> pw_Alerts q = map payload_of alerts \<and>
     pw_Receiver q = pw_Receiver p \<and> pw_Status q = pw_Status p"
proof -
  have "dec_list dec_alert_payload (enc_list enc_alert alerts) = Some (map payload_of alerts)"
    by (induction alerts) (auto simp: dec_list_def enc_list_def dec_alert_payload_enc)
  then show ?thesis
    by (simp add: dec_webhook_payload_def batch_json_def dec_struct_def field_lookup)
qed

lemma handleMessage_batch: "handleMessage (Inr (batch_json p alerts now)) = None"
proof -
  have a: "\<exists>x. dec_any (enc_list enc_alert alerts) = Some x"
    using dec_anys_some [of "map enc_alert alerts"] dec_any_alert by (auto simp: enc_list_def)
  then show ?thesis by (auto simp: handleMessage_def batch_json_def dec_map_def enc_time_def)
qed

text \<open>
  C30: a batch survives the queue: what the webhook publishes is the batch on the worker's subject, a
  message the worker's handler accepts, and posting it to the webhook would yield the same alerts again,
  with their labels, annotations and instants (to the nanosecond), receiver and status.
\<close>

theorem published_batch_roundtrip:
  assumes "Published subject j \<in> set (publish_batch sv e p alerts)"
  shows "subject = ''alerts.ingest'' \<and> handleMessage (Inr j) = None \<and>
    (\<exists>q. dec_webhook_payload j = Some q \<and> map to_alert (pw_Alerts q) = alerts \<and>
      pw_Receiver q = pw_Receiver p \<and> pw_Status q = pw_Status p)"
proof -
  from assms have j: "subject = ''alerts.ingest''" "j = batch_json p alerts (se_now e)"
    and ok: "list_all alert_marshals alerts"
    by (auto simp: publish_batch_def Publish_def split: option.splits if_splits)
  have "map to_alert (map payload_of alerts) = alerts"
    using ok by (induction alerts) (simp_all add: to_alert_payload_of)
  with dec_batch [of p alerts "se_now e"] j show ?thesis by (auto simp: handleMessage_batch)
qed

definition demo_sent_payload :: webhook_payload where
  "demo_sent_payload = \<lparr>pw_Receiver = ''sentientd'', pw_Status = ''firing'', pw_Alerts = [], pw_ExternalURL = [],
    pw_GroupLabels = None, pw_CommonLabels = None, pw_CommonAnnotations = None, pw_Version = [],
    pw_GroupKey = [], pw_TruncatedAlerts = 0\<rparr>"

theorem published_batch_roundtrip_witness:
  "\<exists>q. dec_webhook_payload (batch_json demo_sent_payload
      [\<lparr>al_Fingerprint = ''f'', al_Labels = None, al_Annotations = None, al_StartsAt = 0, al_EndsAt = Some 9\<rparr>] 9) = Some q \<and>
    map al_EndsAt (map to_alert (pw_Alerts q)) = [Some 9]"
proof -
  let ?a = "\<lparr>al_Fingerprint = ''f'', al_Labels = None, al_Annotations = None, al_StartsAt = 0, al_EndsAt = Some 9\<rparr>"
  let ?sv = "SetQueue \<lparr>nq_js = True, nq_nc = True, nq_url = ''u''\<rparr> demo_server"
  have t: "time_marshals 0" "time_marshals 9"
    by (simp_all add: time_marshals_def civil_from_days_def day_of_def year_of_days_def epoch_days_def
        days_before_year_def is_leap_def second_def Let_def)
  have "Published ''alerts.ingest'' (batch_json demo_sent_payload [?a] 9) \<in>
      set (publish_batch ?sv demo_server_env demo_sent_payload [?a])"
    using t by (simp add: publish_batch_def SetQueue_def Publish_def demo_server_env_def alert_marshals_def)
  from published_batch_roundtrip [OF this] show ?thesis by auto
qed

end
