(* ===== verification/Topology_Graph.thy ===== *)
theory Topology_Graph
  imports Domain
begin

text \<open>
  \<open>internal/topology/types.go\<close> and \<open>memory_graph.go\<close>: the ServiceGraph resource and the
  in-memory graph that answers the correlator's question for the neighbourhood of a service.

  The three Go maps of \<open>InMemoryGraph\<close> are finite maps; an absent key of \<open>edges\<close> or \<open>rev\<close> reads
  as the nil slice (\<open>edges_at\<close>). Where the code ranges over a Go map, the definition takes the
  enumeration \<open>ks\<close> of the keys that the runtime happens to choose. The mutex makes every method
  atomic, so a method is a function of the graph.
\<close>

section \<open>The ServiceGraph resource\<close>

definition NodeTypeService :: string where "NodeTypeService = ''service''"
definition NodeTypeDatabase :: string where "NodeTypeDatabase = ''database''"
definition NodeTypeQueue :: string where "NodeTypeQueue = ''queue''"
definition NodeTypeCache :: string where "NodeTypeCache = ''cache''"
definition NodeTypeExternal :: string where "NodeTypeExternal = ''external''"

definition EdgeTypeDependsOn :: string where "EdgeTypeDependsOn = ''depends_on''"
definition EdgeTypeCalls :: string where "EdgeTypeCalls = ''calls''"
definition EdgeTypePublishesTo :: string where "EdgeTypePublishesTo = ''publishes_to''"
definition EdgeTypeSubscribesTo :: string where "EdgeTypeSubscribesTo = ''subscribes_to''"

record node =
  nd_ID :: string
  nd_Type :: string
  nd_Labels :: labels
  nd_Metadata :: labels

record edge =
  ed_From :: string
  ed_To :: string
  ed_Type :: string
  ed_Weight :: "int option"
  ed_Labels :: labels

record service_graph_spec =
  sp_Nodes :: "node list"
  sp_Edges :: "edge list"

record service_graph_status =
  ss_LastUpdated :: time
  ss_NodeCount :: int
  ss_EdgeCount :: int

record service_graph =
  sg_Spec :: service_graph_spec
  sg_Status :: service_graph_status

section \<open>The in-memory graph\<close>

record in_memory_graph =
  g_nodes :: "(string, node) fmap"
  g_edges :: "(string, edge list) fmap"
  g_rev :: "(string, edge list) fmap"

definition NewInMemoryGraph :: in_memory_graph where
  "NewInMemoryGraph = \<lparr>g_nodes = fmempty, g_edges = fmempty, g_rev = fmempty\<rparr>"

definition edges_at :: "(string, edge list) fmap \<Rightarrow> string \<Rightarrow> edge list" where
  "edges_at m k = (case fmlookup m k of None \<Rightarrow> [] | Some es \<Rightarrow> es)"

definition append_at :: "string \<Rightarrow> edge \<Rightarrow> (string, edge list) fmap \<Rightarrow> (string, edge list) fmap" where
  "append_at k e m = fmupd k (edges_at m k @ [e]) m"

definition LoadFromServiceGraph :: "service_graph \<Rightarrow> in_memory_graph \<Rightarrow> in_memory_graph" where
  "LoadFromServiceGraph sg g =
     (let g = g\<lparr>g_nodes := fmempty, g_edges := fmempty, g_rev := fmempty\<rparr>;
          g = foldl (\<lambda>g n. g\<lparr>g_nodes := fmupd (nd_ID n) n (g_nodes g)\<rparr>) g (sp_Nodes (sg_Spec sg))
      in foldl (\<lambda>g e. g\<lparr>g_edges := append_at (ed_From e) e (g_edges g),
                         g_rev := append_at (ed_To e) e (g_rev g)\<rparr>) g (sp_Edges (sg_Spec sg)))"

definition GetNode :: "in_memory_graph \<Rightarrow> string \<Rightarrow> node option" where
  "GetNode g i = fmlookup (g_nodes g) i"

definition neighbor_seen :: "in_memory_graph \<Rightarrow> string \<Rightarrow> string \<Rightarrow> bool option" where
  \<comment> \<open>the map \<open>seen\<close> when the two loops of \<open>getNeighborsUnlocked\<close> are done\<close>
  "neighbor_seen g i =
     foldl (\<lambda>m e. if m (ed_From e) = Some True then m else m(ed_From e \<mapsto> True))
       (foldl (\<lambda>m e. if m (ed_To e) = Some True then m else m(ed_To e \<mapsto> True))
          Map.empty (edges_at (g_edges g) i))
       (edges_at (g_rev g) i)"

definition range_keys :: "string list \<Rightarrow> (string \<Rightarrow> 'v option) \<Rightarrow> string list" where
  "range_keys ks m = filter (\<lambda>k. m k \<noteq> None) ks"

definition getNeighborsUnlocked :: "string list \<Rightarrow> in_memory_graph \<Rightarrow> string \<Rightarrow> string list" where
  "getNeighborsUnlocked ks g i = range_keys ks (neighbor_seen g i)"

definition to_topology_node :: "node \<Rightarrow> topology_node" where
  "to_topology_node n = \<lparr>tn_ID = nd_ID n, tn_Type = nd_Type n\<rparr>"

definition to_topology_edge :: "edge \<Rightarrow> topology_edge" where
  "to_topology_edge e = \<lparr>te_From = ed_From e, te_To = ed_To e, te_Type = ed_Type e\<rparr>"

definition edge_key :: "edge \<Rightarrow> string" where
  "edge_key e = ed_From e @ ''->'' @ ed_To e"

fun add_edges :: "(string \<Rightarrow> bool) \<Rightarrow> topology_edge list \<Rightarrow> edge list
    \<Rightarrow> (string \<Rightarrow> bool) \<times> topology_edge list" where
  "add_edges seen out [] = (seen, out)"
| "add_edges seen out (e # es) =
     (if seen (edge_key e) then add_edges seen out es
      else add_edges (seen(edge_key e := True)) (out @ [to_topology_edge e]) es)"

definition GetSubgraphForService :: "string list \<Rightarrow> in_memory_graph \<Rightarrow> string \<Rightarrow> topology_slice" where
  "GetSubgraphForService ks g serviceID =
     (case fmlookup (g_nodes g) serviceID of
        None \<Rightarrow> \<lparr>ts_Nodes = [], ts_Edges = []\<rparr>
      | Some service \<Rightarrow>
          let neighbors = getNeighborsUnlocked ks g serviceID;
              nodes = to_topology_node service #
                List.map_filter (\<lambda>k. map_option to_topology_node (fmlookup (g_nodes g) k)) neighbors;
              (seen, out) = add_edges (\<lambda>_. False) [] (edges_at (g_edges g) serviceID);
              (seen, out) = add_edges seen out (edges_at (g_rev g) serviceID)
          in \<lparr>ts_Nodes = nodes, ts_Edges = out\<rparr>)"

fun all_labels_match :: "(string \<times> string) list \<Rightarrow> labels \<Rightarrow> bool" where
  "all_labels_match [] nl = True"
| "all_labels_match ((k, v) # kvs) nl = (if mget nl k \<noteq> v then False else all_labels_match kvs nl)"

definition FindServiceByLabels ::
    "string list \<Rightarrow> in_memory_graph \<Rightarrow> (string \<times> string) list \<Rightarrow> string list" where
  \<comment> \<open>the label map is given as the enumeration of its entries\<close>
  "FindServiceByLabels ks g labels =
     filter (\<lambda>i. case fmlookup (g_nodes g) i of
                   None \<Rightarrow> False
                 | Some n \<Rightarrow> nd_Type n = NodeTypeService \<and> all_labels_match labels (nd_Labels n)) ks"

definition Stats :: "in_memory_graph \<Rightarrow> nat \<times> nat" where
  "Stats g = (fcard (fmdom (g_nodes g)),
     sum_list (map (\<lambda>k. length (edges_at (g_edges g) k)) (sorted_list_of_fset (fmdom (g_edges g)))))"

section \<open>Loading\<close>

lemma edges_at_empty [simp]: "edges_at fmempty k = []"
  by (simp add: edges_at_def)

lemma edges_at_append_at [simp]:
  "edges_at (append_at k e m) k' = (if k = k' then edges_at m k @ [e] else edges_at m k')"
  by (simp add: edges_at_def append_at_def)

lemma fmdom_append_at [simp]: "fmdom (append_at k e m) = finsert k (fmdom m)"
  by (simp add: append_at_def)

lemma load_nodes_frame [simp]:
  "g_edges (foldl (\<lambda>g n. g\<lparr>g_nodes := f g n\<rparr>) g ns) = g_edges g"
  "g_rev (foldl (\<lambda>g n. g\<lparr>g_nodes := f g n\<rparr>) g ns) = g_rev g"
  by (induction ns arbitrary: g) simp_all

lemma load_edges_frame [simp]:
  "g_nodes (foldl (\<lambda>g e. g\<lparr>g_edges := f g e, g_rev := h g e\<rparr>) g es) = g_nodes g"
  by (induction es arbitrary: g) simp_all

lemma load_edges_at:
  "edges_at (g_edges (foldl (\<lambda>g e. g\<lparr>g_edges := append_at (ed_From e) e (g_edges g),
                                     g_rev := append_at (ed_To e) e (g_rev g)\<rparr>) g es)) k
     = edges_at (g_edges g) k @ filter (\<lambda>e. ed_From e = k) es"
  "edges_at (g_rev (foldl (\<lambda>g e. g\<lparr>g_edges := append_at (ed_From e) e (g_edges g),
                                   g_rev := append_at (ed_To e) e (g_rev g)\<rparr>) g es)) k
     = edges_at (g_rev g) k @ filter (\<lambda>e. ed_To e = k) es"
  by (induction es arbitrary: g) simp_all

lemma load_edges_dom:
  "fmdom (g_edges (foldl (\<lambda>g e. g\<lparr>g_edges := append_at (ed_From e) e (g_edges g),
                                  g_rev := h g e\<rparr>) g es))
     = fset_of_list (map ed_From es) |\<union>| fmdom (g_edges g)"
  by (induction es arbitrary: g) simp_all

lemma load_nodes_lookup:
  "fmlookup (g_nodes (foldl (\<lambda>g n. g\<lparr>g_nodes := fmupd (nd_ID n) n (g_nodes g)\<rparr>) g ns)) k
     = (case find (\<lambda>n. nd_ID n = k) (rev ns) of None \<Rightarrow> fmlookup (g_nodes g) k | Some n \<Rightarrow> Some n)"
proof (induction ns arbitrary: g)
  case (Cons n ns)
  have "find P (xs @ [x]) = (case find P xs of None \<Rightarrow> if P x then Some x else None | Some y \<Rightarrow> Some y)"
    for P :: "node \<Rightarrow> bool" and xs x by (induction xs) simp_all
  then show ?case by (simp add: Cons.IH split: option.splits)
qed simp

lemma load_nodes_dom:
  "fmdom (g_nodes (foldl (\<lambda>g n. g\<lparr>g_nodes := fmupd (nd_ID n) n (g_nodes g)\<rparr>) g ns))
     = fset_of_list (map nd_ID ns) |\<union>| fmdom (g_nodes g)"
  by (induction ns arbitrary: g) simp_all

lemma Load_edges [simp]:
  "edges_at (g_edges (LoadFromServiceGraph sg g)) k = filter (\<lambda>e. ed_From e = k) (sp_Edges (sg_Spec sg))"
  "edges_at (g_rev (LoadFromServiceGraph sg g)) k = filter (\<lambda>e. ed_To e = k) (sp_Edges (sg_Spec sg))"
  by (simp_all add: LoadFromServiceGraph_def Let_def load_edges_at)

lemma Load_nodes:
  "fmlookup (g_nodes (LoadFromServiceGraph sg g)) k
     = find (\<lambda>n. nd_ID n = k) (rev (sp_Nodes (sg_Spec sg)))"
  by (simp add: LoadFromServiceGraph_def Let_def load_nodes_lookup split: option.splits)

lemma Load_dom [simp]:
  "fmdom (g_nodes (LoadFromServiceGraph sg g)) = fset_of_list (map nd_ID (sp_Nodes (sg_Spec sg)))"
  "fmdom (g_edges (LoadFromServiceGraph sg g)) = fset_of_list (map ed_From (sp_Edges (sg_Spec sg)))"
  by (simp_all add: LoadFromServiceGraph_def Let_def load_nodes_dom load_edges_dom)

lemma Load_lookup_ex:
  assumes "i \<in> nd_ID ` set (sp_Nodes (sg_Spec sg))"
  shows "\<exists>n. fmlookup (g_nodes (LoadFromServiceGraph sg g)) i = Some n"
proof -
  have "i |\<in>| fmdom (g_nodes (LoadFromServiceGraph sg g))"
    using assms by (auto simp: fset_of_list_elem)
  then show ?thesis by (simp only: fmlookup_dom_iff)
qed

text \<open>
  The invariant of a graph: nodes are stored under their own ID, and both edge maps hold the same
  edges, each under its own end.
\<close>

definition graph_wf :: "in_memory_graph \<Rightarrow> bool" where
  "graph_wf g \<longleftrightarrow>
     (\<forall>k n. fmlookup (g_nodes g) k = Some n \<longrightarrow> nd_ID n = k) \<and>
     (\<forall>k. \<forall>e \<in> set (edges_at (g_edges g) k). ed_From e = k \<and> e \<in> set (edges_at (g_rev g) (ed_To e))) \<and>
     (\<forall>k. \<forall>e \<in> set (edges_at (g_rev g) k). ed_To e = k \<and> e \<in> set (edges_at (g_edges g) (ed_From e)))"

lemma graph_wf_new [simp]: "graph_wf NewInMemoryGraph"
  by (simp add: graph_wf_def NewInMemoryGraph_def)

lemma graph_wf_load [simp]: "graph_wf (LoadFromServiceGraph sg g)"
  by (auto simp: graph_wf_def Load_nodes dest: find_SomeD)

lemma graph_wfD:
  assumes "graph_wf g"
  shows graph_wf_node: "fmlookup (g_nodes g) k = Some n \<Longrightarrow> nd_ID n = k"
    and graph_wf_edge: "e \<in> set (edges_at (g_edges g) k) \<Longrightarrow> ed_From e = k"
    and graph_wf_rev: "e \<in> set (edges_at (g_rev g) k) \<Longrightarrow> ed_To e = k"
  using assms by (auto simp: graph_wf_def)

section \<open>Neighbours\<close>

lemma dom_mark:
  "dom (foldl (\<lambda>m e. if m (f e) = Some True then m else m(f e \<mapsto> True)) m es) = f ` set es \<union> dom m"
  by (induction es arbitrary: m) (auto simp: dom_def)

lemma dom_neighbor_seen:
  "dom (neighbor_seen g i) = ed_To ` set (edges_at (g_edges g) i) \<union> ed_From ` set (edges_at (g_rev g) i)"
  by (auto simp: neighbor_seen_def dom_mark)

lemma range_keys_enumerates: "enumerates ks m \<Longrightarrow> range_keys ks m = ks"
  by (auto simp: range_keys_def enumerates_def dom_def filter_id_conv)

lemma getNeighbors_set:
  "enumerates ks (neighbor_seen g i) \<Longrightarrow> set (getNeighborsUnlocked ks g i)
     = ed_To ` set (edges_at (g_edges g) i) \<union> ed_From ` set (edges_at (g_rev g) i)"
  by (simp add: getNeighborsUnlocked_def range_keys_enumerates enumerates_set dom_neighbor_seen)

lemma getNeighbors_distinct:
  "enumerates ks (neighbor_seen g i) \<Longrightarrow> distinct (getNeighborsUnlocked ks g i)"
  by (simp add: getNeighborsUnlocked_def range_keys_enumerates enumerates_distinct)

section \<open>Deduplication of the edges\<close>

lemma add_edges_out:
  "add_edges seen out es = (seen', out') \<Longrightarrow>
     \<exists>new. out' = out @ map to_topology_edge new \<and> set new \<subseteq> set es \<and>
       distinct (map edge_key new) \<and> (\<forall>e \<in> set new. \<not> seen (edge_key e)) \<and>
       (\<forall>k. seen' k \<longleftrightarrow> seen k \<or> k \<in> edge_key ` set new) \<and>
       (\<forall>e \<in> set es. seen (edge_key e) \<or> edge_key e \<in> edge_key ` set new)"
proof (induction seen out es rule: add_edges.induct)
  case (1 seen out)
  then show ?case by (intro exI [of _ "[]"]) simp
next
  case (2 seen out e es)
  show ?case
  proof (cases "seen (edge_key e)")
    case True
    with "2.prems" have "add_edges seen out es = (seen', out')" by simp
    from "2.IH"(1) [OF True this] True show ?thesis by fastforce
  next
    case False
    let ?s = "seen(edge_key e := True)"
    from False "2.prems" have "add_edges ?s (out @ [to_topology_edge e]) es = (seen', out')" by simp
    from "2.IH"(2) [OF False this] obtain new where new:
      "out' = (out @ [to_topology_edge e]) @ map to_topology_edge new" "set new \<subseteq> set es"
      "distinct (map edge_key new)" "\<forall>x \<in> set new. \<not> ?s (edge_key x)"
      "\<forall>k. seen' k \<longleftrightarrow> ?s k \<or> k \<in> edge_key ` set new"
      "\<forall>x \<in> set es. ?s (edge_key x) \<or> edge_key x \<in> edge_key ` set new"
      by blast
    have ne: "edge_key x \<noteq> edge_key e \<and> \<not> seen (edge_key x)" if "x \<in> set new" for x
      using new(4) that by (auto split: if_splits)
    show ?thesis
    proof (intro exI [of _ "e # new"] conjI)
      show "distinct (map edge_key (e # new))"
        using new(3) ne by (auto simp: image_iff) (metis ne)
      show "\<forall>x \<in> set (e # new). \<not> seen (edge_key x)" using False ne by auto
      show "\<forall>k. seen' k \<longleftrightarrow> seen k \<or> k \<in> edge_key ` set (e # new)" using new(5) by auto
      show "\<forall>x \<in> set (e # es). seen (edge_key x) \<or> edge_key x \<in> edge_key ` set (e # new)"
        using new(6) by (auto split: if_splits)
    qed (use new(1,2) in auto)
  qed
qed

section \<open>The neighbourhood of a service\<close>

definition te_pair :: "topology_edge \<Rightarrow> string \<times> string" where
  "te_pair t = (te_From t, te_To t)"

definition ed_pair :: "edge \<Rightarrow> string \<times> string" where
  "ed_pair e = (ed_From e, ed_To e)"

lemma te_pair_to_topology_edge [simp]: "te_pair (to_topology_edge e) = ed_pair e"
  by (simp add: te_pair_def ed_pair_def to_topology_edge_def)

definition plain_id :: "string \<Rightarrow> bool" where
  "plain_id i \<longleftrightarrow> CHR ''>'' \<notin> set i"

definition demo_service_graph :: service_graph where
  \<comment> \<open>two services and two parallel edges between them\<close>
  "demo_service_graph = \<lparr>sg_Spec = \<lparr>sp_Nodes =
       [\<lparr>nd_ID = ''svc:a'', nd_Type = NodeTypeService, nd_Labels = None, nd_Metadata = None\<rparr>,
        \<lparr>nd_ID = ''svc:b'', nd_Type = NodeTypeService, nd_Labels = None, nd_Metadata = None\<rparr>],
     sp_Edges =
       [\<lparr>ed_From = ''svc:a'', ed_To = ''svc:b'', ed_Type = EdgeTypeCalls, ed_Weight = None,
         ed_Labels = None\<rparr>,
        \<lparr>ed_From = ''svc:a'', ed_To = ''svc:b'', ed_Type = EdgeTypeDependsOn, ed_Weight = Some 2,
         ed_Labels = None\<rparr>]\<rparr>,
     sg_Status = \<lparr>ss_LastUpdated = 0, ss_NodeCount = 2, ss_EdgeCount = 2\<rparr>\<rparr>"

lemma edge_key_inj:
  assumes "plain_id (ed_From e)" and "plain_id (ed_From e')" and k: "edge_key e = edge_key e'"
  shows "ed_pair e = ed_pair e'"
proof -
  let ?p = "\<lambda>c. c \<noteq> CHR ''>''"
  have tw: "takeWhile ?p (edge_key x) = ed_From x @ ''-''" if "plain_id (ed_From x)" for x
  proof -
    have "\<forall>c \<in> set (ed_From x). ?p c" using that by (auto simp: plain_id_def)
    then show ?thesis by (simp add: edge_key_def takeWhile_append2)
  qed
  from tw [OF assms(1)] tw [OF assms(2)] k have "ed_From e = ed_From e'" by simp
  with k show ?thesis by (simp add: edge_key_def ed_pair_def)
qed

lemma subgraph_slice:
  assumes n: "fmlookup (g_nodes g) i = Some n"
  obtains new where
    "ts_Nodes (GetSubgraphForService ks g i) = to_topology_node n #
       List.map_filter (\<lambda>k. map_option to_topology_node (fmlookup (g_nodes g) k))
         (getNeighborsUnlocked ks g i)"
    and "ts_Edges (GetSubgraphForService ks g i) = map to_topology_edge new"
    and "set new \<subseteq> set (edges_at (g_edges g) i) \<union> set (edges_at (g_rev g) i)"
    and "distinct (map edge_key new)"
    and "edge_key ` (set (edges_at (g_edges g) i) \<union> set (edges_at (g_rev g) i)) \<subseteq> edge_key ` set new"
proof -
  obtain s1 o1 where 1: "add_edges (\<lambda>_. False) [] (edges_at (g_edges g) i) = (s1, o1)"
    by fastforce
  obtain s2 o2 where 2: "add_edges s1 o1 (edges_at (g_rev g) i) = (s2, o2)"
    by fastforce
  from add_edges_out [OF 1] obtain n1 where n1: "o1 = map to_topology_edge n1"
    "set n1 \<subseteq> set (edges_at (g_edges g) i)" "distinct (map edge_key n1)"
    "\<forall>k. s1 k \<longleftrightarrow> k \<in> edge_key ` set n1"
    "\<forall>e \<in> set (edges_at (g_edges g) i). edge_key e \<in> edge_key ` set n1" by auto
  from add_edges_out [OF 2] obtain n2 where n2: "o2 = o1 @ map to_topology_edge n2"
    "set n2 \<subseteq> set (edges_at (g_rev g) i)" "distinct (map edge_key n2)"
    "\<forall>e \<in> set n2. \<not> s1 (edge_key e)"
    "\<forall>e \<in> set (edges_at (g_rev g) i). s1 (edge_key e) \<or> edge_key e \<in> edge_key ` set n2" by blast
  show ?thesis
  proof (rule that [of "n1 @ n2"])
    show "distinct (map edge_key (n1 @ n2))"
      using n1(3,4) n2(3,4) by (auto simp: image_iff) metis
    show "edge_key ` (set (edges_at (g_edges g) i) \<union> set (edges_at (g_rev g) i))
        \<subseteq> edge_key ` set (n1 @ n2)"
      using n1(4,5) n2(5) by (auto simp: image_Un)
  qed (use n n1(1,2) n2(1,2) 1 2 in \<open>auto simp: GetSubgraphForService_def\<close>)
qed

lemma map_filter_ids:
  assumes "graph_wf g"
  shows "map tn_ID (List.map_filter (\<lambda>k. map_option to_topology_node (fmlookup (g_nodes g) k)) ks)
    = filter (\<lambda>k. k |\<in>| fmdom (g_nodes g)) ks"
  by (induction ks)
    (auto simp: map_filter_simps to_topology_node_def fmdomI fmdom_notI
      dest: graph_wf_node [OF assms] split: option.splits)

text \<open>
  C37: the neighbourhood of a service. After loading a ServiceGraph that declares the service, the
  slice for it starts with the service itself; the other nodes are exactly the declared nodes
  joined to it by an edge in either direction, each once, whatever order the runtime enumerates
  the neighbours in.
\<close>

theorem subgraph_nodes:
  assumes g: "g = LoadFromServiceGraph sg g0"
    and ks: "enumerates ks (neighbor_seen g i)"
    and decl: "i \<in> nd_ID ` set (sp_Nodes (sg_Spec sg))"
  shows "\<exists>rest. map tn_ID (ts_Nodes (GetSubgraphForService ks g i)) = i # rest \<and> distinct rest \<and>
    set rest = {k \<in> nd_ID ` set (sp_Nodes (sg_Spec sg)).
                  \<exists>e \<in> set (sp_Edges (sg_Spec sg)). ed_pair e = (i, k) \<or> ed_pair e = (k, i)}"
proof -
  have wf: "graph_wf g" by (simp add: g)
  have dom: "fset (fmdom (g_nodes g)) = nd_ID ` set (sp_Nodes (sg_Spec sg))"
    by (simp add: g fset_of_list.rep_eq)
  have nb: "set (getNeighborsUnlocked ks g i) =
      ed_To ` {e \<in> set (sp_Edges (sg_Spec sg)). ed_From e = i} \<union>
      ed_From ` {e \<in> set (sp_Edges (sg_Spec sg)). ed_To e = i}"
    by (simp add: getNeighbors_set [OF ks]) (simp add: g)
  obtain n where n: "fmlookup (g_nodes g) i = Some n"
    using Load_lookup_ex [OF decl, of g0] g by blast
  have ids: "map tn_ID (ts_Nodes (GetSubgraphForService ks g i)) =
      i # filter (\<lambda>k. k |\<in>| fmdom (g_nodes g)) (getNeighborsUnlocked ks g i)"
    by (rule subgraph_slice [OF n, of ks])
      (simp add: map_filter_ids [OF wf] to_topology_node_def graph_wf_node [OF wf n])
  have set: "set (filter (\<lambda>k. k |\<in>| fmdom (g_nodes g)) (getNeighborsUnlocked ks g i)) =
      {k \<in> nd_ID ` set (sp_Nodes (sg_Spec sg)).
         \<exists>e \<in> set (sp_Edges (sg_Spec sg)). ed_pair e = (i, k) \<or> ed_pair e = (k, i)}"
    using dom nb by (auto simp: ed_pair_def intro: rev_image_eqI)
  have "distinct (filter (\<lambda>k. k |\<in>| fmdom (g_nodes g)) (getNeighborsUnlocked ks g i))"
    using getNeighbors_distinct [OF ks] by simp
  from ids this set show ?thesis by (intro exI conjI)
qed

theorem subgraph_nodes_witness:
  "\<exists>rest. map tn_ID (ts_Nodes (GetSubgraphForService [''svc:b'']
      (LoadFromServiceGraph demo_service_graph NewInMemoryGraph) ''svc:a'')) = ''svc:a'' # rest
    \<and> distinct rest \<and> set rest = {''svc:b''}"
proof -
  have ks: "enumerates [''svc:b''] (neighbor_seen (LoadFromServiceGraph demo_service_graph
      NewInMemoryGraph) ''svc:a'')"
    by (simp add: enumerates_def dom_neighbor_seen demo_service_graph_def)
  have eq: "{k \<in> nd_ID ` set (sp_Nodes (sg_Spec demo_service_graph)).
      \<exists>e \<in> set (sp_Edges (sg_Spec demo_service_graph)). ed_pair e = (''svc:a'', k) \<or> ed_pair e = (k, ''svc:a'')}
      = {''svc:b''}"
    by (auto simp: demo_service_graph_def ed_pair_def)
  show ?thesis
    using subgraph_nodes [OF refl ks] unfolding eq by (simp add: demo_service_graph_def)
qed

text \<open>
  C38: the edges of the neighbourhood. When no node ID contains the character that the
  deduplication key uses as its arrow, the slice has each pair of ends that a declared edge at the
  service has, exactly once, and no other edge.
\<close>

theorem subgraph_edges:
  assumes g: "g = LoadFromServiceGraph sg g0"
    and decl: "i \<in> nd_ID ` set (sp_Nodes (sg_Spec sg))"
    and plain: "\<forall>e \<in> set (sp_Edges (sg_Spec sg)). plain_id (ed_From e)"
  shows "distinct (map te_pair (ts_Edges (GetSubgraphForService ks g i))) \<and>
    set (map te_pair (ts_Edges (GetSubgraphForService ks g i))) =
      ed_pair ` set (filter (\<lambda>e. ed_From e = i \<or> ed_To e = i) (sp_Edges (sg_Spec sg)))"
proof -
  let ?E = "{e \<in> set (sp_Edges (sg_Spec sg)). ed_From e = i \<or> ed_To e = i}"
  have E: "set (edges_at (g_edges g) i) \<union> set (edges_at (g_rev g) i) = ?E"
    by (auto simp: g)
  obtain n where n: "fmlookup (g_nodes g) i = Some n"
    using Load_lookup_ex [OF decl, of g0] g by blast
  obtain new where new: "ts_Edges (GetSubgraphForService ks g i) = map to_topology_edge new"
    "set new \<subseteq> ?E" "distinct (map edge_key new)" "edge_key ` ?E \<subseteq> edge_key ` set new"
    by (rule subgraph_slice [OF n, of ks]) (simp add: E)
  have inj: "ed_pair e = ed_pair e'" if "e \<in> ?E" "e' \<in> ?E" "edge_key e = edge_key e'" for e e'
    using plain that by (auto intro: edge_key_inj)
  have key_of_pair: "edge_key e = edge_key e'" if "ed_pair e = ed_pair e'" for e e'
    using that by (simp add: ed_pair_def edge_key_def)
  have "inj_on edge_key (set new)" and d: "distinct new"
    using new(3) by (simp_all add: distinct_map)
  then have "inj_on ed_pair (set new)"
    by (auto intro!: inj_onI dest: key_of_pair inj_onD)
  moreover have "ed_pair ` set new = ed_pair ` ?E"
  proof
    show "ed_pair ` ?E \<subseteq> ed_pair ` set new"
    proof
      fix p assume "p \<in> ed_pair ` ?E"
      then obtain e where e: "e \<in> ?E" "p = ed_pair e" by blast
      with new(4) obtain e' where "e' \<in> set new" "edge_key e = edge_key e'" by blast
      with e inj new(2) show "p \<in> ed_pair ` set new" by blast
    qed
  qed (use new(2) in blast)
  ultimately show ?thesis
    using d new(1) by (simp add: distinct_map o_def)
qed

theorem subgraph_edges_witness:
  "set (map te_pair (ts_Edges (GetSubgraphForService [''svc:b'']
      (LoadFromServiceGraph demo_service_graph NewInMemoryGraph) ''svc:a''))) = {(''svc:a'', ''svc:b'')}"
  using subgraph_edges [OF refl, of "''svc:a''" demo_service_graph "[''svc:b'']" NewInMemoryGraph]
  by (simp add: demo_service_graph_def plain_id_def ed_pair_def)

section \<open>Statistics and label search\<close>

lemma sum_length_filter:
  assumes "finite A" and "f ` set xs \<subseteq> A"
  shows "(\<Sum>k \<in> A. length (filter (\<lambda>x. f x = k) xs)) = length xs"
  using assms(2)
proof (induction xs)
  case (Cons x xs)
  have "(\<Sum>k \<in> A. length (filter (\<lambda>y. f y = k) (x # xs))) =
      (\<Sum>k \<in> A. (if f x = k then 1 else 0) + length (filter (\<lambda>y. f y = k) xs))"
    by (rule sum.cong) simp_all
  also have "\<dots> = 1 + length xs"
    using Cons assms(1) by (simp add: sum.distrib)
  finally show ?case by simp
qed simp

text \<open>
  The statistics of a loaded graph are the number of distinct node IDs and the number of
  edges of the ServiceGraph, parallel edges counted.
\<close>

theorem stats_of_load:
  "Stats (LoadFromServiceGraph sg g) =
     (card (nd_ID ` set (sp_Nodes (sg_Spec sg))), length (sp_Edges (sg_Spec sg)))"
proof -
  let ?es = "sp_Edges (sg_Spec sg)"
  have "sum_list (map (\<lambda>k. length (filter (\<lambda>e. ed_From e = k) ?es))
          (sorted_list_of_fset (fset_of_list (map ed_From ?es)))) = length ?es"
    by (subst sum_list_distinct_conv_sum_set)
      (auto simp: sorted_list_of_fset.rep_eq fset_of_list.rep_eq intro: sum_length_filter)
  then show ?thesis
    by (simp add: Stats_def fcard.rep_eq fset_of_list.rep_eq)
qed

lemma all_labels_match_iff: "all_labels_match kvs nl \<longleftrightarrow> (\<forall>(k, v) \<in> set kvs. mget nl k = v)"
  by (induction kvs nl rule: all_labels_match.induct) auto

lemma FindServiceByLabels_set:
  assumes "enumerates ks (fmlookup (g_nodes g))"
  shows "distinct (FindServiceByLabels ks g kvs) \<and>
    set (FindServiceByLabels ks g kvs) =
      {i. \<exists>n. fmlookup (g_nodes g) i = Some n \<and> nd_Type n = NodeTypeService \<and>
              (\<forall>(k, v) \<in> set kvs. mget (nd_Labels n) k = v)}"
  using assms
  by (auto simp: FindServiceByLabels_def all_labels_match_iff enumerates_def fmdom'I
      split: option.splits)

end
