(* ===== verification/Topology_Client.thy ===== *)
theory Topology_Client
  imports Topology_Graph
begin

text \<open>
  \<open>internal/topology/client.go\<close> and \<open>graph.go\<close>: the client that loads a ServiceGraph into the
  in-memory graph, follows the watch, and answers \<open>SubgraphForService\<close>; and the \<open>emptyGraph\<close> of
  \<open>cmd/main.go\<close> that stands in for it in local mode.

  The Kubernetes API is not modelled: what it returns is an argument (\<open>get_result\<close>: the outcome of
  the first Get; a \<open>watch_event\<close>: what the informer delivers). A delivered object is None when it
  does not convert to a ServiceGraph.
\<close>

record topo_client =
  tc_namespace :: string
  tc_graph :: in_memory_graph
  tc_initialized :: bool
  tc_stopped :: bool

definition NewClient :: "string \<Rightarrow> topo_client" where
  "NewClient ns =
     \<lparr>tc_namespace = ns, tc_graph = NewInMemoryGraph, tc_initialized = False, tc_stopped = False\<rparr>"

definition updateGraph :: "service_graph result \<Rightarrow> topo_client \<Rightarrow> error option \<times> topo_client" where
  \<comment> \<open>the argument is the outcome of converting the object\<close>
  "updateGraph obj c =
     (case obj of
        Inl e \<Rightarrow> (Some (wrap_err ''failed to convert unstructured to ServiceGraph'' e), c)
      | Inr sg \<Rightarrow> (None, c\<lparr>tc_graph := LoadFromServiceGraph sg (tc_graph c)\<rparr>))"

definition loadServiceGraph ::
    "service_graph result result \<Rightarrow> topo_client \<Rightarrow> error option \<times> topo_client" where
  "loadServiceGraph get_result c =
     (case get_result of
        Inl e \<Rightarrow> (Some (wrap_err ''failed to get ServiceGraph'' e), c)
      | Inr obj \<Rightarrow> updateGraph obj c)"

definition Initialize ::
    "unit result \<Rightarrow> unit result \<Rightarrow> service_graph result result \<Rightarrow> topo_client
       \<Rightarrow> error option \<times> topo_client" where
  "Initialize config dyn_client get_result c =
     (case config of
        Inl e \<Rightarrow> (Some (wrap_err ''failed to get in-cluster config'' e), c)
      | Inr _ \<Rightarrow> (case dyn_client of
          Inl e \<Rightarrow> (Some (wrap_err ''failed to create dynamic client'' e), c)
        | Inr _ \<Rightarrow>
            let c = c\<lparr>tc_initialized := True\<rparr>; (_, c) = loadServiceGraph get_result c
            in (None, c)))"

datatype watch_event =
    Added "service_graph result"
  | Updated "service_graph result"
  | Deleted
  | Ignored  \<comment> \<open>an object that is not unstructured\<close>

fun handle_event :: "watch_event \<Rightarrow> topo_client \<Rightarrow> topo_client" where
  "handle_event (Added obj) c = snd (updateGraph obj c)"
| "handle_event (Updated obj) c = snd (updateGraph obj c)"
| "handle_event Deleted c = c\<lparr>tc_graph := NewInMemoryGraph\<rparr>"
| "handle_event Ignored c = c"

definition Stop :: "topo_client \<Rightarrow> topo_client option" where
  \<comment> \<open>None: closing a closed channel panics\<close>
  "Stop c = (if tc_stopped c then None else Some (c\<lparr>tc_stopped := True\<rparr>))"

definition svc_prefix :: string where "svc_prefix = ''svc:''"

definition has_prefix :: "string \<Rightarrow> string \<Rightarrow> bool" where
  "has_prefix s p \<longleftrightarrow> take (length p) s = p"

definition service_id :: "string \<Rightarrow> string" where
  "service_id service = (if \<not> has_prefix service svc_prefix then svc_prefix @ service else service)"

definition SubgraphForService ::
    "string list \<Rightarrow> topo_client \<Rightarrow> string \<Rightarrow> topology_slice option result" where
  "SubgraphForService ks c service =
     Inr (Some (GetSubgraphForService ks (tc_graph c) (service_id service)))"

definition GetGraph :: "topo_client \<Rightarrow> in_memory_graph" where
  "GetGraph c = tc_graph c"

definition emptyGraph_SubgraphForService :: "string \<Rightarrow> topology_slice option result" where
  "emptyGraph_SubgraphForService service = Inr None"

section \<open>Lemmas\<close>

lemma has_prefix_append [simp]: "has_prefix (p @ s) p"
  by (simp add: has_prefix_def)

lemma service_id_prefixed [simp]: "has_prefix (service_id s) svc_prefix"
  by (simp add: service_id_def)

lemma service_id_idem [simp]: "service_id (service_id s) = service_id s"
  using service_id_prefixed [of s] by (simp add: service_id_def [of "service_id s"])

text \<open>The graph that a run of watch events leaves is the one of the last event that changes it.\<close>

definition event_graph :: "watch_event \<Rightarrow> service_graph option option" where
  \<comment> \<open>None: no change; Some None: cleared; Some (Some sg): replaced by sg\<close>
  "event_graph e = (case e of
     Added (Inr sg) \<Rightarrow> Some (Some sg) | Updated (Inr sg) \<Rightarrow> Some (Some sg)
   | Deleted \<Rightarrow> Some None | _ \<Rightarrow> None)"

definition graph_of :: "service_graph option \<Rightarrow> in_memory_graph" where
  "graph_of sgo = (case sgo of None \<Rightarrow> NewInMemoryGraph
                   | Some sg \<Rightarrow> LoadFromServiceGraph sg NewInMemoryGraph)"

lemma Load_ignores_graph: "LoadFromServiceGraph sg g = LoadFromServiceGraph sg g'"
  by (cases g; cases g') (simp add: LoadFromServiceGraph_def)

lemma handle_event_graph:
  "tc_graph (handle_event e c) = (case event_graph e of None \<Rightarrow> tc_graph c | Some sgo \<Rightarrow> graph_of sgo)"
  by (cases e) (auto simp: event_graph_def graph_of_def updateGraph_def
      intro: Load_ignores_graph split: sum.splits)

text \<open>
  C39: the watcher keeps the graph of the latest event. After any run of informer events the graph
  is the one loaded from the last ServiceGraph added or updated, empty if a deletion came after
  it, and unchanged by events whose object does not convert.
\<close>

theorem watch_last_event_wins:
  "tc_graph (foldl (\<lambda>c e. handle_event e c) c es) =
     (case List.map_filter event_graph (rev es) of [] \<Rightarrow> tc_graph c | sgo # _ \<Rightarrow> graph_of sgo)"
proof (induction es rule: rev_induct)
  case (snoc e es)
  then show ?case
    by (simp add: handle_event_graph map_filter_simps split: option.splits)
qed (simp add: map_filter_simps)

text \<open>
  A service may be named with or without the prefix of its node ID: both spellings give the
  same slice, and the slice of a service that the graph does not declare is empty rather than an
  error.
\<close>

theorem SubgraphForService_spelling:
  "SubgraphForService ks c (service_id service) = SubgraphForService ks c service \<and>
   (fmlookup (g_nodes (tc_graph c)) (service_id service) = None \<longrightarrow>
     SubgraphForService ks c service = Inr (Some \<lparr>ts_Nodes = [], ts_Edges = []\<rparr>))"
  by (simp add: SubgraphForService_def GetSubgraphForService_def)

theorem SubgraphForService_spelling_witness:
  "SubgraphForService [] (NewClient ''ns'') ''web'' = Inr (Some \<lparr>ts_Nodes = [], ts_Edges = []\<rparr>)"
  using SubgraphForService_spelling [of "[]" "NewClient ''ns''" "''web''"]
  by (simp add: NewClient_def NewInMemoryGraph_def)

end
