(* ===== verification/Connections.thy ===== *)
theory Connections
  imports Domain
begin

text \<open>
  \<open>internal/database\<close> and \<open>internal/identity\<close>: setting up the connection pool and the mTLS
  configuration. The libraries (pgx, go-spiffe) are the outcomes of their calls; a run is its result
  and the trace of resources it opened and closed.
\<close>

datatype pool_event = PoolOpened | PoolClosed

section \<open>The database\<close>

record database_config =
  dbc_URL :: string
  dbc_MaxConns :: int
  dbc_MinConns :: int
  dbc_MaxConnLifetime :: duration
  dbc_MaxConnIdleTime :: duration

record pool_config =
  pc_URL :: string
  pc_MaxConns :: int
  pc_MinConns :: int
  pc_MaxConnLifetime :: duration
  pc_MaxConnIdleTime :: duration

definition DefaultConfig :: "string \<Rightarrow> database_config" where
  "DefaultConfig url =
     \<lparr>dbc_URL = url, dbc_MaxConns = 25, dbc_MinConns = 5, dbc_MaxConnLifetime = 1 * hour,
      dbc_MaxConnIdleTime = 30 * minute\<rparr>"

definition Connect ::
    "(string \<Rightarrow> pool_config result) \<Rightarrow> (pool_config \<Rightarrow> 'p result) \<Rightarrow> ('p \<Rightarrow> error option)
      \<Rightarrow> database_config \<Rightarrow> 'p result \<times> pool_event list" where
  "Connect parse new_pool ping cfg =
     (case parse (dbc_URL cfg) of
        Inl err \<Rightarrow> (Inl (wrap_err ''failed to parse database URL'' err), [])
      | Inr config \<Rightarrow>
          (case new_pool (config\<lparr>pc_MaxConns := wrap32 (dbc_MaxConns cfg),
              pc_MinConns := wrap32 (dbc_MinConns cfg), pc_MaxConnLifetime := dbc_MaxConnLifetime cfg,
              pc_MaxConnIdleTime := dbc_MaxConnIdleTime cfg\<rparr>) of
             Inl err \<Rightarrow> (Inl (wrap_err ''failed to create connection pool'' err), [])
           | Inr pool \<Rightarrow>
               (case ping pool of
                  Some err \<Rightarrow> (Inl (wrap_err ''failed to ping database'' err), [PoolOpened, PoolClosed])
                | None \<Rightarrow> (Inr pool, [PoolOpened]))))"

definition ClosePool :: "'p option \<Rightarrow> pool_event list" where
  "ClosePool pool = (case pool of None \<Rightarrow> [] | Some _ \<Rightarrow> [PoolClosed])"

definition HealthPool :: "('p \<Rightarrow> error option) \<Rightarrow> 'p option \<Rightarrow> error option" where
  "HealthPool ping pool = (case pool of None \<Rightarrow> Some ''connection pool is nil'' | Some p \<Rightarrow> ping p)"

text \<open>
  Connecting leaks no pool: whatever fails, after an error every pool that was opened is closed,
  and a pool is returned only if it was opened, answered a ping and is still open.
\<close>

theorem Connect_no_leak:
  "case Connect parse new_pool ping cfg of
     (Inl err, tr) \<Rightarrow> count_list tr PoolOpened = count_list tr PoolClosed
   | (Inr pool, tr) \<Rightarrow> tr = [PoolOpened] \<and> ping pool = None"
  by (auto simp: Connect_def split: sum.split option.split)

section \<open>SPIFFE\<close>

definition quote_char :: "char \<Rightarrow> string" where
  \<comment> \<open>the verb \<open>%q\<close>, byte by byte; a byte of a multi-byte character is kept as it is\<close>
  "quote_char c =
     (let n = (of_char c :: nat); bs = char_of (92::nat) in
      if n = 34 \<or> n = 92 then [bs, c]
      else if n = 7 then [bs, CHR ''a''] else if n = 8 then [bs, CHR ''b'']
      else if n = 12 then [bs, CHR ''f''] else if n = 10 then [bs, CHR ''n'']
      else if n = 13 then [bs, CHR ''r''] else if n = 9 then [bs, CHR ''t'']
      else if n = 11 then [bs, CHR ''v'']
      else if n < 32 \<or> n = 127 then [bs, CHR ''x'', hex_digit (n div 16), hex_digit (n mod 16)]
      else [c])"

definition strconv_quote :: "string \<Rightarrow> string" where
  "strconv_quote s = [char_of (34::nat)] @ concat (map quote_char s) @ [char_of (34::nat)]"

record ('src, 'tls) spiffe_config =
  sf_Source :: "'src option"
  sf_TLSConfig :: 'tls

definition NewClientMTLSConfig ::
    "(string \<Rightarrow> 'id result) \<Rightarrow> 'src result \<Rightarrow> ('src \<Rightarrow> 'id \<Rightarrow> 'tls) \<Rightarrow> string
      \<Rightarrow> ('src, 'tls) spiffe_config result" where
  \<comment> \<open>\<open>tls src i\<close> is a client configuration that presents and trusts \<open>src\<close> and authorizes \<open>i\<close> only\<close>
  "NewClientMTLSConfig parse_id new_source tls expectedServerID =
     (case parse_id expectedServerID of
        Inl err \<Rightarrow> Inl (wrap_err (''invalid server SPIFFE ID '' @ strconv_quote expectedServerID) err)
      | Inr serverID \<Rightarrow>
          (case new_source of
             Inl err \<Rightarrow> Inl (wrap_err ''failed to create X509Source from Workload API'' err)
           | Inr source \<Rightarrow> Inr \<lparr>sf_Source = Some source, sf_TLSConfig = tls source serverID\<rparr>))"

definition CloseSpiffe :: "('src \<Rightarrow> error option) \<Rightarrow> ('src, 'tls) spiffe_config \<Rightarrow> error option" where
  "CloseSpiffe close c = (case sf_Source c of None \<Rightarrow> None | Some s \<Rightarrow> close s)"

end
