(* ===== verification/Correlator_Sessions.thy ===== *)
theory Correlator_Sessions
  imports Correlator
begin

text \<open>
  What the grouping amounts to, without a store: the alerts of one correlation key form sessions. A
  session goes on as long as the next alert comes within the window of the one before, and a gap
  longer than the window starts the next session. The in-memory correlator, called for one alert
  after the other, keeps exactly one incident for each session.
\<close>

section \<open>Sessions\<close>

type_synonym alert_call = "mem_env call_env \<times> alert"

abbreviation call_id :: "alert_call \<Rightarrow> string" where "call_id c \<equiv> ce_id (fst c)"
abbreviation call_now :: "alert_call \<Rightarrow> time" where "call_now c \<equiv> ce_now (fst c)"
abbreviation call_seen :: "alert_call \<Rightarrow> time" where "call_seen c \<equiv> me_now (ce_find (fst c))"

definition follows :: "duration \<Rightarrow> alert_call \<Rightarrow> alert_call \<Rightarrow> bool" where
  "follows w prev next \<longleftrightarrow> time_sub (call_seen next) (call_now prev) \<le> w"

fun extend_sessions :: "duration \<Rightarrow> alert_call list list \<Rightarrow> alert_call \<Rightarrow> alert_call list list" where
  \<comment> \<open>sessions, and the calls of a session, from the newest to the oldest\<close>
  "extend_sessions w ((prev # cur) # older) c =
     (if follows w prev c then (c # prev # cur) # older else [c] # (prev # cur) # older)"
| "extend_sessions w ss c = [c] # ss"

definition sessions :: "duration \<Rightarrow> alert_call list \<Rightarrow> alert_call list list" where
  "sessions w calls = foldl (extend_sessions w) [] calls"

text \<open>
  That is the division of the calls at the gaps that are longer than the window.
\<close>

fun in_window :: "duration \<Rightarrow> alert_call list \<Rightarrow> bool" where
  "in_window w (c # prev # cs) \<longleftrightarrow> follows w prev c \<and> in_window w (prev # cs)"
| "in_window w _ \<longleftrightarrow> True"

fun gaps_between :: "duration \<Rightarrow> alert_call list list \<Rightarrow> bool" where
  "gaps_between w (cur # prev # ss) \<longleftrightarrow> \<not> follows w (hd prev) (last cur) \<and> gaps_between w (prev # ss)"
| "gaps_between w _ \<longleftrightarrow> True"

lemma sessions_snoc: "sessions w (calls @ [c]) = extend_sessions w (sessions w calls) c"
  by (simp add: sessions_def)

lemma sessions_nonempty: "[] \<notin> set (sessions w calls)"
proof (induction calls rule: rev_induct)
  case (snoc c calls)
  then show ?case
    by (cases "(w, sessions w calls, c)" rule: extend_sessions.cases) (auto simp: sessions_snoc)
qed (simp add: sessions_def)

lemma sessions_cases:
  obtains (none) "sessions w calls = []" | (some) prev cur older where "sessions w calls = (prev # cur) # older"
proof (cases "sessions w calls")
  case (Cons s older)
  with sessions_nonempty [of w calls] obtain prev cur where "s = prev # cur" by (cases s) auto
  with Cons that(2) show thesis by blast
qed (use that(1) in blast)

lemma sessions_concat: "concat (sessions w calls) = rev calls"
proof (induction calls rule: rev_induct)
  case (snoc c calls)
  show ?case by (rule sessions_cases [of w calls]) (use snoc sessions_snoc [of w calls c] in simp_all)
qed (simp add: sessions_def)

lemma sessions_gaps: "list_all (in_window w) (sessions w calls) \<and> gaps_between w (sessions w calls)"
proof (induction calls rule: rev_induct)
  case (snoc c calls)
  show ?case
  proof (rule sessions_cases [of w calls])
    fix prev cur older
    assume s: "sessions w calls = (prev # cur) # older"
    with snoc show ?thesis by (cases older) (simp_all add: sessions_snoc)
  qed (simp add: sessions_snoc)
qed (simp add: sessions_def)

section \<open>The correlator keeps the sessions\<close>

inductive mem_history :: "(mem_store, mem_env) correlator \<Rightarrow> alert_call list \<Rightarrow> time \<Rightarrow> mem_store \<Rightarrow> bool" for c where
  none: "mem_history c [] t NewInMemoryIncidentStore"
| call: "mem_history c (calls @ [(ce, a)]) (me_now (ce_find ce)) s'"
    if "mem_history c calls t s" and "mem_ok (ce_find ce) s" and "t \<le> ce_now ce" and "ce_now ce \<le> me_now (ce_find ce)"
      and "ProcessAlert c ce s a = (r, s')"

definition of_session :: "incident \<Rightarrow> alert_call list \<Rightarrow> bool" where
  "of_session x sess \<longleftrightarrow> inc_Alerts x = map snd (rev sess) \<and> inc_LastAlertAt x = call_now (hd sess) \<and>
     inc_CreatedAt x = call_now (last sess) \<and> inc_ID x = ce_id (fst (last sess)) \<and> inc_State x = IncidentStateOpen"

definition calls_of :: "string \<Rightarrow> alert_call list \<Rightarrow> alert_call list" where
  "calls_of k calls = filter (\<lambda>c. buildCorrelationKey (snd c) = k) calls"

definition keeps_sessions :: "duration \<Rightarrow> string \<Rightarrow> mem_store \<Rightarrow> alert_call list list \<Rightarrow> bool" where
  \<comment> \<open>the incidents of the key are those of the sessions, one each\<close>
  "keeps_sessions w k s ss \<longleftrightarrow> (\<exists>ids. distinct ids \<and>
     set ids = {i. \<exists>x. ms_incidents s i = Some x \<and> inc_CorrelationKey x = k} \<and>
     list_all2 (\<lambda>i sess. \<exists>x. ms_incidents s i = Some x \<and> of_session x sess) ids ss)"

lemma history_times:
  "mem_history c calls t s \<Longrightarrow> (\<forall>x \<in> set calls. call_seen x \<le> t)"
  by (induction rule: mem_history.induct) fastforce+

lemma older_sessions_closed:
  assumes "gaps_between w (s # ss)" "\<forall>x \<in> set (concat (s # ss)). call_seen x \<le> t" "[] \<notin> set (s # ss)" "sess \<in> set ss"
  shows "time_sub t (call_now (hd sess)) > w"
  using assms
proof (induction ss arbitrary: s)
  case (Cons s' ss)
  show ?case
  proof (cases "sess = s'")
    case True
    have "last s \<in> set s" using Cons.prems(3) by auto
    with Cons.prems(2) have "call_seen (last s) \<le> t" by auto
    then have "time_sub (call_seen (last s)) (call_now (hd sess)) \<le> time_sub t (call_now (hd sess))" by (rule time_sub_mono)
    with Cons.prems(1) True show ?thesis by (auto simp: follows_def)
  next
    case False
    with Cons.IH [of s'] Cons.prems show ?thesis by auto
  qed
qed simp


lemma list_all2_mono_in:
  "list_all2 P xs ys \<Longrightarrow> (\<And>x y. x \<in> set xs \<Longrightarrow> P x y \<Longrightarrow> Q x y) \<Longrightarrow> list_all2 Q xs ys"
  by (auto simp: list_all2_conv_all_nth)

lemma list_all2_left:
  "list_all2 P xs ys \<Longrightarrow> x \<in> set xs \<Longrightarrow> \<exists>y \<in> set ys. P x y"
  by (induction rule: list_all2_induct) auto

lemma list_all2_right:
  "list_all2 P xs ys \<Longrightarrow> y \<in> set ys \<Longrightarrow> \<exists>x \<in> set xs. P x y"
  by (induction rule: list_all2_induct) auto

lemma of_session_new: "of_session (new_incident g (ce_id ce) (ce_now ce) a) [(ce, a)]"
  by (simp add: of_session_def new_incident_def Let_def)

lemma of_session_update:
  "of_session x (prev # cur) \<Longrightarrow> of_session (update_incident (ce_now ce) a x) ((ce, a) # prev # cur)"
  by (auto simp: of_session_def update_incident_def Let_def)

lemma history_inv:
  assumes "mem_history c calls t s" "co_store c = mem_incident_store"
  shows "mem_inv s"
  using assms
proof induction
  case (call calls t s ce a r s')
  then show ?case
    by (auto simp: ProcessAlert_def mem_FindOpenByCorrelationKey_def mem_Save_def mem_inv_def split: if_splits)
qed (simp add: NewInMemoryIncidentStore_def mem_inv_def)

text \<open>The stored IDs are IDs the calls drew, so a call whose ID is a new one opens its incident under an unused ID.\<close>

lemma history_ids:
  assumes "mem_history c calls t s" "co_store c = mem_incident_store"
  shows "dom (ms_incidents s) \<subseteq> call_id ` set calls"
  using assms
proof induction
  case (call calls t s ce a r s')
  let ?found = "mem_find_loop (buildCorrelationKey a) (cc_ExpansionWindow (co_cfg c)) (me_now (ce_find ce)) s (me_keys (ce_find ce)) None"
  have inv: "mem_inv s" by (rule history_inv [OF call.hyps(1) call.prems])
  have "inc_ID x \<in> dom (ms_incidents s)" if "?found = Some x" for x
    using mem_find_char [OF inv call.hyps(2), of "buildCorrelationKey a" "cc_ExpansionWindow (co_cfg c)" ?found] that
    by (auto simp: mem_FindOpenByCorrelationKey_def)
  then have "inc_ID (correlated (co_graph c) (ce_id ce) (ce_now ce) a ?found) \<in> insert (ce_id ce) (dom (ms_incidents s))"
    by (cases ?found) (simp_all add: correlated_ID)
  moreover have "dom (ms_incidents s') =
      insert (inc_ID (correlated (co_graph c) (ce_id ce) (ce_now ce) a ?found)) (dom (ms_incidents s))"
    using call.hyps(5) call.prems by (simp add: ProcessAlert_def mem_FindOpenByCorrelationKey_def mem_Save_def) auto
  ultimately show ?case using call.IH [OF call.prems] by auto
qed (simp add: NewInMemoryIncidentStore_def)

lemma keeps_other:
  assumes "keeps_sessions w k s ss" "s' = s\<lparr>ms_incidents := (ms_incidents s)(inc_ID x \<mapsto> x)\<rparr>"
    and "inc_CorrelationKey x \<noteq> k" "\<And>y. ms_incidents s (inc_ID x) = Some y \<Longrightarrow> inc_CorrelationKey y \<noteq> k"
  shows "keeps_sessions w k s' ss"
proof -
  from assms(1) obtain ids where ids: "distinct ids"
    "set ids = {i. \<exists>x. ms_incidents s i = Some x \<and> inc_CorrelationKey x = k}"
    "list_all2 (\<lambda>i sess. \<exists>x. ms_incidents s i = Some x \<and> of_session x sess) ids ss"
    unfolding keeps_sessions_def by blast
  have "inc_ID x \<notin> set ids" using ids(2) assms(4) by auto
  then have "list_all2 (\<lambda>i sess. \<exists>x. ms_incidents s' i = Some x \<and> of_session x sess) ids ss"
    by (intro list_all2_mono_in [OF ids(3)]) (auto simp: assms(2))
  moreover have "set ids = {i. \<exists>x. ms_incidents s' i = Some x \<and> inc_CorrelationKey x = k}"
    using ids(2) assms(3,4) by (auto simp: assms(2))
  ultimately show ?thesis unfolding keeps_sessions_def using ids(1) by blast
qed

lemma keeps_opened:
  assumes "keeps_sessions w k s ss" "s' = s\<lparr>ms_incidents := (ms_incidents s)(inc_ID x \<mapsto> x)\<rparr>"
    and "inc_CorrelationKey x = k" "of_session x sess" "ms_incidents s (inc_ID x) = None"
  shows "keeps_sessions w k s' (sess # ss)"
proof -
  from assms(1) obtain ids where ids: "distinct ids"
    "set ids = {i. \<exists>x. ms_incidents s i = Some x \<and> inc_CorrelationKey x = k}"
    "list_all2 (\<lambda>i sess. \<exists>x. ms_incidents s i = Some x \<and> of_session x sess) ids ss"
    unfolding keeps_sessions_def by blast
  have fresh: "inc_ID x \<notin> set ids" using ids(2) assms(5) by auto
  have "list_all2 (\<lambda>i sess. \<exists>x. ms_incidents s' i = Some x \<and> of_session x sess) ids ss"
    by (intro list_all2_mono_in [OF ids(3)]) (use fresh assms(2) in auto)
  moreover have "set (inc_ID x # ids) = {i. \<exists>x. ms_incidents s' i = Some x \<and> inc_CorrelationKey x = k}"
    using ids(2) assms(2,3) fresh by auto
  ultimately show ?thesis
    unfolding keeps_sessions_def using ids(1) fresh assms(2,4) by (intro exI [of _ "inc_ID x # ids"]) simp
qed

lemma of_session_ID: "of_session x sess \<Longrightarrow> inc_ID x = ce_id (fst (last sess))"
  by (simp add: of_session_def)

lemma keeps_newest:
  assumes "mem_inv s" "keeps_sessions w k s (sess # older)"
  obtains i ids x where "inc_ID x = i" "distinct (i # ids)"
    "set (i # ids) = {i. \<exists>x. ms_incidents s i = Some x \<and> inc_CorrelationKey x = k}"
    "ms_incidents s i = Some x" "inc_CorrelationKey x = k" "of_session x sess"
    "list_all2 (\<lambda>i sess. \<exists>x. ms_incidents s i = Some x \<and> of_session x sess) ids older"
proof -
  from assms(2) obtain js where ids: "distinct js"
    "set js = {i. \<exists>x. ms_incidents s i = Some x \<and> inc_CorrelationKey x = k}"
    "list_all2 (\<lambda>i sess. \<exists>x. ms_incidents s i = Some x \<and> of_session x sess) js (sess # older)"
    unfolding keeps_sessions_def by blast
  from ids(3) obtain i ids x where x: "js = i # ids" "ms_incidents s i = Some x" "of_session x sess"
    "list_all2 (\<lambda>i sess. \<exists>x. ms_incidents s i = Some x \<and> of_session x sess) ids older"
    by (auto simp: list_all2_Cons2)
  have "i \<in> set js" by (simp add: x(1))
  then have "inc_CorrelationKey x = k" unfolding ids(2) using x(2) by simp
  with assms(1) x ids(1,2) that show thesis by (simp add: mem_inv_def)
qed

lemma keeps_extended:
  assumes "mem_inv s" "keeps_sessions w k s (sess # older)" "sess \<noteq> []"
    and "s' = s\<lparr>ms_incidents := (ms_incidents s)(inc_ID x \<mapsto> x)\<rparr>" "inc_CorrelationKey x = k" "of_session x (c # sess)"
  shows "keeps_sessions w k s' ((c # sess) # older)"
proof (rule keeps_newest [OF assms(1,2)])
  fix i ids y
  assume y: "inc_ID y = i" "distinct (i # ids)" "ms_incidents s i = Some y" "of_session y sess"
    "set (i # ids) = {i. \<exists>x. ms_incidents s i = Some x \<and> inc_CorrelationKey x = k}"
    "list_all2 (\<lambda>i sess. \<exists>x. ms_incidents s i = Some x \<and> of_session x sess) ids older"
  have i: "inc_ID x = i" using of_session_ID [OF assms(6)] of_session_ID [OF y(4)] y(1) assms(3) by simp
  have "list_all2 (\<lambda>i sess. \<exists>x. ms_incidents s' i = Some x \<and> of_session x sess) ids older"
    by (intro list_all2_mono_in [OF y(6)]) (use i y(2) assms(4) in auto)
  moreover have "set (i # ids) = {i. \<exists>x. ms_incidents s' i = Some x \<and> inc_CorrelationKey x = k}"
    using y(3,5) i assms(4,5) by auto
  ultimately show ?thesis
    unfolding keeps_sessions_def using y(2) i assms(4,6) by (intro exI [of _ "i # ids"]) simp
qed

text \<open>The search finds the incident of the newest session, as long as the session goes on.\<close>

lemma search_newest:
  assumes "mem_inv s" "mem_ok e s" "keeps_sessions w k s (sessions w cs)" "\<forall>c \<in> set cs. call_seen c \<le> me_now e"
  shows "mem_find_loop k w (me_now e) s (me_keys e) None =
    (case sessions w cs of
       [] \<Rightarrow> None
     | sess # older \<Rightarrow>
         if time_sub (me_now e) (call_now (hd sess)) \<le> w then ms_incidents s (ce_id (fst (last sess))) else None)"
    (is "?found = _")
proof -
  have f: "case ?found of
      None \<Rightarrow> \<forall>i y. ms_incidents s i = Some y \<longrightarrow> \<not> mem_eligible k w (me_now e) y
    | Some x \<Rightarrow> ms_incidents s (inc_ID x) = Some x \<and> mem_eligible k w (me_now e) x \<and>
        (\<forall>i y. ms_incidents s i = Some y \<longrightarrow> mem_eligible k w (me_now e) y \<longrightarrow> inc_LastAlertAt y \<le> inc_LastAlertAt x)"
    by (rule mem_find_char [OF assms(1,2)]) (simp add: mem_FindOpenByCorrelationKey_def)
  show ?thesis
  proof (cases "sessions w cs")
    case Nil
    with assms(3) have "ms_incidents s i = Some y \<Longrightarrow> inc_CorrelationKey y \<noteq> k" for i y
      by (auto simp: keeps_sessions_def)
    with f Nil show ?thesis by (cases ?found) (auto simp: mem_eligible_def)
  next
    case (Cons sess older)
    from assms(3) have keeps: "keeps_sessions w k s (sess # older)" by (simp add: Cons)
    show ?thesis
    proof (rule keeps_newest [OF assms(1) keeps])
      fix i ids x
      assume x: "inc_ID x = i" "ms_incidents s i = Some x" "of_session x sess"
        and ids: "set (i # ids) = {i. \<exists>x. ms_incidents s i = Some x \<and> inc_CorrelationKey x = k}"
        and older: "list_all2 (\<lambda>i sess. \<exists>x. ms_incidents s i = Some x \<and> of_session x sess) ids older"
      have "\<forall>c \<in> set (concat (sess # older)). call_seen c \<le> me_now e"
        using assms(4) sessions_concat [of w cs] unfolding Cons by (metis set_rev)
      then have closed: "time_sub (me_now e) (call_now (hd old)) > w" if "old \<in> set older" for old
        using older_sessions_closed [of w sess older "me_now e" old] sessions_gaps [of w cs]
          sessions_nonempty [of w cs] that unfolding Cons by simp
      have only: "j = i" if "ms_incidents s j = Some y" "mem_eligible k w (me_now e) y" for j y
      proof (rule ccontr)
        assume "j \<noteq> i"
        with ids that have "j \<in> set ids" by (auto simp: mem_eligible_def)
        from list_all2_left [OF older this] closed that show False
          by (fastforce simp: of_session_def mem_eligible_def)
      qed
      assume "inc_CorrelationKey x = k"
      with x have el: "mem_eligible k w (me_now e) x \<longleftrightarrow> time_sub (me_now e) (call_now (hd sess)) \<le> w"
        by (simp add: mem_eligible_def of_session_def incident_state_defs)
      with f only x(2) have "?found = (if time_sub (me_now e) (call_now (hd sess)) \<le> w then Some x else None)"
        by (cases ?found) auto
      with x of_session_ID [OF x(3)] show ?thesis by (simp add: Cons)
    qed
  qed
qed

lemma extend_sessions_cases:
  "extend_sessions w (sessions w cs) c =
    (case sessions w cs of
       [] \<Rightarrow> [[c]]
     | sess # older \<Rightarrow> if follows w (hd sess) c then (c # sess) # older else [c] # sess # older)"
  by (rule sessions_cases [of w cs]) simp_all

lemma history_sessions:
  assumes "mem_history c calls t s" "co_store c = mem_incident_store" "distinct (map call_id calls)"
  shows "keeps_sessions (cc_ExpansionWindow (co_cfg c)) k s (sessions (cc_ExpansionWindow (co_cfg c)) (calls_of k calls))"
  using assms
proof (induction arbitrary: k)
  case (none t)
  show ?case
    by (simp add: keeps_sessions_def sessions_def calls_of_def NewInMemoryIncidentStore_def)
next
  case (call calls t s ce a r s')
  let ?w = "cc_ExpansionWindow (co_cfg c)" and ?k = "buildCorrelationKey a" and ?e = "ce_find ce"
  let ?ss = "sessions ?w (calls_of ?k calls)" and ?found = "mem_find_loop ?k ?w (me_now ?e) s (me_keys ?e) None"
  let ?x = "correlated (co_graph c) (ce_id ce) (ce_now ce) a ?found"
  have inv: "mem_inv s" by (rule history_inv [OF call.hyps(1) call.prems(1)])
  have "distinct (map call_id calls)" using call.prems(2) by simp
  note IH = call.IH [OF call.prems(1) this]
  have fresh: "ms_incidents s (ce_id ce) = None"
    using history_ids [OF call.hyps(1) call.prems(1)] call.prems(2) by (auto simp: domIff)
  have s': "s' = s\<lparr>ms_incidents := (ms_incidents s)(inc_ID ?x \<mapsto> ?x)\<rparr>"
    using call.hyps(5) call.prems by (auto simp: ProcessAlert_def mem_FindOpenByCorrelationKey_def mem_Save_def)
  have keeps: "keeps_sessions ?w ?k s ?ss" by (rule IH)
  have "\<forall>d \<in> set (calls_of ?k calls). call_seen d \<le> me_now ?e"
    using history_times [OF call.hyps(1)] call.hyps(3,4) by (fastforce simp: calls_of_def)
  note found = search_newest [OF inv call.hyps(2) keeps this]
  have "keeps_sessions ?w ?k s' (extend_sessions ?w ?ss (ce, a)) \<and> inc_CorrelationKey ?x = ?k \<and>
      (\<forall>y. ms_incidents s (inc_ID ?x) = Some y \<longrightarrow> inc_CorrelationKey y = ?k)"
  proof (cases "\<exists>sess older. ?ss = sess # older \<and> follows ?w (hd sess) (ce, a)")
    case True
    then obtain sess older where ss: "?ss = sess # older" "follows ?w (hd sess) (ce, a)" by blast
    from keeps have ks: "keeps_sessions ?w ?k s (sess # older)" by (simp add: ss)
    from sessions_nonempty [of ?w "calls_of ?k calls"] have ne: "sess \<noteq> []" by (auto simp: ss)
    obtain x where x: "?found = Some x" "of_session x sess" "inc_CorrelationKey x = ?k" "ms_incidents s (inc_ID x) = Some x"
    proof (rule keeps_newest [OF inv ks])
      fix i ids x
      assume x: "inc_ID x = i" "ms_incidents s i = Some x" "inc_CorrelationKey x = ?k" "of_session x sess"
      with found ss of_session_ID [OF x(4)] have "?found = Some x" by (simp add: follows_def)
      with x that show thesis by simp
    qed
    from x have "inc_ID ?x = inc_ID x" "inc_CorrelationKey ?x = ?k" by (simp_all add: correlated_ID)
    moreover from x have "of_session ?x ((ce, a) # sess)"
      using of_session_update [of x "hd sess" "tl sess"] ne by (simp add: correlated_def)
    moreover have "extend_sessions ?w ?ss (ce, a) = ((ce, a) # sess) # older"
      unfolding extend_sessions_cases using ss by simp
    ultimately show ?thesis using keeps_extended [OF inv ks ne s'] x by simp
  next
    case False
    then have none: "?found = None" by (cases ?ss) (simp_all add: found follows_def)
    then have x: "?x = new_incident (co_graph c) (ce_id ce) (ce_now ce) a" by (simp add: correlated_def)
    have "inc_ID ?x = ce_id ce" "inc_CorrelationKey ?x = ?k" using none by (simp_all add: correlated_ID)
    moreover have "extend_sessions ?w ?ss (ce, a) = [(ce, a)] # ?ss"
      unfolding extend_sessions_cases using False by (auto split: list.split)
    ultimately show ?thesis using keeps_opened [OF keeps s'] of_session_new fresh x by simp
  qed
  then show ?case
    using keeps_other [OF IH s'] by (cases "k = ?k") (auto simp: calls_of_def sessions_snoc)
qed

text \<open>
  C3: the incidents are the sessions, as long as no two calls draw the same ID. After any calls one
  after the other, clocks not going back and IDs distinct (\<open>NewIncidentID\<close> reads the clock in
  microseconds, so: no two calls in one microsecond; only a call that opens an incident uses its ID),
  the in-memory store has, for every correlation key, exactly one incident for each session of the
  key's alerts, with the session's alerts in their order, its first call's ID and time of creation and
  its last call's time. The sessions divide the calls exactly at the gaps longer than the expansion
  window.
\<close>

theorem incidents_are_sessions:
  assumes "mem_history c calls t s" "co_store c = mem_incident_store" "distinct (map call_id calls)"
    and "w = cc_ExpansionWindow (co_cfg c)" "ss = sessions w (calls_of k calls)"
  shows "(\<exists>ids. distinct ids \<and> set ids = {i. \<exists>x. ms_incidents s i = Some x \<and> inc_CorrelationKey x = k} \<and>
      list_all2 (\<lambda>i sess. \<exists>x. ms_incidents s i = Some x \<and> of_session x sess) ids ss) \<and>
    concat ss = rev (calls_of k calls) \<and> list_all (in_window w) ss \<and> gaps_between w ss"
  using history_sessions [OF assms(1-3), of k] sessions_concat sessions_gaps
  unfolding assms(4,5) keeps_sessions_def by blast

definition session_call :: "time \<Rightarrow> string \<Rightarrow> string list \<Rightarrow> mem_env call_env" where
  "session_call t i ks = \<lparr>ce_now = t, ce_id = i, ce_find = \<lparr>me_now = t, me_keys = ks\<rparr>, ce_save = \<lparr>me_now = t, me_keys = ks\<rparr>\<rparr>"

theorem incidents_are_sessions_witness:
  "\<exists>s ids. mem_history (demo_correlator mem_incident_store)
      [(session_call 0 ''i'' [], demo_alert ''f'' 0), (session_call 900 ''j'' [''i''], demo_alert ''g'' 0)] 900 s \<and>
    set ids = {i. \<exists>x. ms_incidents s i = Some x \<and> inc_CorrelationKey x = ''//unknown''} \<and>
    list_all2 (\<lambda>i as. \<exists>x. ms_incidents s i = Some x \<and> inc_Alerts x = as) ids [[demo_alert ''f'' 0, demo_alert ''g'' 0]]"
proof -
  let ?c = "demo_correlator mem_incident_store" and ?a = "demo_alert ''f'' 0" and ?b = "demo_alert ''g'' 0"
  let ?p = "(session_call 0 ''i'' [], ?a)" and ?q = "(session_call 900 ''j'' [''i''], ?b)"
  obtain r1 s1 where p1: "ProcessAlert ?c (session_call 0 ''i'' []) NewInMemoryIncidentStore ?a = (r1, s1)" by fastforce
  then have "s1 = \<lparr>ms_incidents = [''i'' \<mapsto> correlated (co_graph ?c) ''i'' 0 ?a None]\<rparr>"
    by (simp add: ProcessAlert_def demo_correlator_def session_call_def mem_FindOpenByCorrelationKey_def
        mem_Save_def correlated_ID NewInMemoryIncidentStore_def)
  then have d1: "dom (ms_incidents s1) = {''i''}" by simp
  obtain r2 s2 where p2: "ProcessAlert ?c (session_call 900 ''j'' [''i'']) s1 ?b = (r2, s2)" by fastforce
  have "mem_history ?c ([] @ [?p]) (me_now (ce_find (session_call 0 ''i'' []))) s1"
    by (rule mem_history.call [OF mem_history.none [where t = 0] _ _ _ p1])
      (simp_all add: session_call_def mem_ok_def enumerates_def NewInMemoryIncidentStore_def)
  then have "mem_history ?c [?p] 0 s1" by (simp add: session_call_def)
  then have "mem_history ?c ([?p] @ [?q]) (me_now (ce_find (session_call 900 ''j'' [''i'']))) s2"
    by (rule mem_history.call [OF _ _ _ _ p2]) (use d1 in \<open>simp_all add: session_call_def mem_ok_def enumerates_def\<close>)
  then have run: "mem_history ?c [?p, ?q] 900 s2" by (simp add: session_call_def)
  have k: "buildCorrelationKey ?a = ''//unknown''" "buildCorrelationKey ?b = ''//unknown''"
    by (simp_all add: buildCorrelationKey_def primaryServiceFromLabels_def demo_alert_def)
  have c: "co_store ?c = mem_incident_store" "900 = cc_ExpansionWindow (co_cfg ?c)" by (simp_all add: demo_correlator_def)
  have ss: "[[?q, ?p]] = sessions 900 (calls_of ''//unknown'' [?p, ?q])"
    by (simp add: calls_of_def k sessions_def follows_def session_call_def time_sub_def sat64_def min_int64_def max_int64_def)
  have d: "distinct (map call_id [?p, ?q])" by (simp add: session_call_def)
  from incidents_are_sessions [OF run c(1) d c(2) ss] obtain ids
    where ids: "set ids = {i. \<exists>x. ms_incidents s2 i = Some x \<and> inc_CorrelationKey x = ''//unknown''}"
      "list_all2 (\<lambda>i sess. \<exists>x. ms_incidents s2 i = Some x \<and> of_session x sess) ids [[?q, ?p]]" by blast
  then have "list_all2 (\<lambda>i as. \<exists>x. ms_incidents s2 i = Some x \<and> inc_Alerts x = as) ids [[?a, ?b]]"
    by (auto simp: list_all2_Cons2 of_session_def)
  with run ids(1) show ?thesis by blast
qed

end
