(* ===== verification/Sentientd_Main.thy ===== *)
theory Sentientd_Main
  imports Dag_Runner Http_Server Topology_Client Connections Correlator_Sessions
begin

text \<open>
  \<open>cmd/main.go\<close>: which components the service is wired from, the loop that investigates open
  incidents every 30 seconds, the source of incident IDs, and the shutdown. The local time zone of the
  process is UTC.
\<close>

section \<open>Wiring\<close>

datatype 'p store_choice =
    UseInMemory
  | UsePostgres 'p
  | FatalExit error  \<comment> \<open>the process ends with status 1\<close>

definition choose_store :: "config \<Rightarrow> 'p result \<Rightarrow> 'p store_choice" where
  \<comment> \<open>the second argument is what \<open>database.Connect\<close> returns\<close>
  "choose_store cfg connect =
     (if cf_UseInMemoryStore cfg \<or> cf_DatabaseURL cfg = [] then UseInMemory
      else (case connect of Inl err \<Rightarrow> FatalExit err | Inr pool \<Rightarrow> UsePostgres pool))"

definition choose_graph ::
    "error option \<times> topo_client \<Rightarrow> (topo_client \<Rightarrow> string \<Rightarrow> topology_slice option result)
      \<Rightarrow> string \<Rightarrow> topology_slice option result" where
  \<comment> \<open>the arguments are the outcome of \<open>Initialize\<close> and how a client answers\<close>
  "choose_graph init ask =
     (case init of (None, client) \<Rightarrow> ask client | (Some err, _) \<Rightarrow> emptyGraph_SubgraphForService)"

definition choose_policy :: "config \<Rightarrow> (string \<Rightarrow> policy_engine result) \<Rightarrow> policy_engine option" where
  "choose_policy cfg new_engine =
     (if cf_PolicyDir cfg = [] then None
      else (case new_engine (cf_PolicyDir cfg) of Inl err \<Rightarrow> None | Inr pe \<Rightarrow> Some pe))"

definition choose_queue :: "config \<Rightarrow> (string \<Rightarrow> nats_queue result) \<Rightarrow> nats_queue option" where
  "choose_queue cfg new_queue =
     (if cf_NATSEnabled cfg \<and> cf_NATSURL cfg \<noteq> [] then
        (case new_queue (cf_NATSURL cfg) of Inl err \<Rightarrow> None | Inr q \<Rightarrow> Some q)
      else None)"

definition wire_correlator ::
    "config \<Rightarrow> ('s, 'e) incident_store \<Rightarrow> (string \<Rightarrow> topology_slice option result) \<Rightarrow> ('s, 'e) correlator" where
  "wire_correlator cfg st graph =
     NewCorrelator \<lparr>cc_InitialWindow = cf_InitialWindow cfg, cc_ExpansionWindow = cf_ExpansionWindow cfg\<rparr> st graph"

definition wire_engine ::
    "config \<Rightarrow> ('s, 'e) incident_store \<Rightarrow> unit result \<Rightarrow> unit result \<Rightarrow> (string \<Rightarrow> policy_engine result)
      \<Rightarrow> ('s, 'e) investigation_engine" where
  \<comment> \<open>the two unit results are the outcomes of the in-cluster configuration and the dynamic client\<close>
  "wire_engine cfg st in_cluster dyn_client new_engine =
     NewInvestigation st (NewKagent (cf_KagentURL cfg))
       (snd (InitializeArgo in_cluster dyn_client (NewArgo (cf_ArgoNamespace cfg))))
       (NewSlack (cf_SlackWebhookURL cfg)) (choose_policy cfg new_engine)"

definition wire_server ::
    "config \<Rightarrow> ('s, 'e) correlator \<Rightarrow> nats_queue option \<Rightarrow> ('s, 'e) server" where
  "wire_server cfg c q =
     (case q of None \<Rightarrow> NewServer cfg c | Some q \<Rightarrow> SetQueue q (NewServer cfg c))"

section \<open>Incident IDs\<close>

definition NewIncidentID :: "time \<Rightarrow> string" where
  "NewIncidentID now = format_micro_id now"

section \<open>The investigation loop\<close>

definition scan_tick ::
    "('s, 'e) investigation_engine \<Rightarrow> 'e \<Rightarrow> (string \<Rightarrow> 'e investigation_env) \<Rightarrow> 's \<Rightarrow> effect list" where
  \<comment> \<open>errors are only logged\<close>
  "scan_tick en e env s =
     (case st_List (en_store en) e s of
        Inl err \<Rightarrow> []
      | Inr incs \<Rightarrow>
          concat (map (\<lambda>inc. if inc_State inc = IncidentStateOpen
                             then snd (InvestigateIncident en (env (inc_ID inc)) s (inc_ID inc))
                             else []) incs))"

datatype ('s, 'e) loop_event =
    Tick 's 'e "string \<Rightarrow> 'e investigation_env"  \<comment> \<open>30 seconds have passed; the state then\<close>
  | Cancelled

fun investigation_loop :: "('s, 'e) investigation_engine \<Rightarrow> ('s, 'e) loop_event list \<Rightarrow> effect list" where
  "investigation_loop en [] = []"
| "investigation_loop en (Cancelled # evs) = []"
| "investigation_loop en (Tick s e env # evs) = scan_tick en e env s @ investigation_loop en evs"

section \<open>Shutdown\<close>

datatype shutdown_cause = ServerError | Signal

datatype shutdown_action =
    CancelInvestigation
  | CancelIngest
  | CloseNATS
  | ShutdownHTTP
  | CloseDatabase

definition shutdown :: "shutdown_cause \<Rightarrow> nats_queue option \<Rightarrow> 'p store_choice \<Rightarrow> shutdown_action list" where
  \<comment> \<open>closing the pool is deferred from where it was opened\<close>
  "shutdown cause q st =
     (case cause of
        ServerError \<Rightarrow> []
      | Signal \<Rightarrow> [CancelInvestigation, CancelIngest] @
          (case q of None \<Rightarrow> [] | Some _ \<Rightarrow> [CloseNATS]) @ [ShutdownHTTP]) @
     (case st of UsePostgres _ \<Rightarrow> [CloseDatabase] | _ \<Rightarrow> [])"

section \<open>Properties\<close>

text \<open>
  C32: policy validation fails open: when the policies cannot be loaded (no directory, no file, an
  unreadable file, a module that does not compile), the service runs on without an engine, and then
  every plan that is confident enough is submitted, whatever its tasks and environment.
\<close>

theorem policy_fails_open:
  assumes "NewEngine glob read prepare (cf_PolicyDir cfg) = Inl err"
    and "en_policy en = choose_policy cfg (NewEngine glob read prepare)"
    and "planned en e s incID = Some (inc, result)" "ir_PlanConfidence result \<ge> min_confidence"
    and "ag_initialized (en_argo en)"
  shows "\<exists>w. workflows (snd (InvestigateIncident en e s incID)) = [w] \<and>
    workflow_tasks w = map (argo_task (iv_marshal e)) (dag_Tasks (ir_DAG result))"
proof -
  have "en_policy en = None" using assms(1,2) by (simp add: choose_policy_def)
  then have p: "passes (en_policy en) inc d" for d by (simp add: passes_def)
  show ?thesis
    by (rule exI, rule conjI, rule workflows_investigate [OF assms(3) p assms(4,5)], simp)
qed

definition demo_config :: config where
  "demo_config = FromEnv (\<lambda>k. [])"

definition demo_state :: mem_store where
  "demo_state = \<lparr>ms_incidents = [''i'' \<mapsto> demo_incident ''i'' 0]\<rparr>"

theorem policy_fails_open_witness:
  "\<exists>w. workflows (snd (InvestigateIncident
      (demo_engine (choose_policy demo_config (NewEngine (\<lambda>d. Inr []) (\<lambda>f. Inl []) (\<lambda>ms. Inl []))))
      (demo_investigation_env (demo_plan_json 1 [])) demo_state ''i'')) = [w] \<and> workflow_tasks w = []"
proof -
  let ?new = "NewEngine (\<lambda>d. Inr []) (\<lambda>f. Inl []) (\<lambda>ms. Inl [])"
  let ?en = "demo_engine (choose_policy demo_config ?new)"
  have dir: "cf_PolicyDir demo_config \<noteq> []" by (simp add: demo_config_def FromEnv_def getEnv_nonempty)
  then obtain err where fail: "?new (cf_PolicyDir demo_config) = Inl err" by (simp add: NewEngine_def)
  have pol: "en_policy ?en = choose_policy demo_config ?new" "ag_initialized (en_argo ?en)"
    by (simp_all add: demo_engine_def)
  have conf: "ir_PlanConfidence (demo_result 1 []) \<ge> min_confidence"
    by (simp add: demo_result_def min_confidence_def float64_def fl64_six_tenths)
  have tasks: "dag_Tasks (ir_DAG (demo_result 1 [])) = []" by (simp add: demo_result_def demo_dag_def)
  from policy_fails_open [OF fail pol(1) demo_planned conf pol(2)] tasks
  show ?thesis by (simp add: demo_state_def)
qed

text \<open>
  C31: a scan investigates every open incident, once each, and no other: with the in-memory store, the
  incidents a tick investigates are the open ones of the state, whatever the order of the map.
\<close>

theorem scan_investigates_open:
  assumes "mem_inv s" "mem_ok e s" "en_store en = mem_incident_store"
  shows "\<exists>ids. distinct ids \<and>
    set ids = {i. \<exists>x. ms_incidents s i = Some x \<and> inc_State x = IncidentStateOpen} \<and>
    scan_tick en e env s = concat (map (\<lambda>i. snd (InvestigateIncident en (env i) s i)) ids)"
proof -
  obtain xs where l: "mem_List e s = Inr xs" by (simp add: mem_List_def)
  then have l': "st_List mem_incident_store e s = Inr xs" by simp
  note all = mem.list_all [OF assms(1,2) l']
  let ?ids = "map inc_ID (filter (\<lambda>x. inc_State x = IncidentStateOpen) xs)"
  have "distinct ?ids" using all by (simp add: distinct_map_filter)
  moreover have "set ?ids = {i. \<exists>x. ms_incidents s i = Some x \<and> inc_State x = IncidentStateOpen}"
  proof (intro set_eqI iffI)
    fix i
    assume "i \<in> set ?ids"
    then obtain x where x: "x \<in> set xs" "inc_State x = IncidentStateOpen" "i = inc_ID x" by auto
    with all obtain y where "ms_incidents s i = Some y" "same_incident x y" by blast
    with x show "i \<in> {i. \<exists>x. ms_incidents s i = Some x \<and> inc_State x = IncidentStateOpen}"
      using same_incident_fields(8) by fastforce
  next
    fix i
    assume "i \<in> {i. \<exists>x. ms_incidents s i = Some x \<and> inc_State x = IncidentStateOpen}"
    then obtain y where y: "ms_incidents s i = Some y" "inc_State y = IncidentStateOpen" by blast
    with all obtain x where x: "x \<in> set xs" "inc_ID x = i" by (metis imageE option.distinct(1))
    with all y obtain z where "ms_incidents s (inc_ID x) = Some z" "same_incident x z" by blast
    with x y show "i \<in> set ?ids" using same_incident_fields(8) by force
  qed
  moreover have "concat (map (\<lambda>inc. if inc_State inc = IncidentStateOpen then f (inc_ID inc) else []) ys) =
      concat (map f (map inc_ID (filter (\<lambda>x. inc_State x = IncidentStateOpen) ys)))" for f :: "string \<Rightarrow> effect list" and ys
    by (induction ys) simp_all
  then have "scan_tick en e env s = concat (map (\<lambda>i. snd (InvestigateIncident en (env i) s i)) ?ids)"
    using l' assms(3) by (simp add: scan_tick_def del: map_map)
  ultimately show ?thesis by blast
qed

lemma demo_state_ok: "mem_inv demo_state" "mem_ok \<lparr>me_now = 0, me_keys = [''i'']\<rparr> demo_state"
  by (auto simp: mem_inv_def mem_ok_def enumerates_def demo_state_def demo_incident_def split: if_splits)

theorem scan_investigates_open_witness:
  "\<exists>ids. set ids = {''i''} \<and>
     scan_tick (demo_engine None) \<lparr>me_now = 0, me_keys = [''i'']\<rparr> (\<lambda>i. demo_investigation_env JNull) demo_state =
       concat (map (\<lambda>i. snd (InvestigateIncident (demo_engine None) (demo_investigation_env JNull) demo_state i)) ids)"
proof -
  have st: "en_store (demo_engine None) = mem_incident_store" by (simp add: demo_engine_def)
  have open_ids: "{i. \<exists>x. ms_incidents demo_state i = Some x \<and> inc_State x = IncidentStateOpen} = {''i''}"
    by (auto simp: demo_state_def demo_incident_def split: if_splits)
  from scan_investigates_open [OF demo_state_ok st, where env = "\<lambda>i. demo_investigation_env JNull"]
  show ?thesis unfolding open_ids by blast
qed

section \<open>From an alert to the planning service\<close>

text \<open>
  While no two calls draw the same ID, the alert of every call stays in the incident of its session, and
  that incident stays open.
\<close>

lemma history_holds:
  assumes "mem_history c calls t s" "co_store c = mem_incident_store" "distinct (map call_id calls)"
    and "(ce, a) \<in> set calls"
  obtains x where "ms_incidents s (inc_ID x) = Some x" "a \<in> set (inc_Alerts x)"
    "inc_CorrelationKey x = buildCorrelationKey a" "inc_State x = IncidentStateOpen"
proof -
  let ?k = "buildCorrelationKey a" and ?w = "cc_ExpansionWindow (co_cfg c)"
  let ?ss = "sessions ?w (calls_of ?k calls)"
  have "(ce, a) \<in> set (calls_of ?k calls)" using assms(4) by (simp add: calls_of_def)
  then have "(ce, a) \<in> set (concat ?ss)" unfolding sessions_concat by simp
  then obtain sess where sess: "sess \<in> set ?ss" "(ce, a) \<in> set sess" by auto
  from history_sessions [OF assms(1-3), of ?k] obtain ids
    where ids: "set ids = {i. \<exists>x. ms_incidents s i = Some x \<and> inc_CorrelationKey x = ?k}"
      "list_all2 (\<lambda>i sess. \<exists>x. ms_incidents s i = Some x \<and> of_session x sess) ids ?ss"
    unfolding keeps_sessions_def by blast
  from list_all2_right [OF ids(2) sess(1)] obtain i x
    where i: "i \<in> set ids" "ms_incidents s i = Some x" "of_session x sess" by blast
  moreover from history_inv [OF assms(1,2)] i(2) have "inc_ID x = i" by (simp add: mem_inv_def)
  moreover from i ids(1) have "inc_CorrelationKey x = ?k" by auto
  moreover have "a \<in> set (inc_Alerts x)" using i(3) sess(2) by (force simp: of_session_def)
  moreover have "inc_State x = IncidentStateOpen" using i(3) by (simp add: of_session_def)
  ultimately show thesis using that [of x] by simp
qed

lemma scan_investigates:
  assumes "en_store en = mem_incident_store" "mem_ok e s" "ms_incidents s (inc_ID x) = Some x"
    and "inc_State x = IncidentStateOpen"
  shows "set (snd (InvestigateIncident en (env (inc_ID x)) s (inc_ID x))) \<subseteq> set (scan_tick en e env s)"
proof -
  have "inc_ID x \<in> set (me_keys e)" using assms(2,3) by (auto simp: mem_ok_def enumerates_def)
  then have "x \<in> set (List.map_filter (ms_incidents s) (me_keys e))"
    unfolding set_map_filter_ex using assms(3) by blast
  with assms(1,4) show ?thesis by (force simp: scan_tick_def mem_List_def)
qed

text \<open>
  C16: every alert reaches the planning service: after any calls of the in-memory correlator, one after
  the other, with clocks not going back and no two of them drawing the same ID, the alert of each of
  these calls is in an incident with its key for which the next tick sends the service a request for a
  plan, provided that the times of the incidents can be encoded and the service's URL parses.
\<close>

theorem alert_reaches_planner:
  assumes "mem_history c calls t s" "co_store c = mem_incident_store" "distinct (map call_id calls)"
    and "(ce, a) \<in> set calls" "en_store en = mem_incident_store" "mem_ok e s"
    and "\<And>i x. ms_incidents s i = Some x \<Longrightarrow> incident_marshals x"
    and "\<And>i. he_new_request (iv_http (env i)) (kc_baseURL (en_kagent en) @ ''/v1/incidents/plan'') = None"
  shows "\<exists>x. a \<in> set (inc_Alerts x) \<and> inc_CorrelationKey x = buildCorrelationKey a \<and>
       HttpSent (plan_http_request (en_kagent en) (investigation_request x)) \<in> set (scan_tick en e env s)"
proof (rule history_holds [OF assms(1-4)])
  fix x
  assume x: "ms_incidents s (inc_ID x) = Some x" "a \<in> set (inc_Alerts x)"
    "inc_CorrelationKey x = buildCorrelationKey a" "inc_State x = IncidentStateOpen"
  have "st_GetByID (en_store en) (iv_store (env (inc_ID x))) s (inc_ID x) = Inr (Some x)"
    using x(1) assms(5) by (simp add: mem_GetByID_def)
  from investigation_asks [OF this assms(7) [OF x(1)] assms(8)]
    scan_investigates [OF assms(5,6) x(1,4), of env] x show ?thesis by auto
qed

definition demo_id_call :: "string list \<Rightarrow> mem_env call_env" where
  "demo_id_call ks = \<lparr>ce_now = 0, ce_id = NewIncidentID 0, ce_find = \<lparr>me_now = 0, me_keys = ks\<rparr>,
     ce_save = \<lparr>me_now = 0, me_keys = []\<rparr>\<rparr>"

theorem alert_reaches_planner_witness:
  "\<exists>x. labelled [] \<in> set (inc_Alerts x) \<and>
     HttpSent (plan_http_request (en_kagent (demo_engine None)) (investigation_request x)) \<in>
       set (scan_tick (demo_engine None) \<lparr>me_now = 0, me_keys = [NewIncidentID 0]\<rparr>
         (\<lambda>i. demo_investigation_env JNull)
         (snd (ProcessAlert (demo_correlator mem_incident_store) (demo_id_call []) NewInMemoryIncidentStore (labelled []))))"
proof -
  let ?c = "demo_correlator mem_incident_store" and ?en = "demo_engine None"
  obtain r s' where p: "ProcessAlert ?c (demo_id_call []) NewInMemoryIncidentStore (labelled []) = (r, s')" by fastforce
  have c: "co_store ?c = mem_incident_store" and en: "en_store ?en = mem_incident_store"
    by (simp_all add: demo_correlator_def demo_engine_def)
  let ?x = "new_incident (co_graph ?c) (NewIncidentID 0) 0 (labelled [])"
  have s': "s' = \<lparr>ms_incidents = [NewIncidentID 0 \<mapsto> ?x]\<rparr>"
    using p c by (auto simp: ProcessAlert_def mem_FindOpenByCorrelationKey_def demo_id_call_def
        NewInMemoryIncidentStore_def correlated_def mem_Save_def)
  have "incident_marshals ?x"
    using time_marshals_epoch by (simp add: incident_marshals_def new_incident_def Let_def labelled_def demo_alert_def alert_marshals_def)
  then have m: "incident_marshals x" if "ms_incidents s' i = Some x" for i x
    using that by (simp add: s' split: if_splits)
  have k: "mem_ok \<lparr>me_now = 0, me_keys = [NewIncidentID 0]\<rparr> s'"
    by (simp add: s' mem_ok_def enumerates_def)
  have u: "he_new_request (iv_http (demo_investigation_env JNull)) url = None" for url
    by (simp add: demo_investigation_env_def demo_http_def)
  have "mem_history ?c ([] @ [(demo_id_call [], labelled [])]) (me_now (ce_find (demo_id_call []))) s'"
    by (rule mem_history.call [OF mem_history.none [where t = 0] _ _ _ p])
      (simp_all add: demo_id_call_def mem_ok_def enumerates_def NewInMemoryIncidentStore_def)
  then have run: "mem_history ?c [(demo_id_call [], labelled [])] (me_now (ce_find (demo_id_call []))) s'" by simp
  have "\<exists>x. labelled [] \<in> set (inc_Alerts x) \<and> inc_CorrelationKey x = buildCorrelationKey (labelled []) \<and>
      HttpSent (plan_http_request (en_kagent ?en) (investigation_request x)) \<in>
        set (scan_tick ?en \<lparr>me_now = 0, me_keys = [NewIncidentID 0]\<rparr> (\<lambda>i. demo_investigation_env JNull) s')"
    by (rule alert_reaches_planner [OF run c _ _ en k _ u, of "demo_id_call []"]) (simp_all add: m)
  with p show ?thesis by auto
qed

text \<open>
  An incident is not investigated once: nothing in the service moves an incident out of the open
  state, so every tick asks for a plan again and, for a confident one, submits a further workflow: n
  ticks over one incident submit n workflows.
\<close>

theorem each_tick_submits_again:
  "length (workflows (investigation_loop (demo_engine None)
     (replicate n (Tick demo_state \<lparr>me_now = 0, me_keys = [''i'']\<rparr>
        (\<lambda>i. demo_investigation_env (demo_plan_json 1 [])))))) = n"
proof -
  let ?env = "demo_investigation_env (demo_plan_json 1 [])"
  have l: "st_List mem_incident_store \<lparr>me_now = 0, me_keys = [''i'']\<rparr> demo_state = Inr [demo_incident ''i'' 0]"
    by (simp add: mem_List_def demo_state_def map_filter_simps)
  have d: "inc_State (demo_incident ''i'' 0) = IncidentStateOpen" "inc_ID (demo_incident ''i'' 0) = ''i''"
    by (simp_all add: demo_incident_def)
  have en: "en_store (demo_engine None) = mem_incident_store" "ag_initialized (en_argo (demo_engine None))"
    "passes (en_policy (demo_engine None)) inc g" for inc g
    by (simp_all add: demo_engine_def passes_def)
  have conf: "ir_PlanConfidence (demo_result 1 []) \<ge> min_confidence"
    by (simp add: demo_result_def min_confidence_def float64_def fl64_six_tenths)
  have "scan_tick (demo_engine None) \<lparr>me_now = 0, me_keys = [''i'']\<rparr> (\<lambda>i. ?env) demo_state =
      snd (InvestigateIncident (demo_engine None) ?env demo_state ''i'')"
    by (simp add: scan_tick_def en l d del: mem_incident_store_sel)
  moreover have "length (workflows (snd (InvestigateIncident (demo_engine None) ?env demo_state ''i''))) = 1"
    using workflows_investigate [OF demo_planned en(3) conf en(2)] by (simp add: demo_state_def)
  ultimately show ?thesis by (induction n) simp_all
qed

lemma div_mod_nest:
  fixes t b c :: int
  assumes "0 < b" "0 \<le> c"
  shows "(t mod (b * c)) div b = (t div b) mod c"
proof -
  have "t mod (b * c) = b * (t div b mod c) + t mod b"
    using zmod_zmult2_eq [OF assms(2), of t b] by simp
  with assms(1) show ?thesis by simp
qed

lemma NewIncidentID_micro:
  assumes "t div 1000 = u div 1000"
  shows "NewIncidentID t = NewIncidentID u"
proof -
  have "x div second = x div 1000 div 1000000" "day_of x = x div 1000 div 86400000000" for x
    using zdiv_zmult2_eq [of 1000000 x 1000] zdiv_zmult2_eq [of 86400000000 x 1000]
    by (simp_all add: day_of_def second_def)
  moreover have "nanos_of x div 1000 = x div 1000 mod 1000000" for x
    using div_mod_nest [of 1000 1000000 x] by (simp add: nanos_of_def second_def)
  ultimately show ?thesis
    using assms by (simp add: NewIncidentID_def format_micro_id_def sec_of_day_def)
qed

text \<open>
  An incident ID is its microsecond: of two instants of the years 0 to 9999, the IDs are equal
  exactly when the instants lie in the same microsecond; so IDs of incidents are unique up to that
  (on a clock in UTC; a local clock that is set back repeats an hour).
\<close>

theorem NewIncidentID_eq_iff:
  assumes "time_marshals t" "time_marshals u"
  shows "NewIncidentID t = NewIncidentID u \<longleftrightarrow> t div 1000 = u div 1000"
  using format_micro_id_inject [OF assms] NewIncidentID_micro [of t u] by (auto simp: NewIncidentID_def)

theorem NewIncidentID_eq_iff_witness:
  "NewIncidentID 999 = NewIncidentID 0 \<and> NewIncidentID 1000 \<noteq> NewIncidentID 999"
proof -
  have "time_marshals 0" "time_marshals 999" "time_marshals 1000"
    by (simp_all add: time_marshals_def civil_from_days_def day_of_def year_of_days_def epoch_days_def
        days_before_year_def is_leap_def second_def Let_def)
  then show ?thesis using NewIncidentID_eq_iff [of 999 0] NewIncidentID_eq_iff [of 1000 999] by simp
qed

text \<open>
  C40: incident IDs are not unique: they are the time in microseconds, so two alerts for different
  services that arrive within one microsecond get one ID, and the second incident replaces the first,
  whose alert is then in no incident although both calls returned nil.
\<close>

theorem id_collision_loses_alert:
  assumes "co_store c = mem_incident_store" "ce_id ce = NewIncidentID t" "ce_id ce' = NewIncidentID t'"
    and "t div 1000 = t' div 1000" "buildCorrelationKey a \<noteq> buildCorrelationKey b"
    and "me_keys (ce_find ce) = []" "me_keys (ce_find ce') = [NewIncidentID t]"
    and "ProcessAlert c ce NewInMemoryIncidentStore a = (r, s)" "ProcessAlert c ce' s b = (r', s')"
  shows "r = Inr () \<and> r' = Inr () \<and> dom (ms_incidents s') = {NewIncidentID t} \<and>
    a \<notin> (\<Union>x \<in> ran (ms_incidents s'). set (inc_Alerts x))"
proof -
  let ?i = "NewIncidentID t"
  have id: "NewIncidentID t' = ?i" using NewIncidentID_micro [OF assms(4)] by simp
  let ?x = "new_incident (co_graph c) ?i (ce_now ce) a" and ?y = "new_incident (co_graph c) ?i (ce_now ce') b"
  have f: "inc_ID ?x = ?i" "inc_ID ?y = ?i" "inc_CorrelationKey ?x = buildCorrelationKey a" "inc_Alerts ?y = [b]"
    by (simp_all add: new_incident_def Let_def)
  have s: "r = Inr ()" "s = \<lparr>ms_incidents = [?i \<mapsto> ?x]\<rparr>"
    using assms(1,2,6,8) f by (auto simp: ProcessAlert_def mem_FindOpenByCorrelationKey_def correlated_def
        mem_Save_def NewInMemoryIncidentStore_def)
  have "st_FindOpenByCorrelationKey (co_store c) (ce_find ce') s (buildCorrelationKey b)
      (cc_ExpansionWindow (co_cfg c)) = Inr None"
    using assms(1,5,7) s(2) f(3) by (simp add: mem_FindOpenByCorrelationKey_def)
  with assms(1,3,9) s(2) f id have "r' = Inr ()" "s' = \<lparr>ms_incidents = [?i \<mapsto> ?y]\<rparr>"
    by (auto simp: ProcessAlert_def correlated_def mem_Save_def)
  moreover have "a \<noteq> b" using assms(5) by auto
  ultimately show ?thesis using s(1) f(4) by simp
qed

lemma NewIncidentID_zero: "NewIncidentID 0 = ''19700101-000000.000000''"
  by code_simp

theorem id_collision_loses_alert_witness:
  "\<exists>s'. snd (ProcessAlert (demo_correlator mem_incident_store) (demo_id_call [NewIncidentID 0])
      (snd (ProcessAlert (demo_correlator mem_incident_store) (demo_id_call []) NewInMemoryIncidentStore
        (labelled [(''cluster'', ''a'')]))) (labelled [(''cluster'', ''b'')])) = s' \<and>
    dom (ms_incidents s') = {NewIncidentID 0} \<and>
    labelled [(''cluster'', ''a'')] \<notin> (\<Union>x \<in> ran (ms_incidents s'). set (inc_Alerts x))"
proof -
  let ?c = "demo_correlator mem_incident_store" and ?a = "labelled [(''cluster'', ''a'')]" and ?b = "labelled [(''cluster'', ''b'')]"
  obtain r s where a: "ProcessAlert ?c (demo_id_call []) NewInMemoryIncidentStore ?a = (r, s)" by fastforce
  obtain r' s' where b: "ProcessAlert ?c (demo_id_call [NewIncidentID 0]) s ?b = (r', s')" by fastforce
  have keys: "buildCorrelationKey ?a \<noteq> buildCorrelationKey ?b"
    by (simp add: labelled_def fmlookup_of_list primaryServiceFromLabels_def buildCorrelationKey_def)
  have "co_store ?c = mem_incident_store" by (simp add: demo_correlator_def)
  from id_collision_loses_alert [where t = 0 and t' = 0, OF this _ _ refl keys _ _ a b] a b
  show ?thesis by (simp add: demo_id_call_def)
qed

end
