(* ===== verification/Service.thy ===== *)
theory Service
  imports Sentientd_Main
begin

text \<open>
  The running process of \<open>cmd/main.go\<close>: the goroutines that \<open>main\<close> starts, over the state they share,
  as a step relation. The handlers of the HTTP server run the correlator, the investigation loop scans
  the store every 30 seconds, the informer replaces the topology graph, the ingest worker consumes the
  queue, and \<open>main\<close> waits for a server error or a signal and then shuts the parts down in order.

  A step is one access to the shared state by one goroutine: a call of the store, a look at the graph,
  one message sent out, one action of the shutdown. So every interleaving of the goroutines is a run.
  The components are the definitions of the other theories; the service is written against the
  interface of the store, and \<open>ok\<close> is that of its contract. A new incident's ID is whatever the clock
  gives. The in-memory store holds the alerts of an incident by value here: what the shared arrays of
  its copies change under interleaving is the subject of \<open>Alert_Slices\<close>, and no property of this
  theory's service speaks of the alerts that its in-memory incidents hold.
\<close>

section \<open>The state\<close>

datatype handler_state =
    HIdle
  | HNext webhook_payload "alert list"  \<comment> \<open>the alerts that are left\<close>
  | HFound webhook_payload "alert list" alert time "incident option"  \<comment> \<open>the search has returned\<close>
  | HReady webhook_payload "alert list" alert time "incident option" incident  \<comment> \<open>about to save\<close>

datatype loop_state =
    LWaiting
  | LScanning "incident list"  \<comment> \<open>the incidents of the tick that are left\<close>
  | LInvestigating "effect list" "incident list"  \<comment> \<open>what is still to be sent for the current one\<close>
  | LEnded

datatype worker_state = WNone | WStarting | WRunning | WEnded

datatype main_state =
    Serving
  | Stopping "shutdown_action list"  \<comment> \<open>the actions that are left\<close>
  | Exited

record ('s, 'e, 'p) parts =
  pt_cfg :: config
  pt_choice :: "'p store_choice"
  pt_store :: "('s, 'e) incident_store"
  pt_engine :: "('s, 'e) investigation_engine"
  pt_queue :: "nats_queue option"

text \<open>
  The fields from \<open>sr_trace\<close> on are a history: what happened, for the properties to speak about. No step
  reads them.
\<close>

record ('s, 'e) service =
  sr_store :: 's
  sr_topo :: "topo_client option"
  sr_http :: "http_server option"
  sr_http_error :: bool  \<comment> \<open>\<open>ListenAndServe\<close> has returned\<close>
  sr_handlers :: "nat \<Rightarrow> handler_state"
  sr_loop :: loop_state
  sr_worker :: worker_state
  sr_cancelled :: bool  \<comment> \<open>the context of the investigation loop\<close>
  sr_nats_closed :: bool
  sr_pool_closed :: bool
  sr_conns :: nat  \<comment> \<open>connections of the database pool that goroutines have acquired\<close>
  sr_main :: main_state
  sr_trace :: "effect list"  \<comment> \<open>what has been sent out, in order\<close>
  sr_settled :: "action list"  \<comment> \<open>what the worker did to its messages\<close>
  sr_received :: "alert list"  \<comment> \<open>the alerts of all payloads that were decoded\<close>
  sr_accepted :: "alert list"  \<comment> \<open>the alerts whose \<open>ProcessAlert\<close> has returned nil\<close>
  sr_ids :: "string list"  \<comment> \<open>the IDs given to new incidents, the latest first\<close>
  sr_investigations :: "('e investigation_env \<times> 's \<times> incident) list"
    \<comment> \<open>the investigations that were begun: the replies they got, the store they read, the listed incident\<close>
  sr_done :: "shutdown_action list"
  sr_drained :: bool  \<comment> \<open>\<open>Shutdown\<close> has waited for all requests\<close>

section \<open>Starting\<close>

definition start_service :: "('s, 'e, 'p) parts \<Rightarrow> error option \<times> topo_client \<Rightarrow> 's \<Rightarrow> ('s, 'e) service" where
  "start_service P init s =
     \<lparr>sr_store = s, sr_topo = (case init of (None, c) \<Rightarrow> Some c | (Some _, _) \<Rightarrow> None),
      sr_http = None, sr_http_error = False, sr_handlers = (\<lambda>_. HIdle), sr_loop = LWaiting,
      sr_worker = (case pt_queue P of None \<Rightarrow> WNone | Some _ \<Rightarrow> WStarting), sr_cancelled = False,
      sr_nats_closed = False, sr_pool_closed = False, sr_conns = 0, sr_main = Serving, sr_trace = [], sr_settled = [],
      sr_received = [], sr_accepted = [], sr_ids = [], sr_investigations = [], sr_done = [], sr_drained = False\<rparr>"

definition boot ::
    "config \<Rightarrow> 'p result \<Rightarrow> ('s, 'e) incident_store \<Rightarrow> 's \<Rightarrow> error option \<times> topo_client \<Rightarrow> unit result
      \<Rightarrow> unit result \<Rightarrow> (string \<Rightarrow> policy_engine result) \<Rightarrow> (string \<Rightarrow> nats_queue result)
      \<Rightarrow> (('s, 'e, 'p) parts \<times> ('s, 'e) service) result" where
  \<comment> \<open>\<open>st\<close> and \<open>s\<close> are the chosen store and its content; an error ends the process with status 1\<close>
  "boot cfg connect st s init in_cluster dyn_client new_engine new_queue =
     (case choose_store cfg connect of
        FatalExit err \<Rightarrow> Inl err
      | choice \<Rightarrow>
          let P = \<lparr>pt_cfg = cfg, pt_choice = choice, pt_store = st,
                   pt_engine = wire_engine cfg st in_cluster dyn_client new_engine,
                   pt_queue = choose_queue cfg new_queue\<rparr>
          in Inr (P, start_service P init s))"

text \<open>
  The parts as they are at a moment: the graph answers from what the client has loaded by then
  (\<open>ord\<close> is the order in which the runtime enumerates the neighbours of a service).
\<close>

definition graph_at :: "(string \<Rightarrow> string list) \<Rightarrow> ('s, 'e) service \<Rightarrow> string \<Rightarrow> topology_slice option result" where
  "graph_at ord w service =
     (case sr_topo w of
        None \<Rightarrow> emptyGraph_SubgraphForService service
      | Some c \<Rightarrow> SubgraphForService (ord service) c service)"

definition graph_order :: "(string \<Rightarrow> string list) \<Rightarrow> ('s, 'e) service \<Rightarrow> bool" where
  "graph_order ord w \<longleftrightarrow>
     (\<forall>c service. sr_topo w = Some c \<longrightarrow>
        enumerates (ord service) (neighbor_seen (tc_graph c) (service_id service)))"

definition correlator_at ::
    "('s, 'e, 'p) parts \<Rightarrow> (string \<Rightarrow> string list) \<Rightarrow> ('s, 'e) service \<Rightarrow> ('s, 'e) correlator" where
  "correlator_at P ord w = wire_correlator (pt_cfg P) (pt_store P) (graph_at ord w)"

definition server_at :: "('s, 'e, 'p) parts \<Rightarrow> (string \<Rightarrow> string list) \<Rightarrow> ('s, 'e) service \<Rightarrow> ('s, 'e) server" where
  "server_at P ord w =
     (wire_server (pt_cfg P) (correlator_at P ord w) (pt_queue P))\<lparr>sv_httpServer := sr_http w\<rparr>"

lemma graph_at_start:
  "graph_at ord (start_service P init s) =
     choose_graph init (\<lambda>c service. SubgraphForService (ord service) c service)"
  by (rule ext) (auto simp: graph_at_def choose_graph_def start_service_def split: prod.split option.split)

lemma correlator_at_sel [simp]:
  "co_store (correlator_at P ord w) = pt_store P"
  "co_graph (correlator_at P ord w) = graph_at ord w"
  "cc_ExpansionWindow (co_cfg (correlator_at P ord w)) = cf_ExpansionWindow (pt_cfg P)"
  by (simp_all add: correlator_at_def wire_correlator_def NewCorrelator_def)

lemma server_at_sel [simp]:
  "sv_cfg (server_at P ord w) = pt_cfg P" "sv_correlator (server_at P ord w) = correlator_at P ord w"
  "sv_queue (server_at P ord w) = pt_queue P" "sv_httpServer (server_at P ord w) = sr_http w"
  by (auto simp: server_at_def wire_server_def NewServer_def SetQueue_def split: option.split)

section \<open>The HTTP handlers\<close>

definition serving :: "('s, 'e) service \<Rightarrow> bool" where
  "serving w \<longleftrightarrow> map_option hs_State (sr_http w) = Some HttpServing"

abbreviation set_handler :: "nat \<Rightarrow> handler_state \<Rightarrow> ('s, 'e) service \<Rightarrow> ('s, 'e) service" where
  "set_handler n h w \<equiv> w\<lparr>sr_handlers := (sr_handlers w)(n := h)\<rparr>"

text \<open>
  Only a payload that decodes starts work; every other request is answered without touching the
  state. A call of a store whose pool is closed fails and changes nothing, and nothing is published
  over a closed connection.
\<close>

inductive handler_step ::
    "('s, 'e, 'p) parts \<Rightarrow> ('e \<Rightarrow> 's \<Rightarrow> bool) \<Rightarrow> ('s, 'e) service \<Rightarrow> ('s, 'e) service \<Rightarrow> bool"
  for P ok where
  request: "handler_step P ok w
      ((set_handler n (HNext p (map to_alert (pw_Alerts p))) w)
         \<lparr>sr_received := map to_alert (pw_Alerts p) @ sr_received w\<rparr>)"
    if "serving w" and "sr_handlers w n = HIdle" and "dec_webhook_payload j = Some p"
| search: "handler_step P ok w (set_handler n (HFound p as a now found) w)"
    if "sr_handlers w n = HNext p (a # as)" and "ok e (sr_store w)" and "\<not> sr_pool_closed w"
      and "st_FindOpenByCorrelationKey (pt_store P) e (sr_store w) (buildCorrelationKey a)
             (cf_ExpansionWindow (pt_cfg P)) = Inr found"
| search_failed: "handler_step P ok w (set_handler n (HNext p as) w)"
    if "sr_handlers w n = HNext p (a # as)" and "ok e (sr_store w)"
      and "st_FindOpenByCorrelationKey (pt_store P) e (sr_store w) (buildCorrelationKey a)
             (cf_ExpansionWindow (pt_cfg P)) = Inl err"
| prepare: "handler_step P ok w
      (set_handler n (HReady p as a now found
         (correlated (graph_at ord w) (NewIncidentID t) now a found)) w)"
    if "sr_handlers w n = HFound p as a now found" and "graph_order ord w"
| save: "handler_step P ok w
      ((set_handler n (HNext p as) w)
         \<lparr>sr_store := s', sr_accepted := (case r of Inr _ \<Rightarrow> a # sr_accepted w | Inl _ \<Rightarrow> sr_accepted w),
          sr_ids := drawn (inc_ID x) found @ sr_ids w\<rparr>)"
    if "sr_handlers w n = HReady p as a now found x" and "ok e (sr_store w)"
      and "st_Save (pt_store P) e (sr_store w) x = (r, s')"
      and "sr_pool_closed w \<longrightarrow> (\<exists>err. r = Inl err) \<and> s' = sr_store w"
| respond: "handler_step P ok w
      ((set_handler n HIdle w)
         \<lparr>sr_trace := sr_trace w @ (if sr_nats_closed w then []
            else publish_batch (server_at P ord w) e p (map to_alert (pw_Alerts p)))\<rparr>)"
    if "sr_handlers w n = HNext p []"

section \<open>The investigation loop\<close>

text \<open>
  The effects of an investigation are determined when it reads the incident; they are sent one by
  one. Every request of an investigation carries the context of the loop, so none is sent once that
  is cancelled: the rest of the investigation fails.
\<close>

inductive loop_step :: "('s, 'e, 'p) parts \<Rightarrow> ('e \<Rightarrow> 's \<Rightarrow> bool) \<Rightarrow> ('s, 'e) service \<Rightarrow> ('s, 'e) service \<Rightarrow> bool"
  for P ok where
  tick: "loop_step P ok w (w\<lparr>sr_loop := LScanning incs\<rparr>)"
    if "sr_loop w = LWaiting" and "ok e (sr_store w)" and "\<not> sr_pool_closed w"
      and "st_List (en_store (pt_engine P)) e (sr_store w) = Inr incs"
| investigate: "loop_step P ok w
      (w\<lparr>sr_loop := LInvestigating (snd (InvestigateIncident (pt_engine P) e (sr_store w) (inc_ID x))) incs,
         sr_investigations := sr_investigations w @ [(e, sr_store w, x)]\<rparr>)"
    if "sr_loop w = LScanning (x # incs)" and "inc_State x = IncidentStateOpen"
      and "ok (iv_store e) (sr_store w)" and "\<not> sr_pool_closed w"
| skip: "loop_step P ok w (w\<lparr>sr_loop := LScanning incs\<rparr>)"
    if "sr_loop w = LScanning (x # incs)" and "inc_State x \<noteq> IncidentStateOpen \<or> sr_pool_closed w"
| send: "loop_step P ok w (w\<lparr>sr_loop := LInvestigating tr incs, sr_trace := sr_trace w @ [ef]\<rparr>)"
    if "sr_loop w = LInvestigating (ef # tr) incs" and "\<not> sr_cancelled w"
| investigated: "loop_step P ok w (w\<lparr>sr_loop := LScanning incs\<rparr>)"
    if "sr_loop w = LInvestigating tr incs" and "tr = [] \<or> sr_cancelled w"
| scanned: "loop_step P ok w (w\<lparr>sr_loop := LWaiting\<rparr>)"
    if "sr_loop w = LScanning []"
| ended: "loop_step P ok w (w\<lparr>sr_loop := LEnded\<rparr>)"
    if "sr_loop w = LWaiting" and "sr_cancelled w"

section \<open>The informer, the worker, the server and the connections\<close>

text \<open>
  A goroutine that calls the PostgreSQL store holds a connection of the pool meanwhile. A call takes
  effect in one step of its goroutine; how long it holds its connection is left open, so connections
  are acquired and returned by steps of their own. None is given out once \<open>main\<close> closes the pool.
\<close>

inductive background_step :: "('s, 'e, 'p) parts \<Rightarrow> ('s, 'e) service \<Rightarrow> ('s, 'e) service \<Rightarrow> bool"
  for P where
  watch: "background_step P w (w\<lparr>sr_topo := Some (handle_event ev c)\<rparr>)"
    if "sr_topo w = Some c"
| subscribe: "background_step P w
      (w\<lparr>sr_worker := (if fst (Subscribe e q ''alerts.ingest'') = None \<and> \<not> sr_nats_closed w
                       then WRunning else WEnded)\<rparr>)"
    if "sr_worker w = WStarting" and "pt_queue P = Some q"
| fetch: "background_step P w (w\<lparr>sr_settled := sr_settled w @ process_fetch handleMessage f\<rparr>)"
    if "sr_worker w = WRunning" and "\<not> sr_nats_closed w"
| unsubscribed: "background_step P w (w\<lparr>sr_worker := WEnded\<rparr>)"
    if "sr_worker w = WRunning" and "sr_nats_closed w"
| create: "background_step P w (w\<lparr>sr_http := sv_httpServer (create_http_server (server_at P ord w))\<rparr>)"
    if "sr_http w = None"
| listen: "background_step P w (w\<lparr>sr_http := sv_httpServer sv, sr_http_error := (err \<noteq> None)\<rparr>)"
    if "sr_http w \<noteq> None" and "\<not> serving w" and "\<not> sr_http_error w"
      and "listen_http_server net_listen (server_at P ord w) = (err, sv)"
| serve_failed: "background_step P w (w\<lparr>sr_http := Some (hs\<lparr>hs_State := HttpClosed\<rparr>), sr_http_error := True\<rparr>)"
    if "sr_http w = Some hs" and "hs_State hs = HttpServing"

| acquire: "background_step P w (w\<lparr>sr_conns := sr_conns w + 1\<rparr>)"
    if "pt_choice P = UsePostgres pool" and "\<not> sr_pool_closed w" and "\<nexists>acts. sr_main w = Stopping (CloseDatabase # acts)"
| release: "background_step P w (w\<lparr>sr_conns := sr_conns w - 1\<rparr>)"
    if "sr_conns w > 0"

section \<open>Main\<close>

text \<open>
  \<open>Shutdown\<close> first stops the server from accepting requests, then waits for the open ones to end or
  for its 10 seconds to pass; it returns nil only in the first case, or if there is no server yet.
  \<open>Close\<close> of the pool waits for every connection to be returned, with no bound.
\<close>

fun perform :: "error option \<Rightarrow> ('s, 'e, 'p) parts \<Rightarrow> shutdown_action \<Rightarrow> ('s, 'e) service \<Rightarrow> ('s, 'e) service" where
  "perform drain P CancelInvestigation w = w\<lparr>sr_cancelled := True\<rparr>"
| "perform drain P CancelIngest w = w"  \<comment> \<open>\<open>Start\<close> returns; the processing loop does not watch it\<close>
| "perform drain P CloseNATS w = w\<lparr>sr_nats_closed := True\<rparr>"
| "perform drain P ShutdownHTTP w =
     (case Shutdown drain (server_at P (\<lambda>_. []) w) of
        (err, sv) \<Rightarrow> w\<lparr>sr_http := sv_httpServer sv, sr_drained := (sr_http w \<noteq> None \<and> err = None)\<rparr>)"
| "perform drain P CloseDatabase w = w\<lparr>sr_pool_closed := True\<rparr>"

inductive main_step :: "('s, 'e, 'p) parts \<Rightarrow> ('s, 'e) service \<Rightarrow> ('s, 'e) service \<Rightarrow> bool"
  for P where
  server_error: "main_step P w (w\<lparr>sr_main := Stopping (shutdown ServerError (pt_queue P) (pt_choice P))\<rparr>)"
    if "sr_main w = Serving" and "sr_http_error w"
| signal: "main_step P w (w\<lparr>sr_main := Stopping (shutdown Signal (pt_queue P) (pt_choice P))\<rparr>)"
    if "sr_main w = Serving"
| close_http: "main_step P w (w\<lparr>sr_http := Some (hs\<lparr>hs_State := HttpClosed\<rparr>)\<rparr>)"
    if "sr_main w = Stopping (ShutdownHTTP # acts)" and "sr_http w = Some hs" and "hs_State hs \<noteq> HttpClosed"
| act: "main_step P w ((perform drain P act w)\<lparr>sr_main := Stopping acts, sr_done := sr_done w @ [act]\<rparr>)"
    if "sr_main w = Stopping (act # acts)"
      and "act = ShutdownHTTP \<longrightarrow> (\<forall>hs. sr_http w = Some hs \<longrightarrow> hs_State hs = HttpClosed) \<and>
             (drain = None \<longrightarrow> sr_http w = None \<or> (\<forall>n. sr_handlers w n = HIdle))"
      and "act = CloseDatabase \<longrightarrow> sr_conns w = 0"
| exit: "main_step P w (w\<lparr>sr_main := Exited\<rparr>)"
    if "sr_main w = Stopping []"

section \<open>The service\<close>

text \<open>When \<open>main\<close> has returned the process is gone and no goroutine takes a step.\<close>

inductive service_step ::
    "('s, 'e, 'p) parts \<Rightarrow> ('e \<Rightarrow> 's \<Rightarrow> bool) \<Rightarrow> ('s, 'e) service \<Rightarrow> ('s, 'e) service \<Rightarrow> bool"
  for P ok where
  handler: "service_step P ok w w'"
    if "sr_main w \<noteq> Exited" and "handler_step P ok w w'"
| loop: "service_step P ok w w'"
    if "sr_main w \<noteq> Exited" and "loop_step P ok w w'"
| background: "service_step P ok w w'"
    if "sr_main w \<noteq> Exited" and "background_step P w w'"
| main: "service_step P ok w w'"
    if "sr_main w \<noteq> Exited" and "main_step P w w'"

abbreviation service_run where
  "service_run P ok \<equiv> (service_step P ok)\<^sup>*\<^sup>*"

inductive_simps service_step_iff: "service_step P ok w w'"
inductive_cases handler_stepE: "handler_step P ok w w'"
inductive_cases loop_stepE: "loop_step P ok w w'"
inductive_cases background_stepE: "background_step P w w'"
inductive_cases main_stepE: "main_step P w w'"

end
