(* ===== verification/Service_Invariants.thy ===== *)
theory Service_Invariants
  imports Service "HOL-Library.Option_ord" "HOL-Library.Sublist"
begin

text \<open>
  What every step of the service keeps: the frame of each goroutine, the simulation by the concurrent
  correlator, what has been sent and why, and the progress of the shutdown.
\<close>

section \<open>What each step leaves alone\<close>

lemma perform_frame [simp]:
  "sr_store (perform drain P a w) = sr_store w" "sr_topo (perform drain P a w) = sr_topo w"
  "sr_handlers (perform drain P a w) = sr_handlers w" "sr_loop (perform drain P a w) = sr_loop w"
  "sr_trace (perform drain P a w) = sr_trace w" "sr_received (perform drain P a w) = sr_received w"
  "sr_accepted (perform drain P a w) = sr_accepted w" "sr_main (perform drain P a w) = sr_main w"
  "sr_done (perform drain P a w) = sr_done w" "sr_worker (perform drain P a w) = sr_worker w"
  "sr_ids (perform drain P a w) = sr_ids w" "sr_investigations (perform drain P a w) = sr_investigations w"
  "sr_conns (perform drain P a w) = sr_conns w" "sr_http_error (perform drain P a w) = sr_http_error w"
  by (cases a; simp split: prod.split)+

lemma handler_step_frame:
  assumes "handler_step P ok w w'"
  shows "sr_http w' = sr_http w" "sr_loop w' = sr_loop w" "sr_cancelled w' = sr_cancelled w"
    "sr_nats_closed w' = sr_nats_closed w" "sr_main w' = sr_main w" "sr_done w' = sr_done w"
    "sr_drained w' = sr_drained w" "sr_investigations w' = sr_investigations w"
    "sr_http_error w' = sr_http_error w" "sr_pool_closed w' = sr_pool_closed w" "sr_conns w' = sr_conns w"
  using assms by (auto elim!: handler_stepE)

lemma loop_step_frame:
  assumes "loop_step P ok w w'"
  shows "sr_store w' = sr_store w" "sr_http w' = sr_http w" "sr_handlers w' = sr_handlers w"
    "sr_cancelled w' = sr_cancelled w" "sr_nats_closed w' = sr_nats_closed w" "sr_main w' = sr_main w"
    "sr_received w' = sr_received w" "sr_accepted w' = sr_accepted w" "sr_done w' = sr_done w"
    "sr_drained w' = sr_drained w" "sr_ids w' = sr_ids w"
    "sr_http_error w' = sr_http_error w" "sr_pool_closed w' = sr_pool_closed w" "sr_conns w' = sr_conns w"
  using assms by (auto elim!: loop_stepE)

lemma background_step_frame:
  assumes "background_step P w w'"
  shows "sr_store w' = sr_store w" "sr_handlers w' = sr_handlers w" "sr_loop w' = sr_loop w"
    "sr_cancelled w' = sr_cancelled w" "sr_nats_closed w' = sr_nats_closed w" "sr_main w' = sr_main w"
    "sr_trace w' = sr_trace w" "sr_received w' = sr_received w" "sr_accepted w' = sr_accepted w"
    "sr_done w' = sr_done w" "sr_drained w' = sr_drained w" "sr_ids w' = sr_ids w"
    "sr_investigations w' = sr_investigations w" "sr_pool_closed w' = sr_pool_closed w"
    "sr_http_error w \<longrightarrow> sr_http_error w'"
  using assms by (auto elim!: background_stepE)

lemma main_step_frame:
  assumes "main_step P w w'"
  shows "sr_store w' = sr_store w" "sr_handlers w' = sr_handlers w" "sr_loop w' = sr_loop w"
    "sr_trace w' = sr_trace w" "sr_received w' = sr_received w" "sr_accepted w' = sr_accepted w"
    "sr_ids w' = sr_ids w" "sr_investigations w' = sr_investigations w" "sr_http_error w' = sr_http_error w"
    "sr_conns w' = sr_conns w"
  using assms by (auto elim!: main_stepE)

lemmas step_frames = handler_step_frame loop_step_frame background_step_frame main_step_frame

text \<open>Only the handlers write the store, and only a handler's step changes what they are doing.\<close>

lemma service_step_shared:
  assumes "service_step P ok w w'"
  obtains (handler) "handler_step P ok w w'"
    | (other) "sr_store w' = sr_store w" "sr_handlers w' = sr_handlers w" "sr_received w' = sr_received w"
        "sr_accepted w' = sr_accepted w" "sr_ids w' = sr_ids w"
  using assms
proof cases
  case loop
  then show thesis by (intro other loop_step_frame)
next
  case background
  then show thesis by (intro other background_step_frame)
next
  case main
  then show thesis by (intro other main_step_frame)
qed (rule that(1))

section \<open>The service refines the concurrent correlator\<close>

fun thread_of :: "handler_state \<Rightarrow> thread" where
  "thread_of (HFound p as a now found) = Searched a now found"
| "thread_of (HReady p as a now found x) = Searched a now found"
| "thread_of _ = Idle"

definition world_of_service :: "('s, 'e) service \<Rightarrow> 's world" where
  "world_of_service w =
     \<lparr>cw_state = sr_store w, cw_threads = thread_of \<circ> sr_handlers w, cw_accepted = sr_accepted w,
      cw_ids = sr_ids w\<rparr>"

fun ready_handler :: "handler_state \<Rightarrow> bool" where
  "ready_handler (HReady p as a now found x) \<longleftrightarrow> (\<exists>g t. x = correlated g (NewIncidentID t) now a found)"
| "ready_handler _ \<longleftrightarrow> True"

definition ready_inv :: "('s, 'e) service \<Rightarrow> bool" where
  "ready_inv w \<longleftrightarrow> (\<forall>n. ready_handler (sr_handlers w n))"

lemma handler_step_ready: "handler_step P ok w w' \<Longrightarrow> ready_inv w \<Longrightarrow> ready_inv w'"
  by (erule handler_stepE) (auto simp: ready_inv_def)

lemma handler_step_conc:
  assumes step: "handler_step P ok w w'" and ready: "ready_inv w"
    and c: "co_store c = pt_store P" "cc_ExpansionWindow (co_cfg c) = cf_ExpansionWindow (pt_cfg P)"
  shows "world_of_service w' = world_of_service w \<or>
    conc_step c ok (world_of_service w) (world_of_service w')"
  using step
proof (cases rule: handler_step.cases)
  case (search n p a as e found now)
  have "conc_step c ok (world_of_service w) (world_of_service w
      \<lparr>cw_threads := (cw_threads (world_of_service w))(n := Searched a now found)\<rparr>)"
    by (rule conc_step.search) (use search c in \<open>simp_all add: world_of_service_def\<close>)
  with search show ?thesis by (simp add: world_of_service_def fun_upd_comp)
next
  case (save n p as a now found x e r s')
  from ready save(2) obtain g t where x: "x = correlated g (NewIncidentID t) now a found"
    unfolding ready_inv_def by (metis ready_handler.simps(1))
  have "conc_step c ok (world_of_service w) (world_of_service w
      \<lparr>cw_state := s', cw_threads := (cw_threads (world_of_service w))(n := Idle),
       cw_accepted := (case r of Inr _ \<Rightarrow> a # cw_accepted (world_of_service w) | Inl _ \<Rightarrow> cw_accepted (world_of_service w)),
       cw_ids := drawn (NewIncidentID t) found @ cw_ids (world_of_service w)\<rparr>)"
    by (rule conc_step.save [where i = "NewIncidentID t" and g = g and found = found])
      (use save c x in \<open>auto simp: world_of_service_def correlated_ID\<close>)
  moreover have "drawn (inc_ID x) found = drawn (NewIncidentID t) found"
    by (cases found) (simp_all add: x correlated_ID)
  ultimately show ?thesis using save(1) by (simp add: world_of_service_def fun_upd_comp cong: sum.case_cong)
qed (auto simp: world_of_service_def fun_eq_iff)

lemma service_step_conc:
  assumes "service_step P ok w w'" "ready_inv w" "co_store c = pt_store P"
    and "cc_ExpansionWindow (co_cfg c) = cf_ExpansionWindow (pt_cfg P)"
  shows "ready_inv w' \<and> (world_of_service w' = world_of_service w \<or>
    conc_step c ok (world_of_service w) (world_of_service w'))"
  using assms(1)
proof (cases rule: service_step_shared)
  case handler
  then show ?thesis using handler_step_conc [OF _ assms(2-4)] handler_step_ready assms(2) by blast
next
  case other
  with assms(2) show ?thesis by (simp add: world_of_service_def ready_inv_def)
qed

lemma service_run_conc:
  assumes "service_run P ok (start_service P init s) w" "co_store c = pt_store P"
    and "cc_ExpansionWindow (co_cfg c) = cf_ExpansionWindow (pt_cfg P)"
  shows "ready_inv w \<and> conc_reachable c ok s (world_of_service w)"
  using assms(1)
proof (induction rule: rtranclp_induct)
  case base
  then show ?case by (simp add: ready_inv_def start_service_def world_of_service_def init_world_def comp_def)
next
  case (step v w)
  then show ?case
    using service_step_conc [OF step.hyps(2) _ assms(2,3)] by (metis rtranclp.rtrancl_into_rtrancl)
qed


section \<open>What has been sent\<close>

lemma run_induct [consumes 1, case_names base step]:
  assumes "service_run P ok v w" "Q v"
    and "\<And>x y. service_run P ok v x \<Longrightarrow> service_step P ok x y \<Longrightarrow> Q x \<Longrightarrow> Q y"
  shows "Q w"
  using assms by (rule rtranclp_induct)

text \<open>A context stays cancelled, a connection stays closed.\<close>

lemma step_closed:
  assumes "service_step P ok w w'"
  shows "sr_cancelled w \<longrightarrow> sr_cancelled w'" "sr_nats_closed w \<longrightarrow> sr_nats_closed w'"
proof -
  have act: "sr_cancelled w \<longrightarrow> sr_cancelled (perform drain P a w)"
    "sr_nats_closed w \<longrightarrow> sr_nats_closed (perform drain P a w)" for drain a
    by (cases a; simp split: prod.split)+
  from assms have "(sr_cancelled w \<longrightarrow> sr_cancelled w') \<and> (sr_nats_closed w \<longrightarrow> sr_nats_closed w')"
  proof cases
    case main
    then show ?thesis using act by (auto elim!: main_stepE)
  qed (simp_all add: step_frames)
  then show "sr_cancelled w \<longrightarrow> sr_cancelled w'" "sr_nats_closed w \<longrightarrow> sr_nats_closed w'" by blast+
qed

definition published :: "effect \<Rightarrow> bool" where
  "published ef \<longleftrightarrow> (\<exists>s j. ef = Published s j)"

lemma publish_batch_published: "ef \<in> set (publish_batch sv e p as) \<Longrightarrow> published ef"
  by (auto simp: publish_batch_def Publish_def published_def split: option.splits if_splits)

text \<open>Every step adds to the trace: messages on the open connection, or one effect of an investigation.\<close>

lemma step_trace:
  assumes "service_step P ok w w'"
  obtains (quiet) "sr_trace w' = sr_trace w"
    | (publish) tr where "sr_trace w' = sr_trace w @ tr" "\<not> sr_nats_closed w" "\<And>ef. ef \<in> set tr \<Longrightarrow> published ef"
        "sr_loop w' = sr_loop w"
    | (investigation) ef tr incs where "sr_trace w' = sr_trace w @ [ef]" "\<not> sr_cancelled w"
        "sr_loop w = LInvestigating (ef # tr) incs" "sr_loop w' = LInvestigating tr incs"
  using assms
proof cases
  case handler
  from handler(2) show thesis
  proof (cases rule: handler_step.cases)
    case (respond n p ord e)
    show thesis
    proof (cases "sr_nats_closed w")
      case True
      with respond quiet show thesis by simp
    next
      case False
      show thesis
        by (rule publish [where tr = "publish_batch (server_at P ord w) e p (map to_alert (pw_Alerts p))"])
          (use respond False in \<open>auto dest: publish_batch_published\<close>)
    qed
  qed (use quiet in simp_all)
next
  case loop
  from loop(2) show thesis
  proof (cases rule: loop_step.cases)
    case (send ef tr incs)
    with investigation show thesis by simp
  qed (use quiet in simp_all)
next
  case background
  then show thesis by (intro quiet background_step_frame(7))
next
  case main
  then show thesis by (intro quiet main_step_frame(4))
qed

lemma run_quiet:
  assumes "service_run P ok v w" "sr_cancelled v"
  shows "sr_cancelled w \<and> (sr_nats_closed v \<longrightarrow> sr_nats_closed w) \<and>
    (\<exists>tr. sr_trace w = sr_trace v @ tr \<and> (\<forall>ef \<in> set tr. published ef) \<and> (sr_nats_closed v \<longrightarrow> tr = []))"
  using assms(1)
proof (induction rule: run_induct)
  case base
  with assms(2) show ?case by simp
next
  case (step x y)
  then obtain tr where tr: "sr_trace x = sr_trace v @ tr" "\<forall>ef \<in> set tr. published ef" "sr_nats_closed v \<longrightarrow> tr = []"
    by blast
  have "\<exists>tr. sr_trace y = sr_trace v @ tr \<and> (\<forall>ef \<in> set tr. published ef) \<and> (sr_nats_closed v \<longrightarrow> tr = [])"
    using step.hyps(2)
  proof (cases rule: step_trace)
    case (publish tr')
    with tr step.IH show ?thesis by (intro exI [of _ "tr @ tr'"]) auto
  qed (use tr step.IH in auto)
  with step.IH step_closed [OF step.hyps(2)] show ?case by blast
qed

section \<open>Where a workflow comes from\<close>

text \<open>
  What an investigation submits: the translation of the plan that came back, if the policy lets it
  pass, the confidence reaches the threshold and the Argo client is there.
\<close>

fun submission :: "('s, 'e, 'p) parts \<Rightarrow> 'e investigation_env \<times> 's \<times> incident \<Rightarrow> json list" where
  "submission P (e, s, x) =
     (case planned (pt_engine P) e s (inc_ID x) of
        None \<Rightarrow> []
      | Some (inc, result) \<Rightarrow>
          if passes (en_policy (pt_engine P)) inc (ir_DAG result) \<and> ir_PlanConfidence result \<ge> min_confidence \<and>
             ag_initialized (en_argo (pt_engine P))
          then [dagToWorkflow (iv_marshal e) (en_argo (pt_engine P)) (workflow_name (iv_argo e) (ir_DAG result)) (ir_DAG result)]
          else [])"

definition submissions :: "('s, 'e, 'p) parts \<Rightarrow> ('s, 'e) service \<Rightarrow> json list" where
  "submissions P w = concat (map (submission P) (sr_investigations w))"

fun pending :: "loop_state \<Rightarrow> effect list" where
  "pending (LInvestigating tr incs) = tr"
| "pending _ = []"

lemma workflows_published: "(\<And>ef. ef \<in> set tr \<Longrightarrow> published ef) \<Longrightarrow> workflows tr = []"
  by (induction tr rule: workflows.induct) (auto simp: published_def)

lemma workflows_Cons: "workflows (ef # tr) = workflows [ef] @ workflows tr"
  by (cases ef) simp_all

text \<open>Only a cancelled context keeps a workflow from being sent.\<close>

definition sent_inv :: "('s, 'e, 'p) parts \<Rightarrow> ('s, 'e) service \<Rightarrow> bool" where
  "sent_inv P w \<longleftrightarrow> subseq (workflows (sr_trace w @ pending (sr_loop w))) (submissions P w) \<and>
     (\<not> sr_cancelled w \<longrightarrow> workflows (sr_trace w @ pending (sr_loop w)) = submissions P w)"

lemma sent_inv_same:
  "sent_inv P w \<Longrightarrow> workflows (sr_trace w') = workflows (sr_trace w) \<Longrightarrow> sr_loop w' = sr_loop w \<Longrightarrow>
     sr_investigations w' = sr_investigations w \<Longrightarrow> (sr_cancelled w \<longrightarrow> sr_cancelled w') \<Longrightarrow> sent_inv P w'"
  by (auto simp: sent_inv_def submissions_def)

lemma loop_step_sent:
  assumes "loop_step P ok w w'" "sent_inv P w"
  shows "sent_inv P w'"
  using assms(1)
proof (cases rule: loop_step.cases)
  case (investigate x incs e)
  have "workflows (snd (InvestigateIncident (pt_engine P) e (sr_store w) (inc_ID x))) = submission P (e, sr_store w, x)"
    by (simp add: workflows_of_investigation)
  with assms(2) investigate(1,2) show ?thesis
    by (auto simp: sent_inv_def submissions_def simp del: submission.simps intro!: list_emb_append_mono)
next
  case (send ef tr incs)
  with assms(2) show ?thesis by (simp add: sent_inv_def submissions_def workflows_Cons [of ef tr])
next
  case (investigated tr incs)
  have "subseq (workflows (sr_trace w)) (workflows (sr_trace w @ tr))"
    by (simp add: subseq_rev_drop_many)
  with assms(2) investigated show ?thesis
    by (auto simp: sent_inv_def submissions_def intro: subseq_order.order_trans)
qed (use assms(2) in \<open>simp_all add: sent_inv_def submissions_def\<close>)

lemma service_step_sent:
  assumes "service_step P ok w w'" "sent_inv P w"
  shows "sent_inv P w'"
  using assms(1)
proof cases
  case loop
  then show ?thesis using loop_step_sent assms(2) by blast
next
  case handler
  have "workflows (publish_batch sv e p as) = []" for sv e p as
    by (rule workflows_published) (rule publish_batch_published)
  with handler(2) have "workflows (sr_trace w') = workflows (sr_trace w)" by (auto elim!: handler_stepE)
  then show ?thesis by (rule sent_inv_same [OF assms(2)]) (simp_all add: handler_step_frame [OF handler(2)])
next
  case background
  note f = background_step_frame [OF background(2)]
  show ?thesis by (rule sent_inv_same [OF assms(2)]) (simp_all add: f(3,4,7,13))
next
  case main
  note f = main_step_frame [OF main(2)]
  show ?thesis by (rule sent_inv_same [OF assms(2)]) (simp_all add: f(3,4,8) step_closed [OF assms(1)])
qed

lemma service_run_sent:
  "service_run P ok (start_service P init s) w \<Longrightarrow> sent_inv P w"
proof (induction rule: run_induct)
  case base
  show ?case by (simp add: sent_inv_def submissions_def start_service_def)
qed (rule service_step_sent)

text \<open>Where an investigation comes from: an open incident that a scan of this run listed.\<close>

fun to_investigate :: "loop_state \<Rightarrow> incident list" where
  "to_investigate (LScanning incs) = incs"
| "to_investigate (LInvestigating tr incs) = incs"
| "to_investigate _ = []"

definition scanned_in :: "('s, 'e, 'p) parts \<Rightarrow> ('e \<Rightarrow> 's \<Rightarrow> bool) \<Rightarrow> ('s, 'e) service \<Rightarrow> ('s, 'e) service \<Rightarrow> incident \<Rightarrow> bool" where
  "scanned_in P ok v w x \<longleftrightarrow> (\<exists>u e incs. service_run P ok v u \<and> service_run P ok u w \<and> ok e (sr_store u) \<and>
     st_List (en_store (pt_engine P)) e (sr_store u) = Inr incs \<and> x \<in> set incs)"

definition begun_in :: "('s, 'e, 'p) parts \<Rightarrow> ('e \<Rightarrow> 's \<Rightarrow> bool) \<Rightarrow> ('s, 'e) service \<Rightarrow> ('s, 'e) service
    \<Rightarrow> 'e investigation_env \<times> 's \<times> incident \<Rightarrow> bool" where
  "begun_in P ok v w i \<longleftrightarrow> (case i of (e, s, x) \<Rightarrow> inc_State x = IncidentStateOpen \<and> ok (iv_store e) s \<and>
     (\<exists>u. service_run P ok v u \<and> service_run P ok u w \<and> sr_store u = s \<and> scanned_in P ok v u x))"

lemma scanned_in_later: "scanned_in P ok v w x \<Longrightarrow> service_run P ok w w' \<Longrightarrow> scanned_in P ok v w' x"
  unfolding scanned_in_def by (meson rtranclp_trans)

lemma begun_in_later: "begun_in P ok v w i \<Longrightarrow> service_run P ok w w' \<Longrightarrow> begun_in P ok v w' i"
  unfolding begun_in_def by (auto intro: rtranclp_trans)

lemma loop_step_begun:
  assumes "loop_step P ok w w'" "sr_main w \<noteq> Exited" "service_run P ok v w"
    and "\<forall>x \<in> set (to_investigate (sr_loop w)). scanned_in P ok v w x"
    and "\<forall>i \<in> set (sr_investigations w). begun_in P ok v w i"
  shows "(\<forall>x \<in> set (to_investigate (sr_loop w')). scanned_in P ok v w' x) \<and>
    (\<forall>i \<in> set (sr_investigations w'). begun_in P ok v w' i)"
proof -
  have step: "service_run P ok w w'" using service_step.loop [OF assms(2,1)] by blast
  have old: "\<forall>x \<in> set (to_investigate (sr_loop w)). scanned_in P ok v w' x"
    "\<forall>i \<in> set (sr_investigations w). begun_in P ok v w' i"
    using assms(4,5) scanned_in_later [OF _ step] begun_in_later [OF _ step] by blast+
  from assms(1) show ?thesis
  proof (cases rule: loop_step.cases)
    case (tick e incs)
    have "scanned_in P ok v w' x" if "x \<in> set incs" for x
      using tick(3,5) assms(3) step that unfolding scanned_in_def by blast
    with tick(1) old(2) show ?thesis by simp
  next
    case (investigate x incs e)
    have "scanned_in P ok v w x" using assms(4) investigate(2) by simp
    then have "begun_in P ok v w' (e, sr_store w, x)"
      using investigate(3,4) assms(3) step unfolding begun_in_def by auto
    with investigate(1,2) old show ?thesis by simp
  qed (use old in simp_all)
qed

lemma service_run_begun:
  assumes "service_run P ok (start_service P init s) w"
  shows "(\<forall>x \<in> set (to_investigate (sr_loop w)). scanned_in P ok (start_service P init s) w x) \<and>
    (\<forall>i \<in> set (sr_investigations w). begun_in P ok (start_service P init s) w i)"
  using assms
proof (induction rule: run_induct)
  case base
  show ?case by (simp add: start_service_def)
next
  case (step x y)
  show ?case
  proof (cases "loop_step P ok x y \<and> sr_main x \<noteq> Exited")
    case True
    with loop_step_begun [of P ok x y] step show ?thesis by blast
  next
    case False
    have "sr_loop y = sr_loop x \<and> sr_investigations y = sr_investigations x"
      using step.hyps(2) False by cases (simp_all add: step_frames)
    with step.IH scanned_in_later [OF _ r_into_rtranclp, OF _ step.hyps(2)]
      begun_in_later [OF _ r_into_rtranclp, OF _ step.hyps(2)] show ?thesis by fastforce
  qed
qed

section \<open>Shutting down\<close>

fun actions_left :: "main_state \<Rightarrow> shutdown_action list" where
  "actions_left (Stopping acts) = acts"
| "actions_left _ = []"

definition http_open :: "('s, 'e) service \<Rightarrow> bool" where
  "http_open w \<longleftrightarrow> (\<forall>hs. sr_http w = Some hs \<longrightarrow> hs_State hs \<noteq> HttpClosed)"

definition steps_left :: "('s, 'e) service \<Rightarrow> nat" where
  \<comment> \<open>at most this many steps of \<open>main\<close> remain once it is stopping\<close>
  "steps_left w = (case sr_main w of
     Stopping acts \<Rightarrow> 1 + length acts + (if ShutdownHTTP \<in> set acts \<and> http_open w then 1 else 0)
   | _ \<Rightarrow> 0)"

lemma shutdown_length: "length (shutdown cause q choice) \<le> 5"
  by (simp add: shutdown_def split: shutdown_cause.split option.split store_choice.split)

text \<open>The server goes from not created over new and serving to closed, and never back.\<close>

abbreviation http_phase :: "('s, 'e) service \<Rightarrow> http_state option" where
  "http_phase w \<equiv> map_option hs_State (sr_http w)"

lemma closed_phase: "\<not> http_open w \<longleftrightarrow> Some HttpClosed \<le> http_phase w"
  by (cases "sr_http w") (auto simp: http_open_def)

lemma listen_phase: "map_option hs_State (sv_httpServer sv) \<le> map_option hs_State (sv_httpServer (snd (listen_http_server listen sv)))"
  by (cases "sv_httpServer sv") (auto simp: listen_http_server_def http_listen_def split: option.splits)

lemma background_http_phase: "background_step P w w' \<Longrightarrow> http_phase w \<le> http_phase w'"
proof (induction rule: background_step.induct)
  case (listen w net_listen ord err sv)
  then show ?case using listen_phase [of "server_at P ord w" net_listen] by simp
qed auto

lemma perform_http_phase: "http_phase w \<le> http_phase (perform drain P a w)"
  by (cases a; cases "sr_http w") (auto simp: Shutdown_def http_shutdown_def)

lemma http_lifecycle:
  assumes "service_step P ok w w'"
  shows "http_phase w \<le> http_phase w'"
  using assms
proof cases
  case main
  then show ?thesis using perform_http_phase by (auto elim!: main_stepE)
next
  case background
  then show ?thesis by (blast dest: background_http_phase)
qed (simp_all add: step_frames)

lemma perform_http_closed: "\<not> http_open w \<Longrightarrow> \<not> http_open (perform drain P a w)"
  unfolding closed_phase by (rule order_trans [OF _ perform_http_phase])

lemma background_http_closed: "background_step P w w' \<Longrightarrow> \<not> http_open w \<Longrightarrow> \<not> http_open w'"
  unfolding closed_phase by (rule order_trans [OF _ background_http_phase])

lemma step_http_closed: "service_step P ok w w' \<Longrightarrow> \<not> http_open w \<Longrightarrow> \<not> http_open w'"
  unfolding closed_phase by (rule order_trans [OF _ http_lifecycle])

lemma others_keep_main:
  assumes "service_step P ok w w'" "\<not> main_step P w w'"
  shows "sr_main w' = sr_main w"
  using assms(1)
proof cases
  case main
  with assms(2) show ?thesis by simp
qed (simp_all add: step_frames)

lemma main_step_decreases:
  assumes "main_step P w w'" "sr_main w = Stopping acts"
  shows "steps_left w' < steps_left w"
  using assms(1)
proof (cases rule: main_step.cases)
  case (act a as drain)
  have "http_open w'  \<Longrightarrow> http_open w"
    using perform_http_closed [of w drain P a] act(1) by (auto simp: http_open_def)
  with act(1,2) assms(2) show ?thesis by (auto simp: steps_left_def)
qed (use assms(2) in \<open>auto simp: steps_left_def http_open_def\<close>)

lemma step_steps_left:
  assumes "service_step P ok w w'" "sr_main w = Stopping acts"
  shows "steps_left w' \<le> steps_left w"
proof (cases "main_step P w w'")
  case True
  then show ?thesis using main_step_decreases [OF _ assms(2)] by force
next
  case False
  with others_keep_main [OF assms(1)] step_http_closed [OF assms(1)] show ?thesis
    by (auto simp: steps_left_def assms(2))
qed

text \<open>The one action that can block is closing the pool, while a goroutine holds a connection.\<close>

definition waits_for_pool :: "('s, 'e) service \<Rightarrow> bool" where
  "waits_for_pool w \<longleftrightarrow> (\<exists>acts. sr_main w = Stopping (CloseDatabase # acts)) \<and> sr_conns w > 0"

lemma main_can_step:
  assumes "sr_main w = Stopping acts" "\<not> waits_for_pool w"
  shows "\<exists>w'. main_step P w w'"
proof (cases acts)
  case Nil
  with assms(1) show ?thesis using main_step.exit by metis
next
  case (Cons a as)
  show ?thesis
  proof (cases "a = ShutdownHTTP \<and> (\<exists>hs. sr_http w = Some hs \<and> hs_State hs \<noteq> HttpClosed)")
    case True
    then show ?thesis using main_step.close_http [of w as _ P] assms(1) Cons by blast
  next
    case False
    with assms show ?thesis using main_step.act [of w a as "Some []" P] Cons by (auto simp: waits_for_pool_def)
  qed
qed

lemma waiting_drains:
  assumes "waits_for_pool w"
  shows "\<exists>w'. service_step P ok w w' \<and> sr_conns w' < sr_conns w"
    and "service_step P ok w w' \<Longrightarrow> sr_conns w' \<le> sr_conns w"
proof -
  have "background_step P w (w\<lparr>sr_conns := sr_conns w - 1\<rparr>)"
    by (rule background_step.release) (use assms in \<open>simp add: waits_for_pool_def\<close>)
  moreover have "sr_main w \<noteq> Exited" using assms by (auto simp: waits_for_pool_def)
  ultimately have "service_step P ok w (w\<lparr>sr_conns := sr_conns w - 1\<rparr>)" by (rule service_step.background [rotated])
  with assms show "\<exists>w'. service_step P ok w w' \<and> sr_conns w' < sr_conns w"
    by (intro exI [of _ "w\<lparr>sr_conns := sr_conns w - 1\<rparr>"]) (simp add: waits_for_pool_def)
next
  assume "service_step P ok w w'"
  then show "sr_conns w' \<le> sr_conns w"
  proof cases
    case background
    from background(2) assms show ?thesis by (auto elim!: background_stepE simp: waits_for_pool_def)
  qed (simp_all add: step_frames)
qed

text \<open>
  What the first component of \<open>main_runs\<close> counts: the steps of \<open>main\<close> in a run.
\<close>

inductive main_runs ::
    "('s, 'e, 'p) parts \<Rightarrow> ('e \<Rightarrow> 's \<Rightarrow> bool) \<Rightarrow> ('s, 'e) service \<Rightarrow> nat \<Rightarrow> ('s, 'e) service \<Rightarrow> bool"
  for P ok v where
  none: "main_runs P ok v 0 v"
| other: "main_runs P ok v k w'"
    if "main_runs P ok v k w" and "service_step P ok w w'" and "sr_main w' = sr_main w"
| main: "main_runs P ok v (Suc k) w'"
    if "main_runs P ok v k w" and "sr_main w \<noteq> Exited" and "main_step P w w'"

lemma main_runs_bound:
  assumes "main_runs P ok v k w" "sr_main v = Stopping acts"
  shows "(sr_main w = Exited \<or> (\<exists>acts. sr_main w = Stopping acts)) \<and> k + steps_left w \<le> steps_left v"
  using assms(1)
proof induction
  case none
  then show ?case using assms(2) by simp
next
  case (other k w w')
  then have "\<exists>acts. sr_main w = Stopping acts" by (auto elim: service_step.cases)
  with other show ?case using step_steps_left [OF other.hyps(2)] by fastforce
next
  case (main k w w')
  then obtain acts where "sr_main w = Stopping acts" by auto
  moreover from this have "sr_main w' = Exited \<or> (\<exists>acts. sr_main w' = Stopping acts)"
    using main.hyps(3) by (auto elim!: main_stepE)
  ultimately show ?case using main main_step_decreases [OF main.hyps(3)] by fastforce
qed

text \<open>
  The actions are performed in the order in which \<open>shutdown\<close> lists them, and what an action did stays
  done.
\<close>

definition order_inv :: "('s, 'e, 'p) parts \<Rightarrow> ('s, 'e) service \<Rightarrow> bool" where
  "order_inv P w \<longleftrightarrow> (case sr_main w of
     Serving \<Rightarrow> sr_done w = []
   | m \<Rightarrow> \<exists>cause. sr_done w @ actions_left m = shutdown cause (pt_queue P) (pt_choice P) \<and>
       (cause = ServerError \<longrightarrow> sr_http_error w))"

definition done_inv :: "('s, 'e) service \<Rightarrow> bool" where
  "done_inv w \<longleftrightarrow> (CancelInvestigation \<in> set (sr_done w) \<longrightarrow> sr_cancelled w) \<and>
     (CloseNATS \<in> set (sr_done w) \<longrightarrow> sr_nats_closed w) \<and>
     (CloseDatabase \<in> set (sr_done w) \<longrightarrow> sr_pool_closed w \<and> sr_conns w = 0)"

lemma order_step:
  assumes "service_step P ok x y" "order_inv P x"
  shows "order_inv P y"
  using assms(1)
proof cases
  case main
  with assms(2) show ?thesis by (auto elim!: main_stepE simp: order_inv_def)
next
  case background
  note f = background_step_frame [OF background(2)]
  with assms(2) show ?thesis by (fastforce simp: order_inv_def split: main_state.splits)
qed (use assms(2) in \<open>simp_all add: order_inv_def step_frames cong: main_state.case_cong\<close>)

lemma done_step:
  assumes "service_step P ok x y" "done_inv x"
  shows "done_inv y"
  using assms(1)
proof cases
  case main
  from main(2) show ?thesis
  proof (cases rule: main_step.cases)
    case (act a acts drain)
    with assms(2) show ?thesis by (cases a) (auto simp: done_inv_def split: prod.split)
  qed (use assms(2) in \<open>simp_all add: done_inv_def\<close>)
next
  case background
  with assms(2) show ?thesis by (auto elim!: background_stepE simp: done_inv_def)
qed (use assms(2) in \<open>simp_all add: done_inv_def step_frames\<close>)

lemma run_order:
  assumes "service_run P ok (start_service P init s) w"
  shows "order_inv P w \<and> done_inv w"
  using assms
proof (induction rule: run_induct)
  case base
  then show ?case by (simp add: order_inv_def done_inv_def start_service_def)
qed (use order_step done_step in blast)

section \<open>Draining\<close>

definition drained_inv :: "('s, 'e) service \<Rightarrow> bool" where
  "drained_inv w \<longleftrightarrow> (sr_drained w \<longrightarrow> \<not> http_open w \<and> (\<forall>n. sr_handlers w n = HIdle))"

lemma idle_handlers_stay:
  assumes "handler_step P ok w w'" "\<forall>n. sr_handlers w n = HIdle"
  shows "serving w"
  using assms by (auto elim!: handler_stepE)

lemma drained_step:
  assumes step: "service_step P ok w w'" and inv: "drained_inv w"
  shows "drained_inv w'"
  using step
proof cases
  case handler
  show ?thesis
  proof (cases "sr_drained w")
    case True
    with inv have "serving w" "\<not> http_open w"
      using idle_handlers_stay [OF handler(2)] by (auto simp: drained_inv_def)
    then show ?thesis by (auto simp: serving_def http_open_def)
  next
    case False
    with step_frames(7) [OF handler(2)] show ?thesis by (simp add: drained_inv_def)
  qed
next
  case main
  have p: "drained_inv (perform drain P a w)" if "a = ShutdownHTTP \<longrightarrow> (\<forall>hs. sr_http w = Some hs \<longrightarrow> hs_State hs = HttpClosed) \<and>
             (drain = None \<longrightarrow> sr_http w = None \<or> (\<forall>n. sr_handlers w n = HIdle))" for drain a
    using that inv by (cases a) (auto simp: drained_inv_def http_open_def Shutdown_def http_shutdown_def split: option.splits)
  from main(2) show ?thesis
  proof (cases rule: main_step.cases)
    case (act a acts drain)
    with p [of a drain] show ?thesis by (simp add: drained_inv_def http_open_def)
  qed (use inv in \<open>auto simp: drained_inv_def http_open_def\<close>)
next
  case loop
  with inv show ?thesis by (simp add: drained_inv_def http_open_def step_frames)
next
  case background
  with inv background_http_closed [OF background(2)] show ?thesis
    by (simp add: drained_inv_def step_frames)
qed

lemma run_drained:
  assumes "service_run P ok (start_service P init s) w"
  shows "drained_inv w"
  using assms
proof (induction rule: run_induct)
  case base
  then show ?case by (simp add: drained_inv_def start_service_def)
next
  case (step x y)
  then show ?case using drained_step by blast
qed


lemma main_runs_run: "main_runs P ok v k w \<Longrightarrow> service_run P ok v w"
  by (induction rule: main_runs.induct) (auto intro: service_step.main rtranclp.rtrancl_into_rtrancl)

lemma received_grows:
  assumes "service_run P ok v w"
  shows "set (sr_received v) \<subseteq> set (sr_received w)"
  using assms
proof (induction rule: run_induct)
  case (step x y)
  from step.hyps(2) have "set (sr_received x) \<subseteq> set (sr_received y)"
  proof (cases rule: service_step_shared)
    case handler
    then show ?thesis by (auto elim!: handler_stepE)
  qed simp
  with step.IH show ?case by blast
qed simp

lemma closed_idle_step:
  assumes "service_step P ok x y" "\<not> http_open x" "\<forall>n. sr_handlers x n = HIdle"
  shows "\<not> http_open y \<and> (\<forall>n. sr_handlers y n = HIdle) \<and> sr_store y = sr_store x \<and>
    sr_received y = sr_received x \<and> sr_accepted y = sr_accepted x"
proof -
  have "\<not> serving x" using assms(2) by (auto simp: serving_def http_open_def)
  with idle_handlers_stay assms(3) have "\<not> handler_step P ok x y" by blast
  with assms(1) step_http_closed [OF assms(1,2)] assms(3) show ?thesis
    by (auto elim!: service_step_shared)
qed

lemma run_drained_quiet:
  assumes "service_run P ok v w" "drained_inv v"
  shows "sr_drained v \<longrightarrow> (\<forall>n. sr_handlers w n = HIdle) \<and> sr_store w = sr_store v \<and>
    sr_received w = sr_received v \<and> sr_accepted w = sr_accepted v"
proof
  assume d: "sr_drained v"
  from assms(1) have "\<not> http_open w \<and> (\<forall>n. sr_handlers w n = HIdle) \<and> sr_store w = sr_store v \<and>
      sr_received w = sr_received v \<and> sr_accepted w = sr_accepted v"
  proof (induction rule: run_induct)
    case base
    with assms(2) d show ?case by (simp add: drained_inv_def)
  next
    case (step x y)
    with closed_idle_step [OF step.hyps(2)] show ?case by simp
  qed
  then show "(\<forall>n. sr_handlers w n = HIdle) \<and> sr_store w = sr_store v \<and>
    sr_received w = sr_received v \<and> sr_accepted w = sr_accepted v" by blast
qed


section \<open>A request ends\<close>

fun handler_left :: "handler_state \<Rightarrow> nat" where
  \<comment> \<open>at most this many steps of the handler remain\<close>
  "handler_left HIdle = 0"
| "handler_left (HNext p as) = 1 + 3 * length as"
| "handler_left (HFound p as a now found) = 3 + 3 * length as"
| "handler_left (HReady p as a now found x) = 2 + 3 * length as"

lemma handler_step_left:
  "handler_step P ok w w' \<Longrightarrow> sr_handlers w n \<noteq> HIdle \<Longrightarrow>
     handler_left (sr_handlers w' n) \<le> handler_left (sr_handlers w n)"
  by (erule handler_stepE) auto

lemma handler_can_step:
  assumes "sr_handlers w n \<noteq> HIdle" "\<not> sr_pool_closed w" "ok e (sr_store w)" "graph_order ord w"
  shows "\<exists>w'. handler_step P ok w w' \<and> handler_left (sr_handlers w' n) < handler_left (sr_handlers w n)"
proof -
  have found: ?thesis if "handler_step P ok w x" "sr_handlers x n = h"
    "handler_left h < handler_left (sr_handlers w n)" for x h
    using that by blast
  show ?thesis
  proof (cases "sr_handlers w n")
    case (HNext p as)
    show ?thesis
    proof (cases as)
      case Nil
      show ?thesis
        by (rule found [OF handler_step.respond [of w n p] refl]) (use HNext Nil in simp_all)
    next
      case (Cons a as')
      show ?thesis
      proof (cases "st_FindOpenByCorrelationKey (pt_store P) e (sr_store w) (buildCorrelationKey a) (cf_ExpansionWindow (pt_cfg P))")
        case (Inl err)
        have "handler_step P ok w (set_handler n (HNext p as') w)"
          by (rule handler_step.search_failed [where e = e]) (use HNext Cons assms Inl in simp_all)
        then show ?thesis by (rule found [OF _ refl]) (use HNext Cons in simp_all)
      next
        case (Inr found)
        have "handler_step P ok w (set_handler n (HFound p as' a 0 found) w)"
          by (rule handler_step.search [where e = e]) (use HNext Cons assms Inr in simp_all)
        then show ?thesis by (rule found [OF _ refl]) (use HNext Cons in simp_all)
      qed
    qed
  next
    case (HFound p as a now found)
    have "handler_step P ok w
        (set_handler n (HReady p as a now found (correlated (graph_at ord w) (NewIncidentID 0) now a found)) w)"
      by (rule handler_step.prepare) (use HFound assms in simp_all)
    then show ?thesis by (rule found [OF _ refl]) (use HFound in simp_all)
  next
    case (HReady p as a now found x)
    obtain r s' where sv: "st_Save (pt_store P) e (sr_store w) x = (r, s')" by fastforce
    have "handler_step P ok w ((set_handler n (HNext p as) w)
           \<lparr>sr_store := s', sr_accepted := (case r of Inr _ \<Rightarrow> a # sr_accepted w | Inl _ \<Rightarrow> sr_accepted w),
            sr_ids := drawn (inc_ID x) found @ sr_ids w\<rparr>)"
      by (rule handler_step.save [where e = e and found = found and x = x]) (use HReady assms sv in simp_all)
    then show ?thesis by (rule found [OF _ refl]) (use HReady in simp_all)
  qed (use assms in simp)
qed

end
