(* ===== verification/Service_Runs.thy ===== *)
theory Service_Runs
  imports Service_Invariants
begin

text \<open>
  Runs of the service: what the steps of one goroutine add up to when no other runs in between, and a
  demonstration run (the server starts, a payload opens an incident, a tick submits its workflow) for
  the properties' witnesses.
\<close>

section \<open>A request, and a tick, without interruption\<close>

text \<open>
  When no other goroutine runs in between, the steps of a handler are the function
  \<open>handleAlertmanagerWebhook\<close> and those of the loop are \<open>scan_tick\<close>.
\<close>

lemma service_run_handler:
  assumes "sr_main w \<noteq> Exited" "handler_step P ok w x" "service_run P ok x w'"
  shows "service_run P ok w w'"
  using service_step.handler [OF assms(1,2)] assms(3) by (rule converse_rtranclp_into_rtranclp)

text \<open>The IDs that the calls of a batch give to new incidents, the latest first.\<close>

definition opened_id :: "('s, 'e) correlator \<Rightarrow> 'e call_env \<Rightarrow> 's \<Rightarrow> alert \<Rightarrow> string list" where
  "opened_id c ce s a =
     (case st_FindOpenByCorrelationKey (co_store c) (ce_find ce) s (buildCorrelationKey a) (cc_ExpansionWindow (co_cfg c)) of
        Inl _ \<Rightarrow> []
      | Inr found \<Rightarrow> drawn (ce_id ce) found)"

fun batch_ids :: "('s, 'e) correlator \<Rightarrow> (nat \<Rightarrow> 'e call_env) \<Rightarrow> nat \<Rightarrow> 's \<Rightarrow> alert list \<Rightarrow> string list" where
  "batch_ids c env n s [] = []"
| "batch_ids c env n s (a # as) =
     batch_ids c env (Suc n) (snd (ProcessAlert c (env n) s a)) as @ opened_id c (env n) s a"

text \<open>One alert of a batch: its steps are one call of \<open>ProcessAlert\<close>.\<close>

lemma handler_runs_alert:
  assumes "sr_handlers w n = HNext p (a # as)" "sr_main w \<noteq> Exited" "\<not> sr_pool_closed w" "graph_order ord w"
    and ok: "ok (ce_find e) (sr_store w)" "ok (ce_save e) (sr_store w)"
    and t: "ce_id e = NewIncidentID t"
    and pa: "ProcessAlert (correlator_at P ord w) e (sr_store w) a = (r, s')"
  shows "service_run P ok w ((set_handler n (HNext p as) w)
    \<lparr>sr_store := s', sr_accepted := (case r of Inr _ \<Rightarrow> [a] | Inl _ \<Rightarrow> []) @ sr_accepted w,
     sr_ids := opened_id (correlator_at P ord w) e (sr_store w) a @ sr_ids w\<rparr>)"
    (is "service_run _ _ _ ?v")
proof (cases "st_FindOpenByCorrelationKey (pt_store P) (ce_find e) (sr_store w) (buildCorrelationKey a)
    (cf_ExpansionWindow (pt_cfg P))")
  case (Inl err)
  with pa have "?v = set_handler n (HNext p as) w" by (auto simp: ProcessAlert_def opened_id_def)
  moreover have "handler_step P ok w (set_handler n (HNext p as) w)"
    by (rule handler_step.search_failed [where e = "ce_find e"]) (use assms(1) ok(1) Inl in simp_all)
  then have "service_run P ok w (set_handler n (HNext p as) w)"
    by (intro r_into_rtranclp service_step.handler [OF assms(2)])
  ultimately show ?thesis by simp
next
  case (Inr found)
  let ?x = "correlated (graph_at ord w) (ce_id e) (ce_now e) a found"
  let ?w1 = "set_handler n (HFound p as a (ce_now e) found) w"
  let ?w2 = "set_handler n (HReady p as a (ce_now e) found ?x) ?w1"
  let ?w3 = "(set_handler n (HNext p as) ?w2)
    \<lparr>sr_store := s', sr_accepted := (case r of Inr _ \<Rightarrow> a # sr_accepted ?w2 | Inl _ \<Rightarrow> sr_accepted ?w2),
     sr_ids := drawn (inc_ID ?x) found @ sr_ids ?w2\<rparr>"
  from Inr pa have sv: "st_Save (pt_store P) (ce_save e) (sr_store w) ?x = (r, s')" by (simp add: ProcessAlert_def)
  have 1: "handler_step P ok w ?w1"
    by (rule handler_step.search [where e = "ce_find e"]) (use assms(1,3) ok(1) Inr in simp_all)
  have g: "graph_at ord ?w1 = graph_at ord w" by (simp add: graph_at_def [abs_def])
  have 2: "handler_step P ok ?w1 ?w2"
    unfolding t g [symmetric] by (rule handler_step.prepare) (use assms(4) in \<open>simp_all add: graph_order_def\<close>)
  have 3: "handler_step P ok ?w2 ?w3"
    by (rule handler_step.save [where found = found and x = ?x])
      (use ok sv assms(3) in \<open>simp_all add: correlated_ID\<close>)
  have "service_run P ok w ?w3"
    by (rule service_run_handler [OF assms(2) 1 service_run_handler [OF _ 2 service_run_handler [OF _ 3 rtranclp.rtrancl_refl]]])
      (use assms(2) in simp_all)
  moreover have "drawn (inc_ID ?x) found = drawn (ce_id e) found" by (cases found) (simp_all add: correlated_ID)
  then have "?w3 = ?v" using Inr by (simp add: opened_id_def split: sum.split)
  ultimately show ?thesis by simp
qed

lemma handler_runs_alerts:
  assumes "sr_handlers w n = HNext p as" "sr_main w \<noteq> Exited" "\<not> sr_pool_closed w" "graph_order ord w"
    and "calls_ok ok view (correlator_at P ord w) env k (sr_store w) as"
    and ids: "\<And>m. \<exists>t. ce_id (env m) = NewIncidentID t"
  shows "service_run P ok w
    ((set_handler n (HNext p []) w)
       \<lparr>sr_store := process_alerts (correlator_at P ord w) env k (sr_store w) as,
        sr_accepted := rev (accepted_alerts (correlator_at P ord w) env k (sr_store w) as) @ sr_accepted w,
        sr_ids := batch_ids (correlator_at P ord w) env k (sr_store w) as @ sr_ids w\<rparr>)"
  using assms(1-5)
proof (induction as arbitrary: w k)
  case Nil
  then have "set_handler n (HNext p []) w = w" by (simp add: fun_upd_idem)
  then show ?case by (simp del: fun_upd_apply)
next
  case (Cons a as)
  let ?c = "correlator_at P ord w"
  obtain r s' where pa: "ProcessAlert ?c (env k) (sr_store w) a = (r, s')" by fastforce
  let ?x = "(set_handler n (HNext p as) w)\<lparr>sr_store := s', sr_accepted := (case r of Inr _ \<Rightarrow> [a] | Inl _ \<Rightarrow> []) @ sr_accepted w,
    sr_ids := opened_id ?c (env k) (sr_store w) a @ sr_ids w\<rparr>"
  from Cons.prems(5) pa have ok: "ok (ce_find (env k)) (sr_store w)" "ok (ce_save (env k)) (sr_store w)"
    "calls_ok ok view ?c env (Suc k) s' as" by simp_all
  from ids obtain t where "ce_id (env k) = NewIncidentID t" by blast
  note first = handler_runs_alert [where ok = ok and e = "env k", OF Cons.prems(1-4) ok(1,2) this pa]
  have c: "correlator_at P ord ?x = ?c" by (simp add: correlator_at_def graph_at_def [abs_def])
  have "graph_order ord ?x" using Cons.prems(4) by (simp add: graph_order_def)
  from Cons.IH [of ?x "Suc k", OF _ _ _ this] Cons.prems(2,3) ok(3)
  have "service_run P ok ?x ((set_handler n (HNext p []) ?x)
     \<lparr>sr_store := process_alerts ?c env (Suc k) s' as,
      sr_accepted := rev (accepted_alerts ?c env (Suc k) s' as) @ sr_accepted ?x,
      sr_ids := batch_ids ?c env (Suc k) s' as @ sr_ids ?x\<rparr>)"
    unfolding c by (simp add: fun_upd_same del: fun_upd_apply)
  moreover have "rev (case r of Inr _ \<Rightarrow> [a] | Inl _ \<Rightarrow> []) = (case r of Inr _ \<Rightarrow> [a] | Inl _ \<Rightarrow> [])"
    by (simp split: sum.split)
  ultimately show ?case using rtranclp_trans [OF first] by (simp add: pa del: fun_upd_apply)
qed

lemma service_run_loop:
  assumes "sr_main w \<noteq> Exited" "loop_step P ok w x" "service_run P ok x w'"
  shows "service_run P ok w w'"
  using service_step.loop [OF assms(1,2)] assms(3) by (rule converse_rtranclp_into_rtranclp)

lemma loop_sends:
  assumes "sr_loop w = LInvestigating tr incs" "sr_main w \<noteq> Exited" "\<not> sr_cancelled w"
  shows "service_run P ok w (w\<lparr>sr_loop := LScanning incs, sr_trace := sr_trace w @ tr\<rparr>)"
  using assms
proof (induction tr arbitrary: w)
  case Nil
  have "loop_step P ok w (w\<lparr>sr_loop := LScanning incs\<rparr>)"
    by (rule loop_step.investigated) (use Nil in simp_all)
  from service_run_loop [OF Nil.prems(2) this] show ?case by simp
next
  case (Cons ef tr)
  let ?x = "w\<lparr>sr_loop := LInvestigating tr incs, sr_trace := sr_trace w @ [ef]\<rparr>"
  have step: "loop_step P ok w ?x" by (rule loop_step.send) (use Cons.prems in simp_all)
  have "service_run P ok ?x (w\<lparr>sr_loop := LScanning incs, sr_trace := sr_trace w @ ef # tr\<rparr>)"
    using Cons.IH [of ?x] Cons.prems by simp
  then show ?case by (rule service_run_loop [OF Cons.prems(2) step])
qed

definition scan_effects ::
    "('s, 'e) investigation_engine \<Rightarrow> (string \<Rightarrow> 'e investigation_env) \<Rightarrow> 's \<Rightarrow> incident list \<Rightarrow> effect list" where
  "scan_effects en env s incs = concat (map (\<lambda>inc. if inc_State inc = IncidentStateOpen
     then snd (InvestigateIncident en (env (inc_ID inc)) s (inc_ID inc)) else []) incs)"

lemma scan_effects_simps [simp]:
  "scan_effects en env s [] = []"
  "scan_effects en env s (x # incs) = (if inc_State x = IncidentStateOpen
     then snd (InvestigateIncident en (env (inc_ID x)) s (inc_ID x)) else []) @ scan_effects en env s incs"
  by (simp_all add: scan_effects_def)

definition scan_log :: "(string \<Rightarrow> 'e investigation_env) \<Rightarrow> 's \<Rightarrow> incident list \<Rightarrow> ('e investigation_env \<times> 's \<times> incident) list" where
  "scan_log env s incs = map (\<lambda>x. (env (inc_ID x), s, x)) (filter (\<lambda>x. inc_State x = IncidentStateOpen) incs)"

lemma scan_log_simps [simp]:
  "scan_log env s [] = []"
  "scan_log env s (x # incs) =
     (if inc_State x = IncidentStateOpen then [(env (inc_ID x), s, x)] else []) @ scan_log env s incs"
  by (simp_all add: scan_log_def)

lemma scan_tick_effects: "st_List (en_store en) e s = Inr incs \<Longrightarrow> scan_tick en e env s = scan_effects en env s incs"
  by (simp add: scan_tick_def scan_effects_def)

lemma loop_scans:
  assumes "sr_loop w = LScanning incs" "sr_main w \<noteq> Exited" "\<not> sr_cancelled w" "\<not> sr_pool_closed w"
    and "\<And>i. ok (iv_store (env i)) (sr_store w)"
  shows "service_run P ok w (w\<lparr>sr_loop := LWaiting, sr_trace := sr_trace w @
    scan_effects (pt_engine P) env (sr_store w) incs,
    sr_investigations := sr_investigations w @ scan_log env (sr_store w) incs\<rparr>)"
  using assms
proof (induction incs arbitrary: w)
  case Nil
  have "loop_step P ok w (w\<lparr>sr_loop := LWaiting\<rparr>)"
    by (rule loop_step.scanned) (use Nil in simp_all)
  from service_run_loop [OF Nil.prems(2) this] show ?case by simp
next
  case (Cons x incs)
  let ?tr = "snd (InvestigateIncident (pt_engine P) (env (inc_ID x)) (sr_store w) (inc_ID x))"
  show ?case
  proof (cases "inc_State x = IncidentStateOpen")
    case True
    let ?x = "w\<lparr>sr_loop := LInvestigating ?tr incs,
      sr_investigations := sr_investigations w @ [(env (inc_ID x), sr_store w, x)]\<rparr>"
    let ?y = "?x\<lparr>sr_loop := LScanning incs, sr_trace := sr_trace w @ ?tr\<rparr>"
    let ?z = "w\<lparr>sr_loop := LWaiting, sr_trace := sr_trace w @ scan_effects (pt_engine P) env (sr_store w) (x # incs),
      sr_investigations := sr_investigations w @ scan_log env (sr_store w) (x # incs)\<rparr>"
    have step: "loop_step P ok w ?x"
      by (rule loop_step.investigate) (use Cons.prems True in simp_all)
    have send: "service_run P ok ?x ?y" using loop_sends [of ?x ?tr incs] Cons.prems by simp
    have rest: "service_run P ok ?y ?z"
      using Cons.IH [of ?y] Cons.prems True by simp
    from send rest have "service_run P ok ?x ?z" by (rule rtranclp_trans)
    then show ?thesis by (rule service_run_loop [OF Cons.prems(2) step])
  next
    case False
    let ?x = "w\<lparr>sr_loop := LScanning incs\<rparr>"
    have step: "loop_step P ok w ?x" by (rule loop_step.skip) (use Cons.prems False in simp_all)
    show ?thesis
      by (rule service_run_loop [OF Cons.prems(2) step]) (use Cons.IH [of ?x] Cons.prems False in simp)
  qed
qed

lemma tick_runs_scan:
  assumes "sr_loop w = LWaiting" "sr_main w \<noteq> Exited" "\<not> sr_cancelled w" "\<not> sr_pool_closed w"
    and "ok e (sr_store w)" "\<And>i. ok (iv_store (env i)) (sr_store w)"
  shows "service_run P ok w
    (w\<lparr>sr_trace := sr_trace w @ scan_tick (pt_engine P) e env (sr_store w),
       sr_investigations := sr_investigations w @ scan_log env (sr_store w)
         (case st_List (en_store (pt_engine P)) e (sr_store w) of Inr incs \<Rightarrow> incs | Inl _ \<Rightarrow> [])\<rparr>)"
proof (cases "st_List (en_store (pt_engine P)) e (sr_store w)")
  case (Inl err)
  then show ?thesis by (simp add: scan_tick_def)
next
  case (Inr incs)
  let ?x = "w\<lparr>sr_loop := LScanning incs\<rparr>"
  have step: "loop_step P ok w ?x" by (rule loop_step.tick [where e = e]) (use assms Inr in simp_all)
  have w: "w\<lparr>sr_loop := LWaiting\<rparr> = w" by (cases w) (use assms(1) in simp)
  have "service_run P ok ?x (w\<lparr>sr_loop := LWaiting, sr_trace := sr_trace w @ scan_tick (pt_engine P) e env (sr_store w),
      sr_investigations := sr_investigations w @ scan_log env (sr_store w) incs\<rparr>)"
    using loop_scans [of ?x incs ok env P] assms scan_tick_effects [OF Inr] by simp
  from service_run_loop [OF assms(2) step this] show ?thesis unfolding w by (simp add: Inr)
qed

lemma webhook_runs:
  assumes "serving w" "sr_handlers w n = HIdle" "sr_main w \<noteq> Exited" "\<not> sr_pool_closed w" "\<not> sr_nats_closed w"
    and "graph_order ord w" "dec_webhook_payload j = Some p"
    and "calls_ok ok view (correlator_at P ord w) (se_call e) 0 (sr_store w) (map to_alert (pw_Alerts p))"
    and "\<And>m. \<exists>t. ce_id (se_call e m) = NewIncidentID t"
    and h: "handleAlertmanagerWebhook (server_at P ord w) e (sr_store w) (Inr j) = (resp, tr, s')"
  shows "service_run P ok w
    (w\<lparr>sr_store := s', sr_trace := sr_trace w @ tr,
       sr_accepted := rev (accepted_alerts (correlator_at P ord w) (se_call e) 0 (sr_store w) (map to_alert (pw_Alerts p)))
         @ sr_accepted w,
       sr_received := map to_alert (pw_Alerts p) @ sr_received w,
       sr_ids := batch_ids (correlator_at P ord w) (se_call e) 0 (sr_store w) (map to_alert (pw_Alerts p)) @ sr_ids w\<rparr>)"
proof -
  let ?as = "map to_alert (pw_Alerts p)"
  let ?acc = "rev (accepted_alerts (correlator_at P ord w) (se_call e) 0 (sr_store w) ?as)"
  let ?ids = "batch_ids (correlator_at P ord w) (se_call e) 0 (sr_store w) ?as"
  let ?x = "(set_handler n (HNext p ?as) w)\<lparr>sr_received := ?as @ sr_received w\<rparr>"
  from h assms(7) have s': "s' = process_alerts (correlator_at P ord w) (se_call e) 0 (sr_store w) ?as"
    and tr: "tr = publish_batch (server_at P ord w) e p ?as"
    by (simp_all add: handleAlertmanagerWebhook_def Let_def)
  have c: "correlator_at P ord ?x = correlator_at P ord w"
    by (simp add: correlator_at_def graph_at_def [abs_def])
  have 1: "handler_step P ok w ?x" by (rule handler_step.request [OF assms(1,2,7)])
  have "service_run P ok ?x ((set_handler n (HNext p []) ?x)
      \<lparr>sr_store := process_alerts (correlator_at P ord ?x) (se_call e) 0 (sr_store ?x) ?as,
       sr_accepted := rev (accepted_alerts (correlator_at P ord ?x) (se_call e) 0 (sr_store ?x) ?as) @ sr_accepted ?x,
       sr_ids := batch_ids (correlator_at P ord ?x) (se_call e) 0 (sr_store ?x) ?as @ sr_ids ?x\<rparr>)"
    by (rule handler_runs_alerts)
      (use assms(3,4,6,8,9) in \<open>simp_all add: c [simplified] graph_order_def del: fun_upd_apply, simp\<close>)
  note acc = this
  let ?y = "(set_handler n (HNext p []) ?x)\<lparr>sr_store := s', sr_accepted := ?acc @ sr_accepted w, sr_ids := ?ids @ sr_ids w\<rparr>"
  let ?z = "w\<lparr>sr_store := s', sr_trace := sr_trace w @ tr, sr_accepted := ?acc @ sr_accepted w,
       sr_received := ?as @ sr_received w, sr_ids := ?ids @ sr_ids w\<rparr>"
  have run: "service_run P ok ?x ?y" using acc unfolding c s' by (simp del: fun_upd_apply)
  have sv: "server_at P ord ?y = server_at P ord w"
    by (simp add: server_at_def correlator_at_def graph_at_def [abs_def])
  have "handler_step P ok ?y ((set_handler n HIdle ?y)\<lparr>sr_trace := sr_trace ?y @ (if sr_nats_closed ?y then []
            else publish_batch (server_at P ord ?y) e p (map to_alert (pw_Alerts p)))\<rparr>)"
    by (rule handler_step.respond) simp
  moreover have "(set_handler n HIdle ?y)\<lparr>sr_trace := sr_trace ?y @ (if sr_nats_closed ?y then []
            else publish_batch (server_at P ord ?y) e p (map to_alert (pw_Alerts p)))\<rparr> = ?z"
    using assms(2,5) unfolding sv by (cases w) (auto simp: tr)
  ultimately have 2: "handler_step P ok ?y ?z" by simp
  have "service_run P ok ?y ?z"
    by (rule service_run_handler [OF _ 2]) (use assms(3) in simp_all)
  with run have "service_run P ok ?x ?z" by (rule rtranclp_trans)
  from service_run_handler [OF assms(3) 1 this] show ?thesis .
qed

section \<open>A demonstration run\<close>

definition demo_parts :: "(mem_store, mem_env, unit) parts" where
  "demo_parts = \<lparr>pt_cfg = demo_config, pt_choice = UseInMemory, pt_store = mem_incident_store,
     pt_engine = demo_engine None, pt_queue = None\<rparr>"

definition demo_start :: "(mem_store, mem_env) service" where
  "demo_start = start_service demo_parts (Some [], NewClient []) NewInMemoryIncidentStore"

definition demo_arrived :: alert where
  "demo_arrived = \<lparr>al_Fingerprint = ''f'', al_Labels = None, al_Annotations = None, al_StartsAt = zero_time, al_EndsAt = None\<rparr>"

definition demo_opened :: incident where
  "demo_opened = new_incident emptyGraph_SubgraphForService (NewIncidentID 0) 0 demo_arrived"

definition demo_served :: "(mem_store, mem_env) service" where
  "demo_served = demo_start\<lparr>sr_http := Some \<lparr>hs_Addr = cf_ListenAddr demo_config, hs_State = HttpServing\<rparr>\<rparr>"

definition demo_recorded :: "alert list \<Rightarrow> string list \<Rightarrow> (mem_store, mem_env) service" where
  "demo_recorded acc ids = demo_served\<lparr>sr_store := \<lparr>ms_incidents = [NewIncidentID 0 \<mapsto> demo_opened]\<rparr>,
     sr_trace := [], sr_accepted := acc, sr_received := [demo_arrived], sr_ids := ids\<rparr>"

lemma serving_run:
  "service_run P ok (start_service P init s)
     ((start_service P init s)\<lparr>sr_http := Some \<lparr>hs_Addr = cf_ListenAddr (pt_cfg P), hs_State = HttpServing\<rparr>\<rparr>)"
proof -
  let ?w = "start_service P init s" and ?n = "\<lambda>_. None"
  let ?x = "?w\<lparr>sr_http := Some \<lparr>hs_Addr = cf_ListenAddr (pt_cfg P), hs_State = HttpNew\<rparr>\<rparr>"
  have "background_step P ?w (?w\<lparr>sr_http := sv_httpServer (create_http_server (server_at P (\<lambda>_. []) ?w))\<rparr>)"
    by (rule background_step.create) (simp add: start_service_def)
  then have 1: "service_step P ok ?w ?x"
    by (intro service_step.background) (simp_all add: create_http_server_def, simp_all add: start_service_def)
  obtain err sv where l: "listen_http_server ?n (server_at P (\<lambda>_. []) ?x) = (err, sv)" by fastforce
  have e: "err = None" "sv_httpServer sv = Some \<lparr>hs_Addr = cf_ListenAddr (pt_cfg P), hs_State = HttpServing\<rparr>"
    using l by (auto simp: listen_http_server_def http_listen_def)
  have "background_step P ?x (?x\<lparr>sr_http := sv_httpServer sv, sr_http_error := (err \<noteq> None)\<rparr>)"
    by (rule background_step.listen [OF _ _ _ l]) (simp_all add: serving_def start_service_def)
  then have "service_step P ok ?x (?x\<lparr>sr_http := sv_httpServer sv, sr_http_error := (err \<noteq> None)\<rparr>)"
    by (intro service_step.background) (simp_all add: start_service_def)
  moreover have "?x\<lparr>sr_http := sv_httpServer sv, sr_http_error := (err \<noteq> None)\<rparr> =
      ?w\<lparr>sr_http := Some \<lparr>hs_Addr = cf_ListenAddr (pt_cfg P), hs_State = HttpServing\<rparr>\<rparr>"
    by (simp add: e start_service_def)
  ultimately have 2: "service_step P ok ?x
      (?w\<lparr>sr_http := Some \<lparr>hs_Addr = cf_ListenAddr (pt_cfg P), hs_State = HttpServing\<rparr>\<rparr>)" by simp
  from 1 2 show ?thesis by (meson r_into_rtranclp rtranclp.rtrancl_into_rtrancl)
qed

definition demo_mem_server_env :: "mem_env server_env" where
  "demo_mem_server_env = \<lparr>se_call = (\<lambda>n. demo_id_call []), se_now = 0, se_nats = se_nats demo_server_env\<rparr>"

definition demo_decoded :: webhook_payload where
  "demo_decoded = the (dec_webhook_payload demo_payload)"

lemma demo_payload_dec:
  "dec_webhook_payload demo_payload = Some demo_decoded" "map to_alert (pw_Alerts demo_decoded) = [demo_arrived]"
proof -
  have "parseTime [] = None" by (simp add: parseTime_def) code_simp
  then show "dec_webhook_payload demo_payload = Some demo_decoded" "map to_alert (pw_Alerts demo_decoded) = [demo_arrived]"
    by (simp_all add: demo_decoded_def dec_webhook_payload_def demo_payload_def dec_alert_payload_def field_lookup
        dec_struct_def dec_list_def to_alert_def demo_arrived_def)
qed

lemma demo_served_sel [simp]:
  "serving demo_served" "sr_handlers demo_served n = HIdle" "sr_main demo_served = Serving" "\<not> sr_pool_closed demo_served"
  "\<not> sr_nats_closed demo_served" "graph_order ord demo_served" "sr_store demo_served = NewInMemoryIncidentStore"
  "graph_at ord demo_served = emptyGraph_SubgraphForService" "sr_trace demo_served = []" "sr_accepted demo_served = []"
  "sr_received demo_served = []" "sr_ids demo_served = []" "sr_investigations demo_served = []" "sr_loop demo_served = LWaiting" "\<not> sr_cancelled demo_served"
  by (simp_all add: demo_served_def demo_start_def start_service_def serving_def graph_order_def graph_at_def fun_eq_iff)

lemma demo_served_run: "service_run demo_parts ok demo_start demo_served"
  using serving_run [of demo_parts ok "(Some [], NewClient [])" NewInMemoryIncidentStore]
  by (simp add: demo_start_def demo_served_def demo_parts_def)

lemma demo_handle:
  "handleAlertmanagerWebhook (server_at demo_parts ord demo_served) demo_mem_server_env NewInMemoryIncidentStore (Inr demo_payload) =
     (\<lparr>rs_Status = 200, rs_Body = ''ok'' @ [CHR 0x0A]\<rparr>, [], \<lparr>ms_incidents = [NewIncidentID 0 \<mapsto> demo_opened]\<rparr>)"
proof -
  have "pt_store demo_parts = mem_incident_store" "pt_queue demo_parts = None" by (simp_all add: demo_parts_def)
  with demo_payload_dec show ?thesis
    by (simp add: handleAlertmanagerWebhook_def publish_batch_def ProcessAlert_def demo_mem_server_env_def demo_id_call_def
        mem_FindOpenByCorrelationKey_def mem_Save_def correlated_def demo_opened_def NewInMemoryIncidentStore_def
        new_incident_def Let_def)
qed

lemma demo_handle':
  "handleAlertmanagerWebhook (server_at demo_parts (\<lambda>_. []) demo_served) demo_mem_server_env (sr_store demo_served)
      (Inr demo_payload) = (\<lparr>rs_Status = 200, rs_Body = ''ok'' @ [CHR 0x0A]\<rparr>, [], \<lparr>ms_incidents = [NewIncidentID 0 \<mapsto> demo_opened]\<rparr>)"
  using demo_handle by simp

lemma demo_calls:
  "calls_ok mem_ok ms_incidents (correlator_at demo_parts (\<lambda>_. []) demo_served) (se_call demo_mem_server_env) 0
      (sr_store demo_served) (map to_alert (pw_Alerts demo_decoded))"
  by (simp add: demo_payload_dec(2) demo_mem_server_env_def demo_id_call_def mem_ok_def enumerates_def NewInMemoryIncidentStore_def)

lemma demo_ids: "\<exists>t. ce_id (se_call demo_mem_server_env m) = NewIncidentID t"
  by (auto simp: demo_mem_server_env_def demo_id_call_def)

lemma demo_accepted:
  "accepted_alerts (correlator_at demo_parts (\<lambda>_. []) demo_served) (se_call demo_mem_server_env) 0
     (sr_store demo_served) (map to_alert (pw_Alerts demo_decoded)) = [demo_arrived]"
proof -
  have "pt_store demo_parts = mem_incident_store" by (simp add: demo_parts_def)
  then show ?thesis
    by (simp add: demo_payload_dec(2) ProcessAlert_def demo_mem_server_env_def demo_id_call_def
        mem_FindOpenByCorrelationKey_def mem_Save_def NewInMemoryIncidentStore_def)
qed

lemma demo_recorded_run: "\<exists>acc ids. service_run demo_parts mem_ok demo_start (demo_recorded acc ids)"
proof -
  from webhook_runs [OF _ _ _ _ _ _ demo_payload_dec(1) demo_calls demo_ids demo_handle', of 0]
  have "\<exists>acc ids. service_run demo_parts mem_ok demo_served (demo_recorded acc ids)"
    unfolding demo_recorded_def by (simp add: demo_payload_dec(2) del: accepted_alerts.simps batch_ids.simps) blast
  with demo_served_run show ?thesis by (meson rtranclp_trans)
qed

lemma demo_opened_marshals: "incident_marshals demo_opened"
proof -
  have "time_marshals zero_time" by code_simp
  with time_marshals_epoch show ?thesis
    by (simp add: incident_marshals_def demo_opened_def new_incident_def Let_def demo_arrived_def alert_marshals_def)
qed

definition demo_scan_env :: "mem_env" where
  "demo_scan_env = \<lparr>me_now = 0, me_keys = [NewIncidentID 0]\<rparr>"

definition demo_service_env :: "string \<Rightarrow> mem_env investigation_env" where
  "demo_service_env i = (demo_investigation_env (demo_plan_json 1 []))\<lparr>iv_store := demo_scan_env\<rparr>"

lemma demo_recorded_sel [simp]:
  "sr_main (demo_recorded acc ids) = Serving" "sr_loop (demo_recorded acc ids) = LWaiting" "\<not> sr_cancelled (demo_recorded acc ids)"
  "\<not> sr_pool_closed (demo_recorded acc ids)" "sr_investigations (demo_recorded acc ids) = []" "sr_trace (demo_recorded acc ids) = []" "sr_received (demo_recorded acc ids) = [demo_arrived]"
  "sr_store (demo_recorded acc ids) = \<lparr>ms_incidents = [NewIncidentID 0 \<mapsto> demo_opened]\<rparr>"
  by (simp_all add: demo_recorded_def)

lemma demo_submitted_run:
  "\<exists>w wk. service_run demo_parts mem_ok demo_start w \<and> sr_received w = [demo_arrived] \<and>
     WorkflowSubmitted wk \<in> set (sr_trace w)"
proof -
  from demo_recorded_run obtain acc ids where run: "service_run demo_parts mem_ok demo_start (demo_recorded acc ids)"
    by blast
  let ?w = "demo_recorded acc ids" and ?s = "\<lparr>ms_incidents = [NewIncidentID 0 \<mapsto> demo_opened]\<rparr>"
  let ?tr = "scan_tick (demo_engine None) demo_scan_env demo_service_env ?s"
  have en: "pt_engine demo_parts = demo_engine None" by (simp add: demo_parts_def)
  have ok: "mem_ok demo_scan_env ?s" by (simp add: mem_ok_def demo_scan_env_def enumerates_def)
  obtain v where tick: "service_run demo_parts mem_ok ?w v" and v: "sr_trace v = ?tr" "sr_received v = [demo_arrived]"
    using tick_runs_scan [of ?w mem_ok demo_scan_env demo_service_env demo_parts] ok
    by (simp add: en demo_service_env_def [of "_"])
  have st: "en_store (demo_engine None) = mem_incident_store" "ag_initialized (en_argo (demo_engine None))"
    "passes (en_policy (demo_engine None)) inc g" for inc g
    by (simp_all add: demo_engine_def passes_def)
  have x: "inc_ID demo_opened = NewIncidentID 0" "inc_State demo_opened = IncidentStateOpen"
    by (simp_all add: demo_opened_def new_incident_def Let_def)
  have conf: "ir_PlanConfidence (demo_result 1 []) \<ge> min_confidence"
    by (simp add: demo_result_def min_confidence_def float64_def fl64_six_tenths)
  have planned: "planned (demo_engine None) (demo_service_env (NewIncidentID 0)) ?s (NewIncidentID 0) =
      Some (demo_opened, demo_result 1 [])"
    unfolding demo_service_env_def by (rule demo_planned_incident) (simp_all add: demo_opened_marshals)
  obtain wk where "workflows (snd (InvestigateIncident (demo_engine None) (demo_service_env (NewIncidentID 0)) ?s (NewIncidentID 0))) = [wk]"
    using workflows_investigate [OF planned st(3) conf st(2)] by blast
  then have "WorkflowSubmitted wk \<in> set (snd (InvestigateIncident (demo_engine None)
      (demo_service_env (inc_ID demo_opened)) ?s (inc_ID demo_opened)))"
    by (simp add: x workflow_in_trace [symmetric])
  moreover have "mem_ok demo_scan_env ?s" by (rule ok)
  ultimately have "WorkflowSubmitted wk \<in> set ?tr"
    using scan_investigates [OF st(1) ok, of demo_opened demo_service_env] x by auto
  with run tick show ?thesis
    using v by (intro exI [of _ v] exI [of _ wk]) (auto intro: rtranclp_trans)
qed

end
