(* ===== verification/Service_Properties.thy ===== *)
theory Service_Properties
  imports Service_Runs
begin

text \<open>
  What holds of the process as a whole, for every interleaving of its goroutines.
\<close>

text \<open>
  C5: every workflow is accounted for: in any run, the workflows that were submitted are, in order, those
  that the investigations of this very run call for: each investigation, with the replies it got and
  the store it read, calls for the translation of the plan it got back if the policy engine (where
  there is one) let it pass, its confidence reaches the threshold and the Argo client is there, and for
  none otherwise. None is left out unless the context of the loop is cancelled. And every investigation
  is that of an incident that a scan of the run listed as open, on the store of a later state of the run.
  Incidents are values here: an investigation that reads an alert array while a call writes to it
  (\<open>Slices_Concurrent\<close>) is not covered.
\<close>

theorem service_workflows_justified:
  assumes "service_run P ok (start_service P init s) w"
  shows "subseq (workflows (sr_trace w)) (concat (map (submission P) (sr_investigations w))) \<and>
    (\<not> sr_cancelled w \<and> pending (sr_loop w) = [] \<longrightarrow>
       workflows (sr_trace w) = concat (map (submission P) (sr_investigations w))) \<and>
    (\<forall>(e, t, x) \<in> set (sr_investigations w). inc_State x = IncidentStateOpen \<and>
       (\<exists>u e' incs v. service_run P ok (start_service P init s) u \<and> service_run P ok u v \<and> service_run P ok v w \<and>
          st_List (en_store (pt_engine P)) e' (sr_store u) = Inr incs \<and> x \<in> set incs \<and> sr_store v = t))"
proof (intro conjI)
  have sent: "sent_inv P w" by (rule service_run_sent [OF assms])
  have "subseq (workflows (sr_trace w)) (workflows (sr_trace w @ pending (sr_loop w)))"
    by (simp add: subseq_rev_drop_many)
  with sent show "subseq (workflows (sr_trace w)) (concat (map (submission P) (sr_investigations w)))"
    unfolding sent_inv_def submissions_def by (blast intro: subseq_order.order_trans)
  show "\<not> sr_cancelled w \<and> pending (sr_loop w) = [] \<longrightarrow>
      workflows (sr_trace w) = concat (map (submission P) (sr_investigations w))"
    using sent by (auto simp: sent_inv_def submissions_def)
next
  show "\<forall>(e, t, x) \<in> set (sr_investigations w). inc_State x = IncidentStateOpen \<and>
     (\<exists>u e' incs v. service_run P ok (start_service P init s) u \<and> service_run P ok u v \<and> service_run P ok v w \<and>
        st_List (en_store (pt_engine P)) e' (sr_store u) = Inr incs \<and> x \<in> set incs \<and> sr_store v = t)"
    using service_run_begun [OF assms] unfolding begun_in_def scanned_in_def by fastforce
qed

theorem service_workflows_justified_witness:
  "\<exists>w e t x wk. service_run demo_parts mem_ok demo_start w \<and> (e, t, x) \<in> set (sr_investigations w) \<and>
     wk \<in> set (workflows (sr_trace w)) \<and> wk \<in> set (submission demo_parts (e, t, x)) \<and> inc_State x = IncidentStateOpen"
proof -
  from demo_submitted_run obtain w wk where run: "service_run demo_parts mem_ok demo_start w"
    and w: "WorkflowSubmitted wk \<in> set (sr_trace w)" by blast
  note J = service_workflows_justified [OF run [unfolded demo_start_def]]
  from w have wk: "wk \<in> set (workflows (sr_trace w))" by (simp add: workflow_in_trace)
  moreover from J have "subseq (workflows (sr_trace w)) (concat (map (submission demo_parts) (sr_investigations w)))" by blast
  ultimately have "wk \<in> set (concat (map (submission demo_parts) (sr_investigations w)))"
    by (auto elim: list_emb_set simp del: submission.simps)
  then obtain e t x where i: "(e, t, x) \<in> set (sr_investigations w)" "wk \<in> set (submission demo_parts (e, t, x))"
    by (auto simp del: submission.simps)
  moreover from J i(1) have "inc_State x = IncidentStateOpen" by blast
  ultimately show ?thesis using run wk by blast
qed

text \<open>
  C9: shutting down completes: once \<open>main\<close> has left its wait it takes at most 7 steps, whatever the
  other goroutines do in between, and until it has returned it can take the next one, except while
  \<open>Close\<close> of the database pool waits for connections; then connections can be returned and none is given
  out. When it has returned after a signal it has, in this order, cancelled the investigation loop and
  the ingest worker, closed the queue (where there is one), shut down the HTTP server and closed the
  database pool (on PostgreSQL); after a server error it has only closed the pool.
\<close>

theorem shutdown_completes:
  assumes "service_run P ok (start_service P init s) w" "sr_main w = Stopping acts" "main_runs P ok w k v"
  shows "k \<le> 7 \<and>
    (if sr_main v = Exited then
       (let close = (case pt_choice P of UsePostgres _ \<Rightarrow> [CloseDatabase] | _ \<Rightarrow> []) in
          sr_done v = [CancelInvestigation, CancelIngest] @ (if pt_queue P = None then [] else [CloseNATS]) @
              [ShutdownHTTP] @ close \<and> sr_cancelled v \<and> (pt_queue P \<noteq> None \<longrightarrow> sr_nats_closed v) \<or>
          sr_done v = close \<and> sr_http_error v) \<and>
       (\<forall>pool. pt_choice P = UsePostgres pool \<longrightarrow> sr_pool_closed v \<and> sr_conns v = 0)
     else if waits_for_pool v then
       (\<exists>v'. service_step P ok v v' \<and> sr_conns v' < sr_conns v) \<and>
       (\<forall>v'. service_step P ok v v' \<longrightarrow> sr_conns v' \<le> sr_conns v)
     else \<exists>v'. main_step P v v')"
proof
  note bound = main_runs_bound [OF assms(3,2)]
  have order: "order_inv P w" using run_order [OF assms(1)] by blast
  then obtain cause where "sr_done w @ acts = shutdown cause (pt_queue P) (pt_choice P)"
    using assms(2) by (auto simp: order_inv_def)
  then have "length acts \<le> 5"
    using shutdown_length [of cause "pt_queue P" "pt_choice P"] by (metis add_leD2 le_trans length_append)
  then have "steps_left w \<le> 7" using assms(2) by (simp add: steps_left_def)
  with bound show "k \<le> 7" by simp
  have "service_run P ok (start_service P init s) v"
    using main_runs_run [OF assms(3)] assms(1) by (meson rtranclp_trans)
  from run_order [OF this] have inv: "order_inv P v" "done_inv v" by blast+
  show "if sr_main v = Exited then
       (let close = (case pt_choice P of UsePostgres _ \<Rightarrow> [CloseDatabase] | _ \<Rightarrow> []) in
          sr_done v = [CancelInvestigation, CancelIngest] @ (if pt_queue P = None then [] else [CloseNATS]) @
              [ShutdownHTTP] @ close \<and> sr_cancelled v \<and> (pt_queue P \<noteq> None \<longrightarrow> sr_nats_closed v) \<or>
          sr_done v = close \<and> sr_http_error v) \<and>
       (\<forall>pool. pt_choice P = UsePostgres pool \<longrightarrow> sr_pool_closed v \<and> sr_conns v = 0)
     else if waits_for_pool v then
       (\<exists>v'. service_step P ok v v' \<and> sr_conns v' < sr_conns v) \<and>
       (\<forall>v'. service_step P ok v v' \<longrightarrow> sr_conns v' \<le> sr_conns v)
     else \<exists>v'. main_step P v v'"
  proof (cases "sr_main v = Exited")
    case True
    with inv(1) obtain cause where d: "sr_done v = shutdown cause (pt_queue P) (pt_choice P)"
      and c: "cause = ServerError \<Longrightarrow> sr_http_error v" by (auto simp: order_inv_def)
    from d have "CloseDatabase \<in> set (sr_done v)" if "pt_choice P = UsePostgres pool" for pool
      by (simp add: shutdown_def that)
    with inv(2) have pool: "\<forall>pool. pt_choice P = UsePostgres pool \<longrightarrow> sr_pool_closed v \<and> sr_conns v = 0"
      unfolding done_inv_def by blast
    show ?thesis
    proof (cases cause)
      case Signal
      with inv(2) d have "sr_cancelled v" "pt_queue P \<noteq> None \<longrightarrow> sr_nats_closed v"
        by (auto simp: done_inv_def shutdown_def split: option.splits)
      with Signal d pool True show ?thesis
        by (simp add: shutdown_def Let_def split: option.split)
    next
      case ServerError
      with d c pool True show ?thesis by (simp add: shutdown_def Let_def)
    qed
  next
    case False
    with bound main_can_step waiting_drains show ?thesis by (metis main_state.distinct(5))
  qed
qed

theorem shutdown_completes_witness:
  "\<exists>w. service_run demo_parts mem_ok demo_start w \<and>
     sr_main w = Stopping [CancelInvestigation, CancelIngest, ShutdownHTTP] \<and> (\<exists>w'. main_step demo_parts w w')"
proof -
  let ?w = "demo_start\<lparr>sr_main := Stopping (shutdown Signal (pt_queue demo_parts) (pt_choice demo_parts))\<rparr>"
  have "main_step demo_parts demo_start ?w"
    by (rule main_step.signal) (simp add: demo_start_def start_service_def)
  then have run: "service_run demo_parts mem_ok demo_start ?w"
    by (intro r_into_rtranclp service_step.main) (simp_all add: demo_start_def start_service_def)
  have m: "sr_main ?w = Stopping [CancelInvestigation, CancelIngest, ShutdownHTTP]"
    by (simp add: demo_parts_def shutdown_def)
  have "\<not> waits_for_pool ?w" unfolding waits_for_pool_def m by simp
  with shutdown_completes [OF run [unfolded demo_start_def], folded demo_start_def, OF m main_runs.none] run m
  show ?thesis by auto
qed

text \<open>
  C8: a stopping service goes quiet: once the context of the investigation loop is cancelled no
  request, message or workflow of an investigation is sent, and once the queue is closed too nothing
  is sent at all; and when \<open>Shutdown\<close> has returned nil for a server that was there, no request is
  in progress from then on, and the store and what was accepted stay as they are.
\<close>

theorem shutdown_quiesces:
  assumes "service_run P ok (start_service P init s) v" "service_run P ok v w"
  shows "(sr_cancelled v \<longrightarrow> (\<exists>tr. sr_trace w = sr_trace v @ tr \<and> (\<forall>ef \<in> set tr. published ef) \<and>
        (sr_nats_closed v \<longrightarrow> tr = []))) \<and>
    (sr_drained v \<longrightarrow> (\<forall>n. sr_handlers w n = HIdle) \<and> sr_store w = sr_store v \<and>
        sr_received w = sr_received v \<and> sr_accepted w = sr_accepted v)"
  using run_quiet [OF assms(2)] run_drained_quiet [OF assms(2) run_drained [OF assms(1)]] by blast

text \<open>
  C11: the service refines the concurrent correlator: seen through what its handlers have found, what
  its store holds, what was accepted and which IDs were given out, every run of the process, whatever
  IDs the clock gives, is a run of the threads of \<open>Correlator_Concurrent\<close>, so what holds of them under
  any interleaving holds of the service.
\<close>

theorem service_refines_correlator:
  assumes "service_run P ok (start_service P init s) w"
  shows "conc_reachable (wire_correlator (pt_cfg P) (pt_store P) g) ok s (world_of_service w)"
  using service_run_conc [OF assms, of "wire_correlator (pt_cfg P) (pt_store P) g"] by (simp add: wire_correlator_def NewCorrelator_def)

theorem service_refines_correlator_witness:
  "\<exists>w. conc_reachable (wire_correlator demo_config mem_incident_store emptyGraph_SubgraphForService) mem_ok NewInMemoryIncidentStore w \<and>
     ms_incidents (cw_state w) (NewIncidentID 0) = Some demo_opened"
proof -
  from demo_recorded_run obtain acc ids
    where run: "service_run demo_parts mem_ok demo_start (demo_recorded acc ids)" by blast
  have P: "pt_cfg demo_parts = demo_config" "pt_store demo_parts = mem_incident_store" by (simp_all add: demo_parts_def)
  from service_refines_correlator [OF run [unfolded demo_start_def], of emptyGraph_SubgraphForService] show ?thesis
    unfolding P by (intro exI [of _ "world_of_service (demo_recorded acc ids)"]) (simp add: world_of_service_def)
qed

text \<open>
  C7: on PostgreSQL, whatever the goroutines of the process interleave, whatever database calls fail and
  whatever IDs the clock gives, an alert that a handler's call accepted is held by an incident of the
  store in every state that follows; and by one with the alert's own key as long as the IDs that the
  clock gave to new incidents are distinct.
\<close>

theorem service_records_accepted:
  assumes "service_run P (pg_ok rt) (start_service P init empty_db) w" "pt_store P = pg_incident_store"
    and "a \<in> set (sr_accepted w)"
  shows "(\<exists>i x. pg_abs (sr_store w) i = Some x \<and> al_Fingerprint a \<in> fingerprints x) \<and>
    (distinct (sr_ids w) \<longrightarrow> (\<exists>i x. pg_abs (sr_store w) i = Some x \<and>
       inc_CorrelationKey x = buildCorrelationKey a \<and> al_Fingerprint a \<in> fingerprints x))"
proof -
  let ?c = "correlator_at P (\<lambda>_. []) w"
  have "conc_reachable ?c (pg_ok rt) empty_db (world_of_service w)"
    using service_run_conc [OF assms(1), of ?c] by simp
  from pg_acc.accepted_kept [OF this _ db_inv_empty, of a] assms(2,3) show ?thesis
    by (simp add: pg_fresh_ids pg_acc.held_def pg_acc.recorded_def world_of_service_def)
qed

definition demo_pg_parts :: "(db, pg_env, unit) parts" where
  "demo_pg_parts = \<lparr>pt_cfg = demo_config, pt_choice = UseInMemory, pt_store = pg_incident_store,
     pt_engine = \<lparr>en_store = pg_incident_store, en_kagent = \<lparr>kc_baseURL = ''http://kagent''\<rparr>,
       en_argo = \<lparr>ag_Namespace = ''argo'', ag_initialized = True\<rparr>, en_slack = NewSlack ''http://slack'', en_policy = None\<rparr>,
     pt_queue = None\<rparr>"

theorem service_records_accepted_witness:
  "\<exists>w i x. service_run demo_pg_parts (pg_ok (\<lambda>t. t)) (start_service demo_pg_parts (Some [], NewClient []) empty_db) w \<and>
     demo_arrived \<in> set (sr_accepted w) \<and> distinct (sr_ids w) \<and> pg_abs (sr_store w) i = Some x \<and>
     inc_CorrelationKey x = buildCorrelationKey demo_arrived \<and> ''f'' \<in> fingerprints x"
proof -
  let ?s = "start_service demo_pg_parts (Some [], NewClient []) empty_db"
  let ?w = "?s\<lparr>sr_http := Some \<lparr>hs_Addr = cf_ListenAddr (pt_cfg demo_pg_parts), hs_State = HttpServing\<rparr>\<rparr>"
  let ?ce = "demo_call (demo_pg_env None 9) 9 (NewIncidentID 9)" and ?o = "\<lambda>_::string. []::string list"
  let ?e = "\<lparr>se_call = (\<lambda>n. ?ce), se_now = 9, se_nats = se_nats demo_server_env\<rparr>" and ?c = "correlator_at demo_pg_parts ?o ?w"
  obtain resp tr s' where h: "handleAlertmanagerWebhook (server_at demo_pg_parts ?o ?w) ?e (sr_store ?w) (Inr demo_payload) = (resp, tr, s')"
    by (cases "handleAlertmanagerWebhook (server_at demo_pg_parts ?o ?w) ?e (sr_store ?w) (Inr demo_payload)") auto
  have st: "sr_store ?w = empty_db" "graph_at ?o ?w = emptyGraph_SubgraphForService" "pt_store demo_pg_parts = pg_incident_store"
    by (simp_all add: start_service_def graph_at_def fun_eq_iff demo_pg_parts_def)
  have "\<exists>d. ProcessAlert ?c ?ce empty_db demo_arrived = (Inr (), d)"
    by (simp add: ProcessAlert_def st demo_call_def pg_FindOpenByCorrelationKey_def
        FindOpenByCorrelationKey_def order_by_desc_def correlated_def new_incident_def pg_eval demo_arrived_def)
  then have acc: "demo_arrived \<in> set (accepted_alerts ?c (se_call ?e) 0 (sr_store ?w) (map to_alert (pw_Alerts demo_decoded)))"
    by (auto simp: demo_payload_dec(2) st)
  have "service_run demo_pg_parts (pg_ok (\<lambda>t. t)) ?w (?w\<lparr>sr_store := s', sr_trace := sr_trace ?w @ tr,
      sr_accepted := rev (accepted_alerts ?c (se_call ?e) 0 (sr_store ?w) (map to_alert (pw_Alerts demo_decoded))) @ sr_accepted ?w,
      sr_received := map to_alert (pw_Alerts demo_decoded) @ sr_received ?w,
      sr_ids := batch_ids ?c (se_call ?e) 0 (sr_store ?w) (map to_alert (pw_Alerts demo_decoded)) @ sr_ids ?w\<rparr>)" (is "service_run _ _ _ ?v")
  proof (rule webhook_runs [OF _ _ _ _ _ _ demo_payload_dec(1) _ _ h, of 0])
    show "calls_ok (pg_ok (\<lambda>t. t)) pg_abs ?c (se_call ?e) 0 (sr_store ?w) (map to_alert (pw_Alerts demo_decoded))"
      by (simp add: demo_payload_dec(2) st pg_abs_empty) (simp add: demo_call_def demo_pg_ok)
    show "\<exists>t. ce_id (se_call ?e m) = NewIncidentID t" for m by (auto simp: demo_call_def)
  qed (simp_all add: start_service_def serving_def graph_order_def)
  with serving_run have run: "service_run demo_pg_parts (pg_ok (\<lambda>t. t)) ?s ?v" by (rule rtranclp_trans)
  have "demo_arrived \<in> set (sr_accepted ?v)" using acc by simp
  note kept = service_records_accepted [OF run st(3) this]
  have ids: "distinct (sr_ids ?v)"
    by (simp add: demo_payload_dec(2) opened_id_def drawn_def start_service_def split: sum.split option.split)
  with kept obtain i x where "pg_abs (sr_store ?v) i = Some x" "inc_CorrelationKey x = buildCorrelationKey demo_arrived"
    "''f'' \<in> fingerprints x" unfolding demo_arrived_def by auto
  with run ids \<open>demo_arrived \<in> set (sr_accepted ?v)\<close> show ?thesis by blast
qed

theorem shutdown_quiesces_witness:
  "\<exists>v. service_run demo_parts mem_ok demo_start v \<and> sr_cancelled v \<and>
     (\<forall>w. service_run demo_parts mem_ok v w \<longrightarrow> (\<exists>tr. sr_trace w = sr_trace v @ tr \<and> (\<forall>ef \<in> set tr. published ef)))"
proof -
  let ?P = demo_parts and ?acts = "[CancelIngest, ShutdownHTTP]"
  let ?x = "demo_start\<lparr>sr_main := Stopping (shutdown Signal (pt_queue ?P) (pt_choice ?P))\<rparr>"
  let ?v = "(perform None ?P CancelInvestigation ?x)\<lparr>sr_main := Stopping ?acts, sr_done := sr_done ?x @ [CancelInvestigation]\<rparr>"
  have "main_step ?P demo_start ?x"
    by (rule main_step.signal) (simp add: demo_start_def start_service_def)
  then have 1: "service_step ?P mem_ok demo_start ?x"
    by (intro service_step.main) (simp_all add: demo_start_def start_service_def)
  have "main_step ?P ?x ?v"
    by (rule main_step.act) (simp_all add: demo_parts_def shutdown_def)
  then have 2: "service_step ?P mem_ok ?x ?v"
    by (intro service_step.main) simp_all
  from 1 2 have run: "service_run ?P mem_ok demo_start ?v" by (meson r_into_rtranclp rtranclp.rtrancl_into_rtrancl)
  have "\<exists>tr. sr_trace w = sr_trace ?v @ tr \<and> (\<forall>ef \<in> set tr. published ef)"
    if "service_run ?P mem_ok ?v w" for w
    using shutdown_quiesces [OF run [unfolded demo_start_def], folded demo_start_def, OF that] by auto
  with run show ?thesis by (intro exI [of _ ?v] conjI) (simp, simp, blast)
qed

text \<open>
  A server that is asked to shut down before its goroutine has created it is not shut down:
  \<open>Shutdown\<close> returns nil, the server starts afterwards and takes a request that is lost with the
  process.
\<close>

definition racing :: "main_state \<Rightarrow> shutdown_action list \<Rightarrow> bool \<Rightarrow> http_state option \<Rightarrow> (mem_store, mem_env) service" where
  "racing m d c h = demo_start\<lparr>sr_main := m, sr_done := d, sr_cancelled := c,
     sr_http := map_option (\<lambda>st. \<lparr>hs_Addr = cf_ListenAddr demo_config, hs_State = st\<rparr>) h\<rparr>"

lemmas racing_defs = racing_def demo_start_def start_service_def

lemma racing_main:
  assumes "m \<noteq> Exited" "main_step demo_parts (racing m d c h) w"
  shows "service_step demo_parts ok (racing m d c h) w"
  by (rule service_step.main [OF _ assms(2)]) (simp add: racing_defs assms(1))

lemma racing_act:
  assumes "perform None demo_parts a (racing (Stopping (a # acts)) d c h) = (racing (Stopping (a # acts)) d c' h)"
    and "a = ShutdownHTTP \<Longrightarrow> h = None"
  shows "service_step demo_parts ok (racing (Stopping (a # acts)) d c h) (racing (Stopping acts) (d @ [a]) c' h)"
proof (rule racing_main)
  have "main_step demo_parts (racing (Stopping (a # acts)) d c h)
    ((perform None demo_parts a (racing (Stopping (a # acts)) d c h))\<lparr>sr_main := Stopping acts,
       sr_done := sr_done (racing (Stopping (a # acts)) d c h) @ [a]\<rparr>)"
    by (rule main_step.act) (use assms(2) in \<open>auto simp: racing_defs\<close>)
  then show "main_step demo_parts (racing (Stopping (a # acts)) d c h) (racing (Stopping acts) (d @ [a]) c' h)"
    unfolding assms(1) by (simp add: racing_defs)
qed simp

lemma shutdown_race:
  "\<exists>w. service_run demo_parts ok demo_start w \<and> sr_main w = Exited \<and>
     ShutdownHTTP \<in> set (sr_done w) \<and> sr_received w = [demo_arrived] \<and> sr_accepted w = [] \<and>
     sr_handlers w 0 = HNext demo_decoded [demo_arrived]"
proof -
  let ?R = "service_step demo_parts ok" and ?all = "[CancelInvestigation, CancelIngest, ShutdownHTTP]"
  have start: "demo_start = racing Serving [] False None" by (simp add: racing_defs)
  have acts: "shutdown Signal (pt_queue demo_parts) (pt_choice demo_parts) = ?all"
    by (simp add: demo_parts_def shutdown_def)
  let ?served = "racing (Stopping []) ?all True (Some HttpServing)"
  let ?asked = "(set_handler 0 (HNext demo_decoded (map to_alert (pw_Alerts demo_decoded))) ?served)
    \<lparr>sr_received := map to_alert (pw_Alerts demo_decoded) @ sr_received ?served\<rparr>"
  have "?R\<^sup>*\<^sup>* demo_start (racing Serving [] False None)" by (simp add: start)
  also have "?R (racing Serving [] False None) (racing (Stopping ?all) [] False None)"
    using main_step.signal [of "racing Serving [] False None" demo_parts]
    by (intro racing_main) (simp_all add: acts, simp add: racing_defs)
  also have "?R (racing (Stopping ?all) [] False None) (racing (Stopping [CancelIngest, ShutdownHTTP]) ([] @ [CancelInvestigation]) True None)"
    by (rule racing_act) (simp_all add: racing_defs)
  also have "?R (racing (Stopping [CancelIngest, ShutdownHTTP]) ([] @ [CancelInvestigation]) True None)
      (racing (Stopping [ShutdownHTTP]) (([] @ [CancelInvestigation]) @ [CancelIngest]) True None)"
    by (rule racing_act) (simp_all add: racing_defs)
  also have "?R (racing (Stopping [ShutdownHTTP]) (([] @ [CancelInvestigation]) @ [CancelIngest]) True None)
      (racing (Stopping []) ((([] @ [CancelInvestigation]) @ [CancelIngest]) @ [ShutdownHTTP]) True None)"
    by (rule racing_act) (simp_all add: racing_defs Shutdown_def demo_start_def start_service_def)
  also have "(racing (Stopping []) ((([] @ [CancelInvestigation]) @ [CancelIngest]) @ [ShutdownHTTP]) True None) =
      racing (Stopping []) ?all True None" by simp
  also have "?R (racing (Stopping []) ?all True None) (racing (Stopping []) ?all True (Some HttpNew))"
    using background_step.create [of "racing (Stopping []) ?all True None" demo_parts "\<lambda>_. []"]
    by (intro service_step.background) (simp_all add: racing_defs create_http_server_def, simp add: demo_parts_def)
  also have "?R (racing (Stopping []) ?all True (Some HttpNew)) ?served"
  proof (rule service_step.background)
    obtain err sv where l: "listen_http_server (\<lambda>_. None) (server_at demo_parts (\<lambda>_. []) (racing (Stopping []) ?all True (Some HttpNew))) = (err, sv)"
      by fastforce
    then have e: "err = None" "sv_httpServer sv = Some \<lparr>hs_Addr = cf_ListenAddr demo_config, hs_State = HttpServing\<rparr>"
      by (auto simp: listen_http_server_def http_listen_def racing_defs)
    show "background_step demo_parts (racing (Stopping []) ?all True (Some HttpNew)) ?served"
      using background_step.listen [OF _ _ _ l]
      by (simp add: e serving_def) (simp add: racing_defs)
  qed (simp add: racing_defs)
  also have "?R ?served ?asked"
    by (intro service_step.handler handler_step.request [OF _ _ demo_payload_dec(1)])
      (simp_all add: racing_defs serving_def demo_start_def start_service_def)
  also have "?R ?asked (?asked\<lparr>sr_main := Exited\<rparr>)"
    by (intro service_step.main main_step.exit) (simp_all add: racing_defs)
  finally show ?thesis
    by (intro exI [of _ "?asked\<lparr>sr_main := Exited\<rparr>"] conjI)
      (assumption, simp_all add: racing_defs demo_payload_dec(2) demo_start_def start_service_def)
qed


text \<open>
  C10: a request that was accepted ends: while the process lives and the database pool is open, its
  handler can take a step towards the answer, no step of any goroutine takes it back, and it needs
  at most three steps for each alert and one to answer, whatever calls of the store fail.
\<close>

theorem request_completes:
  assumes "sr_handlers w n \<noteq> HIdle" "sr_main w \<noteq> Exited" "\<not> sr_pool_closed w" "ok e (sr_store w)" "graph_order ord w"
  shows "(\<exists>w'. service_step P ok w w' \<and> handler_left (sr_handlers w' n) < handler_left (sr_handlers w n)) \<and>
    (\<forall>w'. service_step P ok w w' \<longrightarrow> handler_left (sr_handlers w' n) \<le> handler_left (sr_handlers w n))"
proof
  from handler_can_step [of w n ok e ord P, OF assms(1,3-5)] obtain w'
    where "handler_step P ok w w'" "handler_left (sr_handlers w' n) < handler_left (sr_handlers w n)" by blast
  with service_step.handler [OF assms(2)]
  show "\<exists>w'. service_step P ok w w' \<and> handler_left (sr_handlers w' n) < handler_left (sr_handlers w n)" by blast
  show "\<forall>w'. service_step P ok w w' \<longrightarrow> handler_left (sr_handlers w' n) \<le> handler_left (sr_handlers w n)"
    using handler_step_left [OF _ assms(1)] by (metis order_refl service_step_shared)
qed

theorem request_completes_witness:
  "\<exists>w'. service_step demo_parts mem_ok (set_handler 0 (HNext demo_decoded [demo_arrived]) demo_served) w' \<and>
     handler_left (sr_handlers w' 0) < 4"
proof -
  let ?w = "set_handler 0 (HNext demo_decoded [demo_arrived]) demo_served"
  have "mem_ok \<lparr>me_now = 0, me_keys = []\<rparr> (sr_store ?w)"
    by (simp add: mem_ok_def enumerates_def NewInMemoryIncidentStore_def)
  moreover have "graph_order (\<lambda>_. []) ?w" using demo_served_sel(6) [of "\<lambda>_. []"] by (simp add: graph_order_def)
  ultimately show ?thesis
    using request_completes [of ?w 0 mem_ok "\<lparr>me_now = 0, me_keys = []\<rparr>" "\<lambda>_. []" demo_parts]
    by simp
qed

end
