(* ===== verification/Queue_Delivery.thy ===== *)
theory Queue_Delivery
  imports Queue_Nats
begin

text \<open>
  The delivery of messages to the worker. The server's part is a parameter: which messages it hands out
  in a turn, which of the acknowledgements reach it, and what its limits discard are the choices of a
  step. What the steps respect is what JetStream documents of a durable consumer with explicit
  acknowledgement, the kind of \<open>ingest_consumer\<close>: it hands out stored messages whose acknowledgement
  has not arrived, to one that was handed out \<open>MaxDeliver\<close> times no more, and at most as many at a time
  as \<open>Fetch\<close> asks for. What is done to the messages of a turn is \<open>process_fetch\<close>, the loop's own code.
\<close>

section \<open>Turns of the loop\<close>

record delivery =
  dl_stream :: "message list"  \<comment> \<open>what was published; a message's number is its position\<close>
  dl_gone :: "nat set"  \<comment> \<open>discarded by the limits of the stream\<close>
  dl_count :: "nat \<Rightarrow> nat"  \<comment> \<open>how often a message was handed out\<close>
  dl_acked :: "nat set"  \<comment> \<open>the acknowledgements that have arrived\<close>
  dl_log :: "(nat \<times> action) list"  \<comment> \<open>what the loop did to which message\<close>

definition new_delivery :: delivery where
  "new_delivery = \<lparr>dl_stream = [], dl_gone = {}, dl_count = (\<lambda>_. 0), dl_acked = {}, dl_log = []\<rparr>"

definition batchSize :: nat where
  "batchSize = 10"

definition deliverable :: "nat option \<Rightarrow> delivery \<Rightarrow> nat \<Rightarrow> bool" where
  \<comment> \<open>the first argument is \<open>MaxDeliver\<close>, None for no limit\<close>
  "deliverable md d i \<longleftrightarrow> i < length (dl_stream d) \<and> i \<notin> dl_gone d \<and> i \<notin> dl_acked d \<and>
     (case md of None \<Rightarrow> True | Some m \<Rightarrow> dl_count d i < m)"

definition turn_actions :: "handler \<Rightarrow> delivery \<Rightarrow> nat list \<Rightarrow> (nat \<times> action) list" where
  "turn_actions h d ns = zip ns (process_fetch h (Fetched (map (\<lambda>n. dl_stream d ! n) ns)))"

definition after_turn :: "handler \<Rightarrow> nat list \<Rightarrow> nat set \<Rightarrow> delivery \<Rightarrow> delivery" where
  \<comment> \<open>the third argument: the messages whose acknowledgement arrives if it is sent\<close>
  "after_turn h ns arrives d = d
     \<lparr>dl_count := (\<lambda>n. dl_count d n + count_list ns n),
      dl_acked := dl_acked d \<union> {n \<in> arrives. \<exists>m. (n, Ack m) \<in> set (turn_actions h d ns)},
      dl_log := dl_log d @ turn_actions h d ns\<rparr>"

inductive delivery_step :: "handler \<Rightarrow> nat option \<Rightarrow> delivery \<Rightarrow> delivery \<Rightarrow> bool" for h md where
  publish: "delivery_step h md d (d\<lparr>dl_stream := dl_stream d @ [m]\<rparr>)"
| discard: "delivery_step h md d (d\<lparr>dl_gone := insert n (dl_gone d)\<rparr>)"
    if "n < length (dl_stream d)"
| turn: "delivery_step h md d (after_turn h ns arrives d)"
    if "distinct ns" and "length ns \<le> batchSize" and "\<forall>n \<in> set ns. deliverable md d n"

inductive_cases delivery_stepE: "delivery_step h md d d'"

abbreviation delivery_run :: "handler \<Rightarrow> nat option \<Rightarrow> delivery \<Rightarrow> delivery \<Rightarrow> bool" where
  "delivery_run h md \<equiv> (delivery_step h md)\<^sup>*\<^sup>*"

definition drained :: "nat option \<Rightarrow> delivery \<Rightarrow> bool" where
  \<comment> \<open>nothing is left to hand out\<close>
  "drained md d \<longleftrightarrow> (\<forall>n. \<not> deliverable md d n)"

text \<open>How a message is settled.\<close>

definition settled_as :: "handler \<Rightarrow> message \<Rightarrow> action" where
  "settled_as h m = (case h m of Some err \<Rightarrow> Nak m | None \<Rightarrow> Ack m)"

lemma process_batch_map: "process_batch h ms = map (settled_as h) ms"
  by (induction ms) (simp_all add: settled_as_def)

lemma turn_actions_map: "turn_actions h d ns = map (\<lambda>n. (n, settled_as h (dl_stream d ! n))) ns"
  by (induction ns) (simp_all add: turn_actions_def process_fetch_def process_batch_map)

lemma settled_as_ack [simp]: "settled_as h m = Ack x \<longleftrightarrow> x = m \<and> h m = None"
  by (auto simp: settled_as_def split: option.split)

section \<open>What every step keeps\<close>

definition times_logged :: "delivery \<Rightarrow> nat \<Rightarrow> nat" where
  "times_logged d n = length (filter (\<lambda>e. fst e = n) (dl_log d))"

definition delivery_inv :: "handler \<Rightarrow> nat option \<Rightarrow> delivery \<Rightarrow> bool" where
  "delivery_inv h md d \<longleftrightarrow>
     (\<forall>e \<in> set (dl_log d). fst e < length (dl_stream d) \<and> snd e = settled_as h (dl_stream d ! fst e)) \<and>
     (\<forall>n. times_logged d n = dl_count d n) \<and>
     (\<forall>n \<in> dl_acked d. \<exists>m. (n, Ack m) \<in> set (dl_log d)) \<and>
     (\<forall>m n. md = Some m \<longrightarrow> dl_count d n \<le> m)"

lemma logged_turn:
  "length (filter (\<lambda>e. fst e = n) (turn_actions h d ns)) = count_list ns n"
  by (induction ns) (auto simp: turn_actions_map)

lemma count_list_distinct: "distinct ns \<Longrightarrow> n \<in> set ns \<Longrightarrow> count_list ns n = 1"
  by (induction ns) (auto simp: count_list_0_iff)

lemma delivery_step_inv: "delivery_step h md d d' \<Longrightarrow> delivery_inv h md d \<Longrightarrow> delivery_inv h md d'"
proof (induction rule: delivery_step.induct)
  case (publish d m)
  then show ?case by (auto simp: delivery_inv_def times_logged_def nth_append less_Suc_eq)
next
  case (discard n d)
  then show ?case by (simp add: delivery_inv_def times_logged_def)
next
  case (turn ns d arrives)
  let ?d = "after_turn h ns arrives d"
  have "\<forall>e \<in> set (dl_log ?d). fst e < length (dl_stream ?d) \<and> snd e = settled_as h (dl_stream ?d ! fst e)"
    using turn by (auto simp: delivery_inv_def after_turn_def turn_actions_map deliverable_def)
  moreover have "times_logged ?d n = dl_count ?d n" for n
    using turn by (simp add: delivery_inv_def times_logged_def after_turn_def logged_turn)
  moreover have "\<forall>n \<in> dl_acked ?d. \<exists>m. (n, Ack m) \<in> set (dl_log ?d)"
    using turn by (fastforce simp: delivery_inv_def after_turn_def)
  moreover have "dl_count ?d n \<le> m" if "md = Some m" for n m
  proof (cases "n \<in> set ns")
    case True
    with turn(1) have "count_list ns n = 1" by (rule count_list_distinct)
    with True turn(3) that show ?thesis by (auto simp: after_turn_def deliverable_def)
  next
    case False
    then have "count_list ns n = 0" by (simp add: count_list_0_iff)
    with turn(4) that show ?thesis by (auto simp: delivery_inv_def after_turn_def)
  qed
  ultimately show ?case unfolding delivery_inv_def by blast
qed

lemma new_delivery_inv: "delivery_inv h md new_delivery"
  by (simp add: new_delivery_def delivery_inv_def times_logged_def)

lemma delivery_run_inv_from: "delivery_run h md d d' \<Longrightarrow> delivery_inv h md d \<Longrightarrow> delivery_inv h md d'"
  by (induction rule: rtranclp_induct) (auto intro: delivery_step_inv)

lemmas delivery_run_inv = delivery_run_inv_from [OF _ new_delivery_inv]

lemma inv_logged:
  assumes "delivery_inv h md d" "(n, a) \<in> set (dl_log d)"
  shows "n < length (dl_stream d)" "a = settled_as h (dl_stream d ! n)"
  using assms by (auto simp: delivery_inv_def)

lemma inv_acked:
  assumes "delivery_inv h md d" "n \<in> dl_acked d"
  shows "n < length (dl_stream d)" "h (dl_stream d ! n) = None" "(n, Ack (dl_stream d ! n)) \<in> set (dl_log d)"
proof -
  from assms obtain m where m: "(n, Ack m) \<in> set (dl_log d)" by (auto simp: delivery_inv_def)
  from inv_logged [OF assms(1) m] m show "n < length (dl_stream d)" "h (dl_stream d ! n) = None"
    "(n, Ack (dl_stream d ! n)) \<in> set (dl_log d)" by (auto simp: eq_commute [of "Ack _"])
qed

lemma inv_count: "delivery_inv h md d \<Longrightarrow> times_logged d n = dl_count d n"
  by (simp add: delivery_inv_def)

lemma logged_iff: "0 < times_logged d n \<longleftrightarrow> (\<exists>a. (n, a) \<in> set (dl_log d))"
  by (force simp: times_logged_def filter_empty_conv)

text \<open>A message whose acknowledgement has arrived is not handed out again.\<close>

lemma acked_step:
  "delivery_step h md d d' \<Longrightarrow> n \<in> dl_acked d \<Longrightarrow> n \<in> dl_acked d' \<and> dl_count d' n = dl_count d n"
  by (erule delivery_stepE) (auto simp: after_turn_def deliverable_def count_list_0_iff)

lemma acked_run:
  "delivery_run h md d d' \<Longrightarrow> n \<in> dl_acked d \<Longrightarrow> n \<in> dl_acked d' \<and> dl_count d' n = dl_count d n"
  by (induction rule: rtranclp_induct) (auto dest: acked_step)

text \<open>
  The log is what the processing loop does: run on the fetches of the turns, until the subscription ends,
  the loop returns it.
\<close>

lemma turn_is_fetch: "map snd (turn_actions h d ns) = process_fetch h (Fetched (map (\<lambda>n. dl_stream d ! n) ns))"
  by (simp add: turn_actions_map process_fetch_def process_batch_map)

lemma log_is_fetches:
  "delivery_run h md new_delivery d \<Longrightarrow> \<exists>fs. map snd (dl_log d) = process_fetches h fs"
proof (induction rule: rtranclp_induct)
  case base
  show ?case by (intro exI [of _ "[]"]) (simp add: new_delivery_def process_fetches_def)
next
  case (step d d')
  then obtain fs where fs: "map snd (dl_log d) = process_fetches h fs" by blast
  from step.hyps(2) show ?case
  proof (cases rule: delivery_step.cases)
    case (turn ns arrives)
    with fs show ?thesis
      by (intro exI [of _ "fs @ [Fetched (map (\<lambda>n. dl_stream d ! n) ns)]"])
        (simp add: after_turn_def turn_is_fetch process_fetches_def)
  qed (use fs in auto)
qed

lemma log_is_loop:
  assumes "delivery_run h md new_delivery d"
  shows "\<exists>sub. processMessages h sub 0 = Some (map snd (dl_log d))"
proof -
  from log_is_fetches [OF assms] obtain fs where fs: "map snd (dl_log d) = process_fetches h fs" by blast
  let ?sub = "\<lambda>n. if n < length fs then Some (fs ! n) else None"
  have "processMessages h ?sub 0 = Some (process_fetches h (map (\<lambda>j. the (?sub (0 + j))) [0..<length fs]))"
    by (rule processMessages_stops) simp_all
  also have "map (\<lambda>j. the (?sub (0 + j))) [0..<length fs] = fs" by (rule nth_equalityI) simp_all
  finally show ?thesis unfolding fs by blast
qed

section \<open>Every message is settled\<close>

definition hand_out :: "handler \<Rightarrow> nat option \<Rightarrow> delivery \<Rightarrow> delivery \<Rightarrow> bool" where
  \<comment> \<open>a turn that fetches at least one message\<close>
  "hand_out h md d d' \<longleftrightarrow> (\<exists>ns arrives. ns \<noteq> [] \<and> distinct ns \<and> length ns \<le> batchSize \<and>
     (\<forall>n \<in> set ns. deliverable md d n) \<and> d' = after_turn h ns arrives d)"

lemma hand_out_step: "hand_out h md d d' \<Longrightarrow> delivery_step h md d d'"
  by (auto simp: hand_out_def intro: delivery_step.turn)

lemma hand_outs_run: "(hand_out h md ^^ k) d d' \<Longrightarrow> delivery_run h md d d'"
  by (rule relpowp_imp_rtranclp [THEN rtranclp_mono [THEN predicate2D, rotated]]) (auto intro: hand_out_step)

lemma hand_out_same: "hand_out h md d d' \<Longrightarrow> dl_stream d' = dl_stream d \<and> dl_gone d' = dl_gone d"
  by (auto simp: hand_out_def after_turn_def)

lemma hand_outs_same: "(hand_out h md ^^ k) d d' \<Longrightarrow> dl_stream d' = dl_stream d \<and> dl_gone d' = dl_gone d"
  by (induction k arbitrary: d') (auto dest: hand_out_same)

lemma hand_out_one:
  assumes "deliverable md d n"
  shows "hand_out h md d (after_turn h [n] arrives d)"
  unfolding hand_out_def using assms by (intro exI [of _ "[n]"] exI [of _ arrives]) (simp add: batchSize_def)

lemma drained_iff: "drained md d \<longleftrightarrow> (\<nexists>d'. hand_out h md d d')"
proof
  assume "drained md d"
  then show "\<nexists>d'. hand_out h md d d'" unfolding hand_out_def drained_def by (metis list.set_intros(1) neq_Nil_conv)
qed (unfold drained_def, blast intro: hand_out_one)

definition deliveries_left :: "nat \<Rightarrow> delivery \<Rightarrow> nat" where
  "deliveries_left m d = (\<Sum>n < length (dl_stream d). m - dl_count d n)"

lemma hand_out_left: "hand_out h (Some m) d d' \<Longrightarrow> deliveries_left m d' < deliveries_left m d"
proof -
  assume "hand_out h (Some m) d d'"
  then obtain ns arrives where ns: "ns \<noteq> []" "\<forall>n \<in> set ns. deliverable (Some m) d n" "d' = after_turn h ns arrives d"
    by (auto simp: hand_out_def)
  then obtain n where n: "n \<in> set ns" by (cases ns) auto
  have "n < length (dl_stream d)" "dl_count d n < m" using ns n by (auto simp: deliverable_def)
  moreover have "0 < count_list ns n" using n by (simp add: count_list_0_iff neq0_conv [symmetric])
  moreover have "dl_stream (after_turn h ns arrives d) = dl_stream d" by (simp add: after_turn_def)
  ultimately show ?thesis
    unfolding deliveries_left_def ns(3)
    by (simp only:, intro sum_strict_mono_ex1) (auto simp: after_turn_def intro!: bexI [of _ n])
qed

lemma hand_outs_left: "(hand_out h (Some m) ^^ k) d d' \<Longrightarrow> deliveries_left m d' + k \<le> deliveries_left m d"
proof (induction k arbitrary: d')
  case (Suc k)
  then obtain x where "(hand_out h (Some m) ^^ k) d x" "hand_out h (Some m) x d'" by auto
  with Suc.IH [of x] hand_out_left [of h m x d'] show ?case by simp
qed simp

lemma deliveries_left_bound: "deliveries_left m d \<le> m * length (dl_stream d)"
proof -
  have "deliveries_left m d \<le> (\<Sum>n < length (dl_stream d). m)" unfolding deliveries_left_def by (rule sum_mono) simp
  then show ?thesis by (simp add: mult.commute)
qed

lemma drained_exhausted:
  assumes "delivery_inv h md d" "drained md d" "n < length (dl_stream d)" "n \<notin> dl_gone d" "n \<notin> dl_acked d"
  shows "md = Some (times_logged d n)"
proof -
  from assms(2) have "\<not> deliverable md d n" by (simp add: drained_def)
  with assms(3-5) obtain m where m: "md = Some m" "m \<le> dl_count d n"
    by (cases md) (auto simp: deliverable_def)
  with assms(1) show ?thesis by (auto simp: delivery_inv_def intro: le_antisym)
qed

lemma drained_logged:
  assumes "delivery_inv h md d" "drained md d" "n < length (dl_stream d)" "n \<notin> dl_gone d" "md \<noteq> Some 0"
  shows "(n, settled_as h (dl_stream d ! n)) \<in> set (dl_log d)"
proof (cases "n \<in> dl_acked d")
  case True
  with inv_acked [of h md d n] assms(1) show ?thesis by (simp add: settled_as_def)
next
  case False
  with drained_exhausted [OF assms(1-4)] assms(5) have "0 < times_logged d n" by simp
  then obtain a where "(n, a) \<in> set (dl_log d)" by (auto simp: logged_iff)
  with inv_logged [OF assms(1) this] show ?thesis by simp
qed

lemma drained_settled:
  assumes "delivery_inv h (Some m) d" "drained (Some m) d" "n < length (dl_stream d)" "n \<notin> dl_gone d" "0 < m"
  shows "if h (dl_stream d ! n) = None then (n, Ack (dl_stream d ! n)) \<in> set (dl_log d) else times_logged d n = m"
proof (cases "h (dl_stream d ! n) = None")
  case True
  with drained_logged [OF assms(1-4)] assms(5) show ?thesis by (simp add: settled_as_def)
next
  case False
  then have "n \<notin> dl_acked d" using inv_acked(2) [OF assms(1), of n] by auto
  with drained_exhausted [OF assms(1-4)] False show ?thesis by auto
qed

text \<open>
  C20: at least once: with a limit \<open>m\<close> of deliveries, however the server chooses what to hand out and
  whichever acknowledgements get lost, at most \<open>m\<close> turns per stored message hand out something, and
  when no such turn is left every message that was not discarded has been acknowledged by the loop if
  the handler accepts it, and given back \<open>m\<close> times otherwise.
\<close>

theorem delivered_at_least_once:
  assumes "delivery_run h (Some m) new_delivery d" "0 < m" "(hand_out h (Some m) ^^ k) d d'"
  shows "k \<le> m * length (dl_stream d) \<and>
    ((\<nexists>d''. hand_out h (Some m) d' d'') \<longrightarrow>
      (\<forall>n < length (dl_stream d). n \<notin> dl_gone d \<longrightarrow>
        (if h (dl_stream d ! n) = None then (n, Ack (dl_stream d ! n)) \<in> set (dl_log d')
         else times_logged d' n = m)))"
proof -
  have inv: "delivery_inv h (Some m) d'"
    using delivery_run_inv_from [OF hand_outs_run [OF assms(3)]] delivery_run_inv [OF assms(1)] by blast
  from hand_outs_left [OF assms(3)] deliveries_left_bound [of m d] have "k \<le> m * length (dl_stream d)" by linarith
  moreover have "if h (dl_stream d ! n) = None then (n, Ack (dl_stream d ! n)) \<in> set (dl_log d') else times_logged d' n = m"
    if "\<nexists>d''. hand_out h (Some m) d' d''" "n < length (dl_stream d)" "n \<notin> dl_gone d" for n
  proof -
    have same: "dl_stream d' = dl_stream d" "dl_gone d' = dl_gone d" using hand_outs_same [OF assms(3)] by simp_all
    from that(1) have "drained (Some m) d'" by (simp add: drained_iff [of "Some m" d' h])
    from drained_settled [OF inv this, of n] that(2,3) assms(2) show ?thesis unfolding same by simp
  qed
  ultimately show ?thesis by blast
qed

section \<open>The limit that applies\<close>

definition delivery_limit :: "nat option \<Rightarrow> nats_event list \<Rightarrow> nat option" where
  \<comment> \<open>the first argument is the limit of the consumer that \<open>PullSubscribe\<close> finds or creates\<close>
  "delivery_limit bound evs =
     (case concat (map (\<lambda>ev. case ev of ConsumerAdded c \<Rightarrow> [c] | _ \<Rightarrow> []) evs) of
        [] \<Rightarrow> bound
      | c # _ \<Rightarrow> Some (nat (cn_MaxDeliver c)))"

lemma delivery_limit_applied:
  "Subscribe e q subject = (None, evs) \<Longrightarrow>
     delivery_limit bound evs = (if ne_pull_subscribe e 0 subject = None then bound else Some 10)"
  by (auto simp: Subscribe_def delivery_limit_def ingest_consumer_def split: if_splits option.splits)

lemma rejected_again:
  assumes "deliverable None d n" "h (dl_stream d ! n) \<noteq> None"
  shows "\<exists>d'. (hand_out h None ^^ k) d d' \<and> deliverable None d' n \<and> h (dl_stream d' ! n) \<noteq> None \<and>
    dl_count d' n = dl_count d n + k"
proof (induction k)
  case (Suc k)
  then obtain d' where d': "(hand_out h None ^^ k) d d'" "deliverable None d' n" "h (dl_stream d' ! n) \<noteq> None"
    "dl_count d' n = dl_count d n + k" by blast
  let ?d = "after_turn h [n] {} d'"
  have "(hand_out h None ^^ Suc k) d ?d" using d'(1) hand_out_one [OF d'(2)] by auto
  moreover have "deliverable None ?d n" "h (dl_stream ?d ! n) \<noteq> None" "dl_count ?d n = dl_count d n + Suc k"
    using d'(2-4) by (auto simp: after_turn_def deliverable_def)
  ultimately show ?case by blast
qed (use assms in auto)

text \<open>
  C21: which limit of deliveries applies, and what it means for a message that the handler rejects. The
  code's limit of 10 applies when the first \<open>PullSubscribe\<close> fails, so that the code adds the consumer
  itself; when it succeeds, the limit is that of the consumer it binds, which may be one that an earlier
  start left, or a new one without a limit. A rejected message is never acknowledged; and where the limit
  is none it is never done with: until the stream discards it the server may hand it out again in any
  later state, and it can be given back any number of times more.
\<close>

theorem rejected_message_never_settled:
  assumes "Subscribe e q subject = (None, evs)"
    and "delivery_run h (delivery_limit bound evs) new_delivery d" "n < length (dl_stream d)"
    and "h (dl_stream d ! n) \<noteq> None" "n \<notin> dl_gone d"
  shows "delivery_limit bound evs = (if ne_pull_subscribe e 0 subject = None then bound else Some 10) \<and>
    n \<notin> dl_acked d \<and>
    (delivery_limit bound evs = None \<longrightarrow> deliverable None d n \<and>
      (\<forall>k. \<exists>d'. (hand_out h None ^^ k) d d' \<and> times_logged d' n = times_logged d n + k))"
proof -
  let ?md = "delivery_limit bound evs"
  have inv: "delivery_inv h ?md d" by (rule delivery_run_inv [OF assms(2)])
  have na: "n \<notin> dl_acked d" using inv_acked(2) [OF inv, of n] assms(4) by blast
  have "deliverable None d n \<and> (\<exists>d'. (hand_out h None ^^ k) d d' \<and> times_logged d' n = times_logged d n + k)"
    if md: "?md = None" for k
  proof -
    have del: "deliverable None d n" using assms(3,5) na by (simp add: deliverable_def)
    from rejected_again [of d n h k, OF del assms(4)] obtain d'
      where d': "(hand_out h None ^^ k) d d'" "dl_count d' n = dl_count d n + k" by blast
    have "delivery_inv h None d'" using delivery_run_inv_from [OF hand_outs_run [OF d'(1)]] inv md by simp
    from inv_count [OF this] inv_count [OF inv] d' del show ?thesis by auto
  qed
  with na delivery_limit_applied [OF assms(1)] show ?thesis by blast
qed

section \<open>A demonstration\<close>

definition demo_stored :: delivery where
  \<comment> \<open>a message that the worker accepts, and one that is not JSON\<close>
  "demo_stored = new_delivery\<lparr>dl_stream := [Inr (JObj []), Inl json_error]\<rparr>"

lemma demo_stored_run: "delivery_run h md new_delivery demo_stored"
proof -
  let ?x = "new_delivery\<lparr>dl_stream := dl_stream new_delivery @ [Inr (JObj [])]\<rparr>"
  let ?y = "?x\<lparr>dl_stream := dl_stream ?x @ [Inl json_error]\<rparr>"
  have "delivery_step h md new_delivery ?x" "delivery_step h md ?x ?y" by (rule delivery_step.publish)+
  moreover have "?y = demo_stored" by (simp add: demo_stored_def new_delivery_def)
  ultimately show ?thesis by (metis r_into_rtranclp rtranclp.rtrancl_into_rtrancl)
qed

lemma demo_handled: "handleMessage (Inr (JObj [])) = None" "handleMessage (Inl err) = Some err"
  by (simp_all add: handleMessage_def dec_map_def)

lemmas demo_delivery = demo_stored_def new_delivery_def deliverable_def after_turn_def turn_actions_map settled_as_def
  demo_handled times_logged_def

definition demo_first :: delivery where
  "demo_first = after_turn handleMessage [0, 1] {0} demo_stored"

definition demo_second :: delivery where
  "demo_second = after_turn handleMessage [1] {} demo_first"

lemma demo_turns:
  "hand_out handleMessage (Some 2) demo_stored demo_first" "hand_out handleMessage (Some 2) demo_first demo_second"
proof -
  show "hand_out handleMessage (Some 2) demo_stored demo_first"
    unfolding hand_out_def demo_first_def
    by (intro exI [of _ "[0, 1]"] exI [of _ "{0}"]) (simp add: demo_delivery batchSize_def)
  show "hand_out handleMessage (Some 2) demo_first demo_second"
    unfolding hand_out_def demo_second_def
    by (intro exI [of _ "[1]"] exI [of _ "{}"]) (simp add: demo_first_def demo_delivery batchSize_def)
qed

theorem delivered_at_least_once_witness:
  "(0, Ack (Inr (JObj []))) \<in> set (dl_log demo_second) \<and> times_logged demo_second 1 = 2"
proof -
  have "(hand_out handleMessage (Some 2) ^^ 2) demo_stored demo_second"
    using demo_turns by (auto simp: numeral_2_eq_2)
  from delivered_at_least_once [OF demo_stored_run _ this]
  have "(\<nexists>d''. hand_out handleMessage (Some 2) demo_second d'') \<longrightarrow>
      (\<forall>n < length (dl_stream demo_stored). n \<notin> dl_gone demo_stored \<longrightarrow>
        (if handleMessage (dl_stream demo_stored ! n) = None
         then (n, Ack (dl_stream demo_stored ! n)) \<in> set (dl_log demo_second) else times_logged demo_second n = 2))" by simp
  moreover have "\<nexists>d''. hand_out handleMessage (Some 2) demo_second d''"
    unfolding drained_iff [symmetric] drained_def by (auto simp: demo_second_def demo_first_def demo_delivery)
  moreover have len: "length (dl_stream demo_stored) = 2" "dl_gone demo_stored = {}"
    by (simp_all add: demo_stored_def new_delivery_def)
  ultimately have all: "if handleMessage (dl_stream demo_stored ! n) = None
      then (n, Ack (dl_stream demo_stored ! n)) \<in> set (dl_log demo_second) else times_logged demo_second n = 2" if "n < 2" for n
    unfolding len using that by blast
  from all [of 0] all [of 1] show ?thesis by (simp add: demo_stored_def demo_handled)
qed

definition demo_nats_env :: nats_env where
  "demo_nats_env = \<lparr>ne_connect = None, ne_jetstream = None, ne_stream_info = None,
     ne_add_stream = (\<lambda>c. None), ne_publish = (\<lambda>s j. None), ne_pull_subscribe = (\<lambda>n s. None),
     ne_add_consumer = (\<lambda>c. None)\<rparr>"

theorem rejected_message_never_settled_witness:
  "\<exists>d'. (hand_out handleMessage None ^^ 1000) demo_stored d' \<and> times_logged d' 1 = 1000"
proof -
  let ?q = "\<lparr>nq_js = True, nq_nc = True, nq_url = ''u''\<rparr>"
  have s: "Subscribe demo_nats_env ?q ''alerts.ingest'' = (None, [])" "ne_pull_subscribe demo_nats_env 0 ''alerts.ingest'' = None"
    by (simp_all add: Subscribe_def demo_nats_env_def)
  have n: "1 < length (dl_stream demo_stored)" "handleMessage (dl_stream demo_stored ! 1) \<noteq> None" "1 \<notin> dl_gone demo_stored"
    by (simp_all add: demo_stored_def new_delivery_def demo_handled)
  have md: "delivery_limit None [] = None" by (simp add: delivery_limit_def)
  from rejected_message_never_settled [where h = handleMessage and d = demo_stored and n = 1 and bound = None,
      OF s(1) demo_stored_run n] md
  have "\<exists>d'. (hand_out handleMessage None ^^ 1000) demo_stored d' \<and> times_logged d' 1 = times_logged demo_stored 1 + 1000"
    by blast
  then show ?thesis by (simp add: demo_stored_def new_delivery_def times_logged_def)
qed

end
