(* ===== verification/Service_Delivery.thy ===== *)
theory Service_Delivery
  imports Service_Runs Queue_Delivery
begin

text \<open>
  From the webhook to the worker: what the process publishes, in any run, and what becomes of it when
  the consumer delivers it.
\<close>

section \<open>What the process publishes\<close>

lemma kagent_sends: "InvestigateAndPlan e c req = (r, tr) \<Longrightarrow> ef \<in> set tr \<Longrightarrow> \<not> published ef"
  using InvestigateAndPlan_effects [of e c req] by (auto simp: published_def)

lemma slack_sends:
  "ef \<in> set (snd (PostMessage e c text)) \<Longrightarrow> \<not> published ef"
  "ef \<in> set (snd (PostRCA e c inc r pc h)) \<Longrightarrow> \<not> published ef"
  by (auto dest: slack_effects simp: published_def)

lemma argo_sends: "CreateWorkflowForDAG m e c d = (r, tr) \<Longrightarrow> ef \<in> set tr \<Longrightarrow> \<not> published ef"
  by (auto simp: CreateWorkflowForDAG_def published_def Let_def split: if_splits option.splits)

lemma execute_sends: "execute_plan en e i inc result = (r, tr) \<Longrightarrow> ef \<in> set tr \<Longrightarrow> \<not> published ef"
  by (auto simp: execute_plan_def Let_def dest: slack_sends argo_sends split: prod.splits option.splits if_splits)

lemma investigation_sends: "ef \<in> set (snd (InvestigateIncident en e s i)) \<Longrightarrow> \<not> published ef"
  by (auto simp: InvestigateIncident_def reject_plan_def dest: slack_sends kagent_sends execute_sends
      split: sum.splits option.splits prod.splits)

text \<open>A batch of alerts that were received.\<close>

definition received_batch :: "alert list \<Rightarrow> json \<Rightarrow> bool" where
  "received_batch R j \<longleftrightarrow> handleMessage (Inr j) = None \<and>
     (\<exists>q. dec_webhook_payload j = Some q \<and> set (map to_alert (pw_Alerts q)) \<subseteq> set R)"

definition sends_batches :: "alert list \<Rightarrow> effect list \<Rightarrow> bool" where
  "sends_batches R tr \<longleftrightarrow> (\<forall>subject j. Published subject j \<in> set tr \<longrightarrow> subject = ''alerts.ingest'' \<and> received_batch R j)"

fun serves_payload :: "alert list \<Rightarrow> handler_state \<Rightarrow> bool" where
  "serves_payload R HIdle \<longleftrightarrow> True"
| "serves_payload R (HNext p as) \<longleftrightarrow> set (map to_alert (pw_Alerts p)) \<subseteq> set R"
| "serves_payload R (HFound p as a now found) \<longleftrightarrow> set (map to_alert (pw_Alerts p)) \<subseteq> set R"
| "serves_payload R (HReady p as a now found x) \<longleftrightarrow> set (map to_alert (pw_Alerts p)) \<subseteq> set R"

definition publishing_inv :: "('s, 'e) service \<Rightarrow> bool" where
  "publishing_inv w \<longleftrightarrow> (\<forall>n. serves_payload (sr_received w) (sr_handlers w n)) \<and>
     sends_batches (sr_received w) (sr_trace w) \<and> (\<forall>ef \<in> set (pending (sr_loop w)). \<not> published ef)"

lemma serves_payload_mono: "serves_payload R h \<Longrightarrow> set R \<subseteq> set R' \<Longrightarrow> serves_payload R' h"
  by (cases h) auto

lemma sends_batches_mono: "sends_batches R tr \<Longrightarrow> set R \<subseteq> set R' \<Longrightarrow> sends_batches R' tr"
  unfolding sends_batches_def received_batch_def by (meson subset_trans)

lemma sends_batches_append: "sends_batches R (tr @ tr') \<longleftrightarrow> sends_batches R tr \<and> sends_batches R tr'"
  by (auto simp: sends_batches_def)

lemma publish_batch_received:
  assumes "Published subject j \<in> set (publish_batch sv e p as)" "set as \<subseteq> set R"
  shows "subject = ''alerts.ingest'' \<and> received_batch R j"
proof -
  from assms(1) have j: "subject = ''alerts.ingest''" "j = batch_json p as (se_now e)" and ok: "list_all alert_marshals as"
    by (auto simp: publish_batch_def Publish_def split: option.splits if_splits)
  from ok have "map to_alert (map payload_of as) = as" by (induction as) (simp_all add: to_alert_payload_of)
  moreover from dec_batch [of p as "se_now e"] obtain q
    where q: "dec_webhook_payload j = Some q" "pw_Alerts q = map payload_of as" by (auto simp: j)
  ultimately have "set (map to_alert (pw_Alerts q)) \<subseteq> set R" using assms(2) by simp
  with q(1) j show ?thesis by (auto simp: received_batch_def handleMessage_batch)
qed

lemma handler_step_publishing:
  assumes "handler_step P ok w w'" "publishing_inv w"
  shows "publishing_inv w'"
  using assms(1)
proof (cases rule: handler_step.cases)
  case (request n j p)
  let ?R = "map to_alert (pw_Alerts p) @ sr_received w"
  have "serves_payload ?R (sr_handlers w m)" "sends_batches ?R (sr_trace w)" for m
    using assms(2) unfolding publishing_inv_def by (auto intro: serves_payload_mono sends_batches_mono)
  with request assms(2) show ?thesis by (auto simp: publishing_inv_def)
next
  case (respond n p ord e)
  from respond(2) assms(2) have R: "set (map to_alert (pw_Alerts p)) \<subseteq> set (sr_received w)"
    unfolding publishing_inv_def by (metis serves_payload.simps(2))
  have "sends_batches (sr_received w) (publish_batch (server_at P ord w) e p (map to_alert (pw_Alerts p)))"
    unfolding sends_batches_def using publish_batch_received [OF _ R] by blast
  with respond assms(2) show ?thesis
    by (auto simp: publishing_inv_def sends_batches_append sends_batches_def)
next
  case (search n p a as e found now)
  with assms(2) have "serves_payload (sr_received w) (HNext p (a # as))" by (metis publishing_inv_def)
  with search assms(2) show ?thesis by (auto simp: publishing_inv_def)
next
  case (search_failed n p a as e err)
  with assms(2) have "serves_payload (sr_received w) (HNext p (a # as))" by (metis publishing_inv_def)
  with search_failed assms(2) show ?thesis by (auto simp: publishing_inv_def)
next
  case (prepare n p as a now found ord t)
  with assms(2) have "serves_payload (sr_received w) (HFound p as a now found)" by (metis publishing_inv_def)
  with prepare assms(2) show ?thesis by (auto simp: publishing_inv_def)
next
  case (save n p as a now found x e r s')
  with assms(2) have "serves_payload (sr_received w) (HReady p as a now found x)" by (metis publishing_inv_def)
  with save assms(2) show ?thesis by (auto simp: publishing_inv_def)
qed

lemma loop_step_publishing:
  assumes "loop_step P ok w w'" "publishing_inv w"
  shows "publishing_inv w'"
  using assms(1)
proof (cases rule: loop_step.cases)
  case (investigate x incs e)
  with assms(2) show ?thesis by (auto simp: publishing_inv_def dest: investigation_sends)
next
  case (send ef tr incs)
  with assms(2) show ?thesis
    by (auto simp: publishing_inv_def sends_batches_append sends_batches_def published_def)
qed (use assms(2) in \<open>auto simp: publishing_inv_def\<close>)

lemma service_step_publishing:
  assumes "service_step P ok w w'" "publishing_inv w"
  shows "publishing_inv w'"
  using assms(1)
proof cases
  case background
  with assms(2) show ?thesis by (simp add: publishing_inv_def background_step_frame)
next
  case main
  with assms(2) show ?thesis by (simp add: publishing_inv_def main_step_frame)
qed (use assms(2) handler_step_publishing loop_step_publishing in blast)+

lemma service_run_publishing:
  "service_run P ok (start_service P init s) w \<Longrightarrow> publishing_inv w"
proof (induction rule: run_induct)
  case base
  show ?case by (simp add: publishing_inv_def start_service_def sends_batches_def)
qed (rule service_step_publishing)

section \<open>What becomes of it\<close>

text \<open>
  C19: from the webhook to the worker: take any run of the process and any run of the consumer over
  messages that the process published. Each of them is a batch of alerts that were received, the worker
  gives none of them back, and once the consumer has nothing left to hand out the worker has
  acknowledged every one that the stream has not discarded.
\<close>

theorem published_batches_processed:
  assumes "service_run P ok (start_service P init s) w"
    and "delivery_run handleMessage md new_delivery d"
    and "\<forall>m \<in> set (dl_stream d). \<exists>subject j. m = Inr j \<and> Published subject j \<in> set (sr_trace w)"
  shows "(\<forall>m \<in> set (dl_stream d). \<exists>j q. m = Inr j \<and> dec_webhook_payload j = Some q \<and>
      set (map to_alert (pw_Alerts q)) \<subseteq> set (sr_received w)) \<and>
    (\<forall>n m. (n, Nak m) \<notin> set (dl_log d)) \<and>
    (drained md d \<and> md \<noteq> Some 0 \<longrightarrow>
      (\<forall>n < length (dl_stream d). n \<notin> dl_gone d \<longrightarrow> (n, Ack (dl_stream d ! n)) \<in> set (dl_log d)))"
proof -
  have inv: "delivery_inv handleMessage md d" by (rule delivery_run_inv [OF assms(2)])
  have batch: "\<exists>j. m = Inr j \<and> received_batch (sr_received w) j" if "m \<in> set (dl_stream d)" for m
    using assms(3) that service_run_publishing [OF assms(1)] by (fastforce simp: publishing_inv_def sends_batches_def)
  have ok: "settled_as handleMessage (dl_stream d ! n) = Ack (dl_stream d ! n)" if "n < length (dl_stream d)" for n
    using batch [OF nth_mem [OF that]] by (auto simp: received_batch_def settled_as_def)
  have "(n, Nak m) \<notin> set (dl_log d)" for n m
    using inv_logged [OF inv, of n "Nak m"] ok [of n] by auto
  moreover have "(n, Ack (dl_stream d ! n)) \<in> set (dl_log d)"
    if "drained md d" "md \<noteq> Some 0" "n < length (dl_stream d)" "n \<notin> dl_gone d" for n
    using drained_logged [OF inv that(1,3,4,2)] ok [OF that(3)] by simp
  ultimately show ?thesis using batch by (fastforce simp: received_batch_def)
qed

definition demo_queue_parts :: "(mem_store, mem_env, unit) parts" where
  "demo_queue_parts = demo_parts\<lparr>pt_queue := Some \<lparr>nq_js = True, nq_nc = True, nq_url = ''u''\<rparr>\<rparr>"

definition demo_batch :: json where
  "demo_batch = batch_json demo_decoded [demo_arrived] 0"

lemma demo_batch_published:
  "\<exists>w. service_run demo_queue_parts mem_ok
      (start_service demo_queue_parts (Some [], NewClient []) NewInMemoryIncidentStore) w \<and>
    Published ''alerts.ingest'' demo_batch \<in> set (sr_trace w)"
proof -
  let ?s = "start_service demo_queue_parts (Some [], NewClient []) NewInMemoryIncidentStore"
  let ?w = "?s\<lparr>sr_http := Some \<lparr>hs_Addr = cf_ListenAddr (pt_cfg demo_queue_parts), hs_State = HttpServing\<rparr>\<rparr>"
  let ?o = "\<lambda>_::string. []::string list" and ?e = demo_mem_server_env
  let ?sv = "server_at demo_queue_parts ?o ?w" and ?c = "correlator_at demo_queue_parts ?o ?w"
  obtain resp tr s' where h: "handleAlertmanagerWebhook ?sv ?e (sr_store ?w) (Inr demo_payload) = (resp, tr, s')"
    by (cases "handleAlertmanagerWebhook ?sv ?e (sr_store ?w) (Inr demo_payload)") auto
  have st: "sr_store ?w = NewInMemoryIncidentStore" by (simp add: start_service_def)
  have "time_marshals zero_time" by code_simp
  then have "Published ''alerts.ingest'' demo_batch \<in> set (publish_batch ?sv ?e demo_decoded [demo_arrived])"
    using time_marshals_epoch
    by (simp add: publish_batch_def demo_queue_parts_def Publish_def alert_marshals_def demo_arrived_def
        demo_mem_server_env_def demo_batch_def)
  with h have tr: "Published ''alerts.ingest'' demo_batch \<in> set tr"
    by (auto simp: handleAlertmanagerWebhook_def demo_payload_dec Let_def)
  have "service_run demo_queue_parts mem_ok ?w (?w\<lparr>sr_store := s', sr_trace := sr_trace ?w @ tr,
      sr_accepted := rev (accepted_alerts ?c (se_call ?e) 0 (sr_store ?w) (map to_alert (pw_Alerts demo_decoded))) @ sr_accepted ?w,
      sr_received := map to_alert (pw_Alerts demo_decoded) @ sr_received ?w,
      sr_ids := batch_ids ?c (se_call ?e) 0 (sr_store ?w) (map to_alert (pw_Alerts demo_decoded)) @ sr_ids ?w\<rparr>)" (is "service_run _ _ _ ?v")
  proof (rule webhook_runs [OF _ _ _ _ _ _ demo_payload_dec(1) _ demo_ids h, of 0])
    show "calls_ok mem_ok ms_incidents ?c (se_call ?e) 0 (sr_store ?w) (map to_alert (pw_Alerts demo_decoded))"
      unfolding st by (simp add: demo_payload_dec(2) demo_mem_server_env_def demo_id_call_def mem_ok_def enumerates_def
          NewInMemoryIncidentStore_def)
  qed (simp_all add: start_service_def serving_def graph_order_def)
  with serving_run have "service_run demo_queue_parts mem_ok ?s ?v" by (rule rtranclp_trans)
  moreover have "Published ''alerts.ingest'' demo_batch \<in> set (sr_trace ?v)" using tr by simp
  ultimately show ?thesis by blast
qed

theorem published_batches_processed_witness:
  "\<exists>d. delivery_run handleMessage (Some 10) new_delivery d \<and> dl_stream d = [Inr demo_batch] \<and>
     (0, Ack (Inr demo_batch)) \<in> set (dl_log d)"
proof -
  from demo_batch_published obtain w where w: "service_run demo_queue_parts mem_ok
      (start_service demo_queue_parts (Some [], NewClient []) NewInMemoryIncidentStore) w"
    "Published ''alerts.ingest'' demo_batch \<in> set (sr_trace w)" by blast
  let ?x = "new_delivery\<lparr>dl_stream := dl_stream new_delivery @ [Inr demo_batch]\<rparr>"
  let ?d = "after_turn handleMessage [0] {0} ?x"
  have h: "handleMessage (Inr demo_batch) = None" by (simp add: demo_batch_def handleMessage_batch)
  have "delivery_step handleMessage (Some 10) new_delivery ?x" by (rule delivery_step.publish)
  moreover have "delivery_step handleMessage (Some 10) ?x ?d"
    by (rule delivery_step.turn) (simp_all add: batchSize_def deliverable_def new_delivery_def)
  ultimately have run: "delivery_run handleMessage (Some 10) new_delivery ?d"
    by (metis r_into_rtranclp rtranclp.rtrancl_into_rtrancl)
  have st: "dl_stream ?d = [Inr demo_batch]" "dl_gone ?d = {}" by (simp_all add: after_turn_def new_delivery_def)
  have "drained (Some 10) ?d"
    by (simp add: drained_def deliverable_def st) (simp add: after_turn_def turn_actions_map settled_as_def h new_delivery_def)
  moreover have "\<exists>subject. Published subject demo_batch \<in> set (sr_trace w)" using w(2) by blast
  ultimately have "(0, Ack (Inr demo_batch)) \<in> set (dl_log ?d)"
    using published_batches_processed [OF w(1) run] unfolding st by simp
  with run st show ?thesis by blast
qed

end
