(* ===== verification/Store_Agreement.thy ===== *)
theory Store_Agreement
  imports Correlator_Concurrent Correlator_Sessions
begin

text \<open>
  The correlator over the in-memory store and over PostgreSQL, side by side. The comparison is made once
  for any two stores that meet the contract and whose saves add no fingerprints of their own
  (\<open>store_pair\<close>), and interpreted on the two.
\<close>

section \<open>Two stores\<close>

text \<open>
  When the incidents \<open>x\<close> of the one and \<open>y\<close> of the other are alike, and when two incidents about to be
  saved are. The other store may keep times at its resolution and versions in 32 bits. What is not
  compared: the time of the last update, which each store sets in its own way, and the contents of the
  alerts, of which PostgreSQL keeps one for a fingerprint and the memory all.
\<close>

definition alike :: "(time \<Rightarrow> time) \<Rightarrow> incident \<Rightarrow> incident \<Rightarrow> bool" where
  "alike rt x y \<longleftrightarrow> persisted rt x y \<and> fingerprints y \<subseteq> fingerprints x \<and>
     inc_CreatedAt y = rt (inc_CreatedAt x) \<and> inc_FirstAlertAt y = rt (inc_FirstAlertAt x) \<and>
     inc_CorrelationVersion y = wrap32 (inc_CorrelationVersion x)"

definition saved_alike :: "(time \<Rightarrow> time) \<Rightarrow> incident \<Rightarrow> incident \<Rightarrow> bool" where
  "saved_alike rt x y \<longleftrightarrow> persisted (\<lambda>t. t) x y \<and> fingerprints y \<subseteq> fingerprints x \<and>
     rt (inc_CreatedAt y) = rt (inc_CreatedAt x) \<and> rt (inc_FirstAlertAt y) = rt (inc_FirstAlertAt x) \<and>
     wrap32 (inc_CorrelationVersion y) = wrap32 (inc_CorrelationVersion x)"

definition kept :: "(time \<Rightarrow> time) \<Rightarrow> (int \<Rightarrow> int) \<Rightarrow> incident option \<Rightarrow> incident \<Rightarrow> incident \<Rightarrow> bool" where
  \<comment> \<open>what a save of \<open>inc\<close> over \<open>old\<close> keeps of it in \<open>x\<close>\<close>
  "kept rt ver old inc x \<longleftrightarrow>
     fingerprints x \<subseteq> fingerprints inc \<union> (case old of None \<Rightarrow> {} | Some y \<Rightarrow> fingerprints y) \<and>
     inc_CreatedAt x = (case old of None \<Rightarrow> rt (inc_CreatedAt inc) | Some y \<Rightarrow> inc_CreatedAt y) \<and>
     inc_FirstAlertAt x = rt (inc_FirstAlertAt inc) \<and> inc_CorrelationVersion x = ver (inc_CorrelationVersion inc)"

lemma alike_fields:
  assumes "alike rt x y"
  shows "inc_ID y = inc_ID x" "unresolved_with_key k y = unresolved_with_key k x" "fingerprints y = fingerprints x"
    "inc_LastAlertAt y = rt (inc_LastAlertAt x)" "inc_CreatedAt y = rt (inc_CreatedAt x)"
  using assms by (auto simp: alike_def persisted_def unresolved_with_key_def)

lemma alike_same:
  assumes "alike rt x y" "same_incident x' x" "same_incident y' y"
  shows "alike rt x' y'"
  using assms(1) same_incident_fields [OF assms(2)] same_incident_fields [OF assms(3)]
  by (simp add: alike_def persisted_def)

lemma wrap32_version: "wrap32 (wrap64 (wrap32 v + 1)) = wrap32 (wrap64 (v + 1))"
proof -
  have "wrap32 (wrap64 n) = wrap32 n" for n
    by (simp add: wrap32_def wrap64_def signed_take_bit_signed_take_bit min_def)
  moreover have "wrap32 (wrap32 v + wrap32 1) = wrap32 (v + 1)"
    unfolding wrap32_def by (rule signed_take_bit_add)
  ultimately show ?thesis by simp
qed

lemma alike_updated:
  assumes "alike rt x y" "\<And>t. rt (rt t) = rt t"
  shows "saved_alike rt (update_incident now a x) (update_incident now a y)"
  using assms by (auto simp: alike_def saved_alike_def persisted_def update_incident_def Let_def fingerprints_def wrap32_version)

lemma alike_persisted:
  assumes "saved_alike rt x y" "persisted (\<lambda>t. t) x x'" "kept (\<lambda>t. t) (\<lambda>v. v) ox x x'"
    "persisted rt y y'" "kept rt wrap32 oy y y'" "rel_option (alike rt) ox oy"
    and "\<And>z. ox = Some z \<Longrightarrow> fingerprints z \<subseteq> fingerprints x"
  shows "alike rt x' y'"
proof -
  have fp: "fingerprints y = fingerprints x" using assms(1) by (auto simp: saved_alike_def persisted_def)
  from assms(6) consider "ox = None" "oy = None" | z w where "ox = Some z" "oy = Some w" "alike rt z w"
    by (cases rule: option.rel_cases) auto
  then have "fingerprints x' \<subseteq> fingerprints x" "fingerprints y' \<subseteq> fingerprints x"
    "inc_CreatedAt y' = rt (inc_CreatedAt x')"
    using assms(1,3,5,7) fp by (cases; auto simp: kept_def saved_alike_def alike_fields)+
  with assms(1-5) fp show ?thesis by (auto simp: alike_def saved_alike_def persisted_def kept_def)
qed

locale store_pair =
  A: clocked_store SA absA invA okA "\<lambda>t. t" recentA clk +
  B: store_contract SB absB invB okB rt recentB
  for SA :: "('s, 'e) incident_store" and absA invA okA recentA clk
    and SB :: "('d, 'f) incident_store" and absB invB okB rt recentB +
  assumes A_keeps: "invA s \<Longrightarrow> okA e s \<Longrightarrow> st_Save SA e s inc = (Inr u, s') \<Longrightarrow> absA s' (inc_ID inc) = Some x
      \<Longrightarrow> (\<And>y. absA s (inc_ID inc) = Some y \<Longrightarrow> inc_CreatedAt y = inc_CreatedAt inc)
      \<Longrightarrow> kept (\<lambda>t. t) (\<lambda>v. v) (absA s (inc_ID inc)) inc x"
    and B_keeps: "invB d \<Longrightarrow> okB f d \<Longrightarrow> st_Save SB f d inc = (Inr u, d') \<Longrightarrow> absB d' (inc_ID inc) = Some x
      \<Longrightarrow> kept rt wrap32 (absB d (inc_ID inc)) inc x"
begin

definition paired :: "'s \<Rightarrow> 'd \<Rightarrow> bool" where
  "paired s d \<longleftrightarrow> invA s \<and> invB d \<and> (\<forall>i. rel_option (alike rt) (absA s i) (absB d i))"

lemma pairedD:
  assumes "paired s d"
  shows "invA s" "invB d" "absA s i = Some x \<Longrightarrow> \<exists>y. absB d i = Some y \<and> alike rt x y"
    "absB d i = Some y \<Longrightarrow> \<exists>x. absA s i = Some x \<and> alike rt x y"
proof -
  from assms have r: "rel_option (alike rt) (absA s i) (absB d i)" by (simp add: paired_def)
  show "invA s" "invB d" using assms by (simp_all add: paired_def)
  show "\<exists>y. absB d i = Some y \<and> alike rt x y" if "absA s i = Some x"
    using r that by (cases "absB d i") auto
  show "\<exists>x. absA s i = Some x \<and> alike rt x y" if "absB d i = Some y"
    using r that by (cases "absA s i") auto
qed

lemma paired_save:
  assumes p: "paired s d" and ok: "okA e s" "okB f d"
    and sv: "st_Save SA e s x = (Inr u, s')" "st_Save SB f d y = (Inr v, d')" and xy: "saved_alike rt x y"
    and old: "\<And>z. absA s (inc_ID x) = Some z \<Longrightarrow>
        fingerprints z \<subseteq> fingerprints x \<and> inc_CreatedAt z = inc_CreatedAt x"
  shows "paired s' d'"
proof -
  note inv = pairedD(1,2) [OF p]
  have id: "inc_ID y = inc_ID x" using xy by (simp add: saved_alike_def persisted_def)
  from A.save_stores [OF inv(1) ok(1) sv(1)] obtain x' where x': "absA s' (inc_ID x) = Some x'" "persisted (\<lambda>t. t) x x'" by blast
  from B.save_stores [OF inv(2) ok(2) sv(2)] obtain y' where y': "absB d' (inc_ID x) = Some y'" "persisted rt y y'"
    unfolding id by blast
  have "kept (\<lambda>t. t) (\<lambda>v. v) (absA s (inc_ID x)) x x'"
    by (rule A_keeps [OF inv(1) ok(1) sv(1) x'(1)]) (use old in blast)
  moreover have "kept rt wrap32 (absB d (inc_ID x)) y y'"
    using B_keeps [OF inv(2) ok(2) sv(2)] y'(1) by (simp add: id)
  moreover have "rel_option (alike rt) (absA s (inc_ID x)) (absB d (inc_ID x))" using p by (simp add: paired_def)
  ultimately have "alike rt x' y'" using alike_persisted [OF xy x'(2) _ y'(2)] old by blast
  moreover have "rel_option (alike rt) (absA s' i) (absB d' i)" if "i \<noteq> inc_ID x" for i
    using A.save_frame [OF inv(1) ok(1) sv(1) that] B.save_frame [OF inv(2) ok(2) sv(2), of i] that id p
    by (simp add: paired_def)
  ultimately have "rel_option (alike rt) (absA s' i) (absB d' i)" for i
    using x'(1) y'(1) by (cases "i = inc_ID x") simp_all
  then show ?thesis
    using A.save_inv [OF inv(1) ok(1) sv(1)] B.save_inv [OF inv(2) ok(2) sv(2)] by (simp add: paired_def)
qed

lemma paired_process:
  assumes p: "paired s d" and single: "A.single_open (cc_ExpansionWindow (co_cfg c)) t s"
    and ok: "okA (ce_find ce) s" "okA (ce_save ce) s" "okB (ce_find ce') d" "okB (ce_save ce') d"
    and c: "co_store c = SA" "co_store c' = SB" "co_cfg c' = co_cfg c" "co_graph c' = co_graph c"
    and ce: "ce_now ce' = ce_now ce" "ce_id ce' = ce_id ce" "t \<le> clk (ce_find ce)" "absA s (ce_id ce) = None"
    and windows: "\<And>i x y. absA s i = Some x \<Longrightarrow> absB d i = Some y \<Longrightarrow>
        recentA (ce_find ce) (cc_ExpansionWindow (co_cfg c)) x = recentB (ce_find ce') (cc_ExpansionWindow (co_cfg c)) y"
    and idem: "\<And>t. rt (rt t) = rt t"
    and pa: "ProcessAlert c ce s a = (Inr u, s')" "ProcessAlert c' ce' d a = (Inr v, d')"
  shows "paired s' d'"
proof -
  let ?k = "buildCorrelationKey a" and ?w = "cc_ExpansionWindow (co_cfg c)"
  note inv = pairedD(1,2) [OF p]
  have toA: "\<exists>z. absA s i = Some z \<and> alike rt z y \<and> unresolved_with_key ?k z \<and> recentA (ce_find ce) ?w z"
    if "absB d i = Some y" "same_incident x y" "unresolved_with_key ?k x" "recentB (ce_find ce') ?w x" for i x y
  proof -
    from pairedD(4) [OF p that(1)] obtain z where z: "absA s i = Some z" "alike rt z y" by blast
    have y: "unresolved_with_key ?k y" "recentB (ce_find ce') ?w y"
      using that same_incident_fields(6,8) [OF that(2)] B.recent_last [OF same_incident_fields(12) [OF that(2)]]
      by (auto simp: unresolved_with_key_def)
    with z windows [OF z(1) that(1)] alike_fields(2) [OF z(2)] show ?thesis by blast
  qed
  have old: "absA s (inc_ID (new_incident g (ce_id ce) n a)) = None" for g n using ce(4) by simp
  from inv(1) ok(1) c(1) pa(1) show ?thesis
  proof (cases rule: A.process_cases)
    case fa: fresh
    from inv(2) ok(3) c(2) pa(2) show ?thesis
    proof (cases rule: B.process_cases)
      case fb: fresh
      have "saved_alike rt x x" for x by (simp add: saved_alike_def persisted_def)
      with paired_save [OF p ok(2,4) fa(1) fb(1)] c(4) ce old show ?thesis by simp
    next
      case (grouped x y)
      with toA [OF grouped(2-5) [unfolded c(3)]] fa(2) show ?thesis by blast
    qed simp
  next
    case (grouped x y)
    note ga = grouped
    have y: "unresolved_with_key ?k y" "recentA (ce_find ce) ?w y"
      using ga(3-5) same_incident_fields(6,8) [OF ga(3)] A.recent_last [OF same_incident_fields(12) [OF ga(3)]]
      by (auto simp: unresolved_with_key_def)
    from pairedD(3) [OF p ga(2)] obtain y1 where y1: "absB d (inc_ID x) = Some y1" "alike rt y y1" by blast
    from inv(2) ok(3) c(2) pa(2) show ?thesis
    proof (cases rule: B.process_cases)
      case fb: fresh
      have "unresolved_with_key ?k y1" "recentB (ce_find ce') ?w y1"
        using y windows [OF ga(2) y1(1)] alike_fields(2) [OF y1(2)] by simp_all
      with fb(2) [OF y1(1)] c(3) show ?thesis by simp
    next
      case gb: (grouped x' y')
      from toA [OF gb(2-5) [unfolded c(3)]] obtain z
        where z: "absA s (inc_ID x') = Some z" "alike rt z y'" "unresolved_with_key ?k z" "recentA (ce_find ce) ?w z" by blast
      have id: "inc_ID x = inc_ID x'"
        by (rule A.single_openD [OF single ga(2) z(1) y(1) z(3) ok(1) ce(3) y(2) z(4)])
      with ga(2) z(1) have "z = y" by simp
      with alike_same [OF _ ga(3) gb(3)] z(2) have "alike rt x x'" by blast
      from alike_updated [OF this idem] have "saved_alike rt (update_incident (ce_now ce) a x) (update_incident (ce_now ce) a x')" .
      moreover have "fingerprints w \<subseteq> fingerprints (update_incident (ce_now ce) a x) \<and>
          inc_CreatedAt w = inc_CreatedAt (update_incident (ce_now ce) a x)"
        if "absA s (inc_ID (update_incident (ce_now ce) a x)) = Some w" for w
      proof -
        from that ga(2) have "w = y" by simp
        with same_incident_fields(9,15) [OF ga(3)] show ?thesis
          by (auto simp: update_incident_def fingerprints_def Let_def)
      qed
      ultimately show ?thesis
        using paired_save [OF p ok(2,4) ga(1) gb(1)] ce(1) by simp
    qed simp
  qed simp
qed

end


lemma mem_Save_keeps:
  "mem_Save e s inc = (r, s') \<Longrightarrow> ms_incidents s' (inc_ID inc) = Some x
    \<Longrightarrow> (\<And>y. ms_incidents s (inc_ID inc) = Some y \<Longrightarrow> inc_CreatedAt y = inc_CreatedAt inc)
    \<Longrightarrow> kept (\<lambda>t. t) (\<lambda>v. v) (ms_incidents s (inc_ID inc)) inc x"
  by (auto simp: mem_Save_def kept_def split: option.split)

lemma pg_Save_tight:
  assumes inv: "db_inv d" and save: "pg_Save e d inc = (Inr u, d')" and x: "pg_abs d' (inc_ID inc) = Some x"
    and fp: "fp \<in> fingerprints x" "fp \<notin> fingerprints inc"
  shows "\<exists>y. pg_abs d (inc_ID inc) = Some y \<and> fp \<in> fingerprints y"
  using save
proof (cases rule: pg_Save_cases)
  case (stored c c1 c2)
  have "List.find (\<lambda>a. al_Fingerprint a = fp) (rev (inc_Alerts inc)) = None"
    using fp(2) by (auto simp: find_None_iff fingerprints_def)
  with pg_Save_done(3) [OF stored(1-3), of "inc_ID inc" fp] alert_at_fingerprints [OF x, of fp] stored(4) fp
  have at: "alert_at d (inc_ID inc) fp \<noteq> None" by simp
  then obtain r where "r \<in> set (db_alerts d)" "arow_IncidentID r = inc_ID inc"
    by (auto simp: alert_at_def alert_key_def find_Some_iff dest: nth_mem)
  with inv have "inc_ID inc \<in> set (db_ids d)" by (auto simp: db_inv_def list_all_iff)
  then have "find_row d (inc_ID inc) \<noteq> None" using find_row_None [of d "inc_ID inc"] by auto
  then obtain y where y: "pg_abs d (inc_ID inc) = Some y" by (auto simp: pg_abs_def)
  with at alert_at_fingerprints [OF y] show ?thesis by blast
qed simp

lemma pg_Save_keeps:
  assumes inv: "db_inv d" and ok: "pg_ok rt e d" and save: "pg_Save e d inc = (Inr u, d')"
    and x: "pg_abs d' (inc_ID inc) = Some x"
  shows "kept rt wrap32 (pg_abs d (inc_ID inc)) inc x"
proof -
  have "fingerprints x \<subseteq> fingerprints inc \<union> (case pg_abs d (inc_ID inc) of None \<Rightarrow> {} | Some y \<Rightarrow> fingerprints y)"
    using pg_Save_tight [OF inv save x] by fastforce
  moreover have "pe_ts e = rt" using ok by (simp add: pg_ok_def)
  from save have "inc_CreatedAt x = (case pg_abs d (inc_ID inc) of None \<Rightarrow> rt (inc_CreatedAt inc) | Some y \<Rightarrow> inc_CreatedAt y) \<and>
      inc_FirstAlertAt x = rt (inc_FirstAlertAt inc) \<and> inc_CorrelationVersion x = wrap32 (inc_CorrelationVersion inc)"
  proof (cases rule: pg_Save_cases)
    case (stored c c1 c2)
    from pg_Save_done(1) [OF stored(1-3), of "inc_ID inc"] stored(4) x \<open>pe_ts e = rt\<close> show ?thesis
      by (auto simp: pg_abs_def row_incident_def saved_row_def stored_row_def create_params_def apply_update_def
          update_params_def split: option.splits)
  qed simp
  ultimately show ?thesis by (simp add: kept_def)
qed

interpretation mem_pg: store_pair mem_incident_store ms_incidents mem_inv mem_ok mem_recent me_now
    pg_incident_store pg_abs db_inv "pg_ok rt" rt pg_recent for rt
  by unfold_locales (simp_all add: mem_Save_keeps pg_Save_keeps)

text \<open>
  The same alerts over both stores: for each call the same time and the same ID on both sides, clocks
  not going back, no call failing, and no incident at a point of the window where the two tests differ.
\<close>

inductive twin_run ::
    "(mem_store, mem_env) correlator \<Rightarrow> (db, pg_env) correlator \<Rightarrow> (time \<Rightarrow> time) \<Rightarrow> alert_call list
      \<Rightarrow> time \<Rightarrow> mem_store \<Rightarrow> db \<Rightarrow> bool"
  for c c' rt where
  start: "twin_run c c' rt [] t NewInMemoryIncidentStore empty_db"
| call: "twin_run c c' rt (calls @ [(ce, a)]) (me_now (ce_find ce)) s' d'"
    if "twin_run c c' rt calls t s d" and "mem_ok (ce_find ce) s" and "mem_ok (ce_save ce) s"
      and "pg_ok rt (ce_find ce') d" and "pg_ok rt (ce_save ce') d"
      and "ce_now ce' = ce_now ce" and "ce_id ce' = ce_id ce"
      and "t \<le> ce_now ce" and "ce_now ce \<le> me_now (ce_find ce)"
      and "\<And>i x y. ms_incidents s i = Some x \<Longrightarrow> pg_abs d i = Some y \<Longrightarrow>
             mem_recent (ce_find ce) (cc_ExpansionWindow (co_cfg c)) x =
             pg_recent (ce_find ce') (cc_ExpansionWindow (co_cfg c)) y"
      and "ProcessAlert c ce s a = (Inr (), s')" and "ProcessAlert c' ce' d a = (Inr (), d')"

lemma twin_run_history: "twin_run c c' rt calls t s d \<Longrightarrow> mem_history c calls t s"
  by (induction rule: twin_run.induct) (auto intro: mem_history.intros)

lemma twin_run_paired:
  assumes "twin_run c c' rt calls t s d" and "co_store c = mem_incident_store" "co_store c' = pg_incident_store"
    and "co_cfg c' = co_cfg c" "co_graph c' = co_graph c" "distinct (map call_id calls)" "\<And>t. rt (rt t) = rt t"
  shows "mem_pg.paired rt s d \<and> mem_clk.single_open (cc_ExpansionWindow (co_cfg c)) t s"
  using assms(1,6)
proof induction
  case (start t)
  then show ?case
    by (simp add: mem_pg.paired_def mem_clk.single_open_def pg_abs_empty) (simp add: NewInMemoryIncidentStore_def)
next
  case (call calls t s d ce ce' a s' d')
  then have p: "mem_pg.paired rt s d" and so: "mem_clk.single_open (cc_ExpansionWindow (co_cfg c)) t s" by simp_all
  have fresh: "ms_incidents s (ce_id ce) = None"
    using history_ids [OF twin_run_history [OF call.hyps(1)] assms(2)] call.prems by (auto simp: domIff)
  have "t \<le> me_now (ce_find ce)" using call.hyps by simp
  from mem_pg.paired_process [OF p so _ _ _ _ assms(2-5) _ _ this fresh _ assms(7) call.hyps(11,12)] call.hyps
  have "mem_pg.paired rt s' d'" by blast
  moreover have "mem_clk.single_open (cc_ExpansionWindow (co_cfg c)) (me_now (ce_find ce)) s'"
    using mem_clk.process_single_open [OF so _ _ _ assms(2) _ _ call.hyps(11)] mem_pg.pairedD(1) [OF p] call.hyps by blast
  ultimately show ?case ..
qed


text \<open>
  C12: the two stores do the same for the correlator, when it is given the same alerts one after the
  other, each at the same times and with the same ID on both sides (the clocks do not go back), and
  while no two calls draw the same ID, no call fails, and no incident stands at a point of the window
  where the two tests of it differ. Then the in-memory store and PostgreSQL hold incidents under the
  same IDs, each with the same service, cluster, environment, severity, key, state, topology and set
  of fingerprints; and with the same creation, first-alert and last-alert time at PostgreSQL's
  resolution and the same version in its 32 bits. The contents of the alerts and the time of the last
  update are not compared (PostgreSQL keeps one alert for a fingerprint, the memory all of them).
\<close>

theorem stores_agree:
  assumes "twin_run c c' rt calls t s d" and "co_store c = mem_incident_store" "co_store c' = pg_incident_store"
    and "co_cfg c' = co_cfg c" "co_graph c' = co_graph c"
    and "distinct (map call_id calls)" "\<And>t. rt (rt t) = rt t"
  shows "rel_option (alike rt) (ms_incidents s i) (pg_abs d i)"
  using twin_run_paired [OF assms] by (simp add: mem_pg.paired_def)

theorem stores_agree_witness:
  "\<exists>calls s d x y. twin_run (demo_correlator mem_incident_store) (demo_correlator pg_incident_store) (\<lambda>t. t) calls 9 s d \<and>
     ms_incidents s ''i'' = Some x \<and> pg_abs d ''i'' = Some y \<and> alike (\<lambda>t. t) x y"
proof -
  let ?c = "demo_correlator mem_incident_store" and ?c' = "demo_correlator pg_incident_store :: (db, pg_env) correlator"
  let ?ce = "demo_call \<lparr>me_now = 9, me_keys = []\<rparr> 9 ''i''" and ?ce' = "demo_call (demo_pg_env None 9) 9 ''i''"
  let ?a = "demo_alert ''f'' 1"
  obtain s where s: "ProcessAlert ?c ?ce NewInMemoryIncidentStore ?a = (Inr (), s)" "ms_incidents s ''i'' \<noteq> None"
    by (simp add: ProcessAlert_def demo_correlator_def demo_call_def mem_FindOpenByCorrelationKey_def mem_Save_def
        correlated_ID)
  obtain d where d: "ProcessAlert ?c' ?ce' empty_db ?a = (Inr (), d)"
    by (simp add: ProcessAlert_def demo_correlator_def demo_call_def pg_FindOpenByCorrelationKey_def
        FindOpenByCorrelationKey_def order_by_desc_def correlated_def new_incident_def pg_eval)
  have "twin_run ?c ?c' (\<lambda>t. t) ([] @ [(?ce, ?a)]) (me_now (ce_find ?ce)) s d"
    by (rule twin_run.call [OF twin_run.start [where t = 9] _ _ _ _ _ _ _ _ _ s(1) d])
      (simp_all add: demo_call_def mem_ok_def enumerates_def NewInMemoryIncidentStore_def demo_pg_ok)
  then have run: "twin_run ?c ?c' (\<lambda>t. t) [(?ce, ?a)] 9 s d" by (simp add: demo_call_def)
  have "rel_option (alike (\<lambda>t. t)) (ms_incidents s ''i'') (pg_abs d ''i'')"
    by (rule stores_agree [OF run]) (simp_all add: demo_correlator_def)
  with s(2) obtain x y where "ms_incidents s ''i'' = Some x" "pg_abs d ''i'' = Some y" "alike (\<lambda>t. t) x y"
    by (auto elim: option.rel_cases)
  with run show ?thesis by (intro exI [of _ "[(?ce, ?a)]"] exI [of _ s] exI [of _ d] exI [of _ x] exI [of _ y] conjI)
qed

text \<open>
  At the edge of the window they differ: an incident whose last alert is exactly the window old is
  still extended in memory, and no longer on PostgreSQL.
\<close>

lemma window_edge:
  assumes "inc_LastAlertAt x = me_now e - w" "pe_now e' = me_now e" "pe_ts e' = (\<lambda>t. t)" "0 \<le> w" "w \<le> max_int64"
  shows "mem_recent e w x \<and> \<not> pg_recent e' w x"
  using assms by (simp add: mem_recent_def pg_recent_def time_sub_def sat64_def time_add_def duration_neg_def
      wrap64_id min_int64_def max_int64_def)

end
