(* ===== verification/Alert_Slices.thy ===== *)
theory Alert_Slices
  imports Correlator
begin

text \<open>
  What the in-memory store shares: \<open>GetByID\<close>, \<open>Save\<close> and \<open>FindOpenByCorrelationKey\<close> copy the struct of
  an incident, so the copies have the same array behind their \<open>Alerts\<close> slice, and the \<open>append\<close> of
  \<open>internal/correlation/correlator.go\<close> writes into that array while it has room. Here a slice is an
  address, a length and a capacity, and the arrays are an explicit heap. For calls one after the other
  this refines the model of \<open>Store\<close>, where an incident holds its list of alerts; for concurrent calls
  it does not.

  By how much \<open>append\<close> grows an array is the runtime's choice: a function \<open>grow\<close> from the length
  needed to a capacity, at least that length.
\<close>

section \<open>Slices\<close>

record alert_slice =
  sl_ptr :: nat
  sl_len :: nat
  sl_cap :: nat

record alert_heap =
  hp_arrays :: "nat \<Rightarrow> alert list"  \<comment> \<open>an array has as many elements as its capacity\<close>
  hp_next :: nat

definition zero_alert :: alert where
  "zero_alert = \<lparr>al_Fingerprint = [], al_Labels = None, al_Annotations = None, al_StartsAt = zero_time,
     al_EndsAt = None\<rparr>"

definition slice_alerts :: "alert_heap \<Rightarrow> alert_slice \<Rightarrow> alert list" where
  "slice_alerts h s = take (sl_len s) (hp_arrays h (sl_ptr s))"

definition go_alloc :: "nat \<Rightarrow> alert list \<Rightarrow> alert_heap \<Rightarrow> alert_slice \<times> alert_heap" where
  \<comment> \<open>a new array of the given capacity that starts with the elements\<close>
  "go_alloc cap xs h =
     (\<lparr>sl_ptr = hp_next h, sl_len = length xs, sl_cap = cap\<rparr>,
      h\<lparr>hp_arrays := (hp_arrays h)(hp_next h := xs @ replicate (cap - length xs) zero_alert),
        hp_next := Suc (hp_next h)\<rparr>)"

definition go_append :: "(nat \<Rightarrow> nat) \<Rightarrow> alert_slice \<Rightarrow> alert \<Rightarrow> alert_heap \<Rightarrow> alert_slice \<times> alert_heap" where
  "go_append grow s a h =
     (if sl_len s < sl_cap s then
        (s\<lparr>sl_len := Suc (sl_len s)\<rparr>,
         h\<lparr>hp_arrays := (hp_arrays h)(sl_ptr s := (hp_arrays h (sl_ptr s))[sl_len s := a])\<rparr>)
      else go_alloc (grow (Suc (sl_len s))) (slice_alerts h s @ [a]) h)"

definition slice_ok :: "alert_heap \<Rightarrow> alert_slice \<Rightarrow> bool" where
  "slice_ok h s \<longleftrightarrow>
     sl_ptr s < hp_next h \<and> length (hp_arrays h (sl_ptr s)) = sl_cap s \<and> sl_len s \<le> sl_cap s"

lemma take_Suc_update: "n < length xs \<Longrightarrow> take (Suc n) (xs[n := a]) = take n xs @ [a]"
  by (simp add: take_Suc_conv_app_nth)

lemma go_alloc_ok:
  assumes "length xs \<le> cap" "go_alloc cap xs h = (s', h')"
  shows "slice_alerts h' s' = xs \<and> slice_ok h' s'"
  using assms by (auto simp: go_alloc_def slice_alerts_def slice_ok_def)

lemma go_append_ok:
  assumes "slice_ok h s" "\<And>n. n \<le> grow n" "go_append grow s a h = (s', h')"
  shows "slice_alerts h' s' = slice_alerts h s @ [a] \<and> slice_ok h' s'"
proof (cases "sl_len s < sl_cap s")
  case True
  with assms show ?thesis
    by (auto simp: go_append_def slice_alerts_def slice_ok_def take_Suc_update)
next
  case False
  with assms(3) have "go_alloc (grow (Suc (sl_len s))) (slice_alerts h s @ [a]) h = (s', h')"
    by (simp add: go_append_def)
  moreover have "length (slice_alerts h s @ [a]) \<le> grow (Suc (sl_len s))"
    using assms(2) [of "Suc (sl_len s)"] by (simp add: slice_alerts_def)
  ultimately show ?thesis using go_alloc_ok by blast
qed

text \<open>
  What an append leaves alone: every slice into another array.
\<close>

lemma go_append_other:
  assumes "slice_ok h t" "sl_ptr t \<noteq> sl_ptr s" "go_append grow s a h = (s', h')"
  shows "slice_alerts h' t = slice_alerts h t \<and> slice_ok h' t \<and> sl_ptr t \<noteq> sl_ptr s'"
  using assms by (auto simp: go_append_def go_alloc_def slice_alerts_def slice_ok_def split: if_splits)

lemma go_alloc_other:
  assumes "slice_ok h t" "go_alloc cap xs h = (s', h')"
  shows "slice_alerts h' t = slice_alerts h t \<and> slice_ok h' t \<and> sl_ptr t \<noteq> sl_ptr s'"
  using assms by (auto simp: go_alloc_def slice_alerts_def slice_ok_def)

section \<open>The store and the correlator over slices\<close>

record shared_incident =
  si_fields :: incident  \<comment> \<open>every field but the alerts\<close>
  si_Alerts :: alert_slice

record slice_store =
  ss_heap :: alert_heap
  ss_incidents :: "string \<Rightarrow> shared_incident option"

definition deref :: "alert_heap \<Rightarrow> shared_incident \<Rightarrow> incident" where
  "deref h x = (si_fields x)\<lparr>inc_Alerts := slice_alerts h (si_Alerts x)\<rparr>"

definition ss_view :: "slice_store \<Rightarrow> mem_store" where
  "ss_view st = \<lparr>ms_incidents = (\<lambda>i. map_option (deref (ss_heap st)) (ss_incidents st i))\<rparr>"

definition ss_find :: "string \<Rightarrow> duration \<Rightarrow> mem_env \<Rightarrow> slice_store \<Rightarrow> shared_incident option" where
  \<comment> \<open>the copy of the struct that the search returns\<close>
  "ss_find key window e st =
     (case mem_find_loop key window (me_now e) (ss_view st) (me_keys e) None of
        None \<Rightarrow> None
      | Some x \<Rightarrow> ss_incidents st (inc_ID x))"

definition ss_correlate ::
    "(nat \<Rightarrow> nat) \<Rightarrow> (string \<Rightarrow> topology_slice option result) \<Rightarrow> string \<Rightarrow> time \<Rightarrow> alert
      \<Rightarrow> shared_incident option \<Rightarrow> alert_heap \<Rightarrow> shared_incident \<times> alert_heap" where
  \<comment> \<open>what \<open>ProcessAlert\<close> does to its copy, outside of any lock\<close>
  "ss_correlate grow graph i now a found h =
     (case found of
        None \<Rightarrow> (case go_alloc 1 [a] h of (s, h') \<Rightarrow>
          (\<lparr>si_fields = new_incident graph i now a, si_Alerts = s\<rparr>, h'))
      | Some x \<Rightarrow> (case go_append grow (si_Alerts x) a h of (s, h') \<Rightarrow>
          (\<lparr>si_fields = update_incident now a (si_fields x), si_Alerts = s\<rparr>, h')))"

definition ss_save :: "shared_incident \<Rightarrow> slice_store \<Rightarrow> slice_store" where
  "ss_save x st = st\<lparr>ss_incidents := (ss_incidents st)(inc_ID (si_fields x) \<mapsto> x)\<rparr>"

definition ss_ProcessAlert ::
    "(nat \<Rightarrow> nat) \<Rightarrow> (mem_store, mem_env) correlator \<Rightarrow> mem_env call_env \<Rightarrow> slice_store \<Rightarrow> alert
      \<Rightarrow> slice_store" where
  \<comment> \<open>one call, with no other call in between\<close>
  "ss_ProcessAlert grow c ce st a =
     (case ss_correlate grow (co_graph c) (ce_id ce) (ce_now ce) a
             (ss_find (buildCorrelationKey a) (cc_ExpansionWindow (co_cfg c)) (ce_find ce) st) (ss_heap st) of
        (x, h) \<Rightarrow> ss_save x (st\<lparr>ss_heap := h\<rparr>))"

definition slices_inv :: "slice_store \<Rightarrow> bool" where
  \<comment> \<open>stored slices are within their arrays, and no two incidents share one\<close>
  "slices_inv st \<longleftrightarrow>
     (\<forall>i x. ss_incidents st i = Some x \<longrightarrow> inc_ID (si_fields x) = i \<and> slice_ok (ss_heap st) (si_Alerts x)) \<and>
     (\<forall>i j x y. ss_incidents st i = Some x \<longrightarrow> ss_incidents st j = Some y \<longrightarrow> i \<noteq> j \<longrightarrow>
        sl_ptr (si_Alerts x) \<noteq> sl_ptr (si_Alerts y))"

lemma deref_fields [simp]: "inc_ID (deref h x) = inc_ID (si_fields x)"
  by (simp add: deref_def)

lemma deref_new: "deref h \<lparr>si_fields = new_incident g i now a, si_Alerts = s\<rparr> =
    (new_incident g i now a)\<lparr>inc_Alerts := slice_alerts h s\<rparr>"
  by (simp add: deref_def)

lemma new_incident_alerts: "(new_incident g i now a)\<lparr>inc_Alerts := [a]\<rparr> = new_incident g i now a"
  by (simp add: new_incident_def Let_def)

lemma update_incident_alerts:
  "(update_incident now a r)\<lparr>inc_Alerts := xs @ [a]\<rparr> = update_incident now a (r\<lparr>inc_Alerts := xs\<rparr>)"
  by (simp add: update_incident_def Let_def)

text \<open>
  The copy that the code works on becomes the incident of the pure model, and slices of other
  incidents keep their contents.
\<close>

lemma ss_correlate_deref:
  assumes "case found of None \<Rightarrow> True | Some y \<Rightarrow> slice_ok h (si_Alerts y)" "\<And>n. n \<le> grow n"
    and "ss_correlate grow g i now a found h = (x, h')"
  shows "deref h' x = correlated g i now a (map_option (deref h) found) \<and> slice_ok h' (si_Alerts x)"
proof (cases found)
  case None
  obtain s where s: "go_alloc 1 [a] h = (s, h')" "x = \<lparr>si_fields = new_incident g i now a, si_Alerts = s\<rparr>"
    using assms(3) None by (auto simp: ss_correlate_def split: prod.splits)
  with go_alloc_ok [OF _ s(1)] None show ?thesis
    by (simp add: deref_new new_incident_alerts correlated_def)
next
  case (Some y)
  obtain s where s: "go_append grow (si_Alerts y) a h = (s, h')"
    "x = \<lparr>si_fields = update_incident now a (si_fields y), si_Alerts = s\<rparr>"
    using assms(3) Some by (auto simp: ss_correlate_def split: prod.splits)
  have "slice_alerts h' s = slice_alerts h (si_Alerts y) @ [a] \<and> slice_ok h' s"
    using go_append_ok [OF _ assms(2) s(1)] assms(1) Some by simp
  with Some s(2) show ?thesis by (simp add: deref_def correlated_def update_incident_alerts)
qed

lemma ss_correlate_other:
  assumes "slice_ok h t" "case found of None \<Rightarrow> True | Some y \<Rightarrow> sl_ptr t \<noteq> sl_ptr (si_Alerts y)"
    and "ss_correlate grow g i now a found h = (x, h')"
  shows "slice_alerts h' t = slice_alerts h t \<and> slice_ok h' t \<and> sl_ptr t \<noteq> sl_ptr (si_Alerts x)"
proof (cases found)
  case None
  obtain s where s: "go_alloc 1 [a] h = (s, h')" "si_Alerts x = s"
    using assms(3) None by (auto simp: ss_correlate_def split: prod.splits)
  from go_alloc_other [OF assms(1) s(1)] s(2) show ?thesis by simp
next
  case (Some y)
  obtain s where s: "go_append grow (si_Alerts y) a h = (s, h')" "si_Alerts x = s"
    using assms(3) Some by (auto simp: ss_correlate_def split: prod.splits)
  from go_append_other [OF assms(1) _ s(1)] assms(2) Some s(2) show ?thesis by simp
qed

lemma ss_find_view:
  assumes "slices_inv st"
  shows "map_option (deref (ss_heap st)) (ss_find k w e st) =
    mem_find_loop k w (me_now e) (ss_view st) (me_keys e) None"
    and "ss_find k w e st = Some y \<Longrightarrow> ss_incidents st (inc_ID (si_fields y)) = Some y"
proof -
  let ?found = "mem_find_loop k w (me_now e) (ss_view st) (me_keys e) None"
  have f: "\<exists>y. ss_incidents st (inc_ID x) = Some y \<and> x = deref (ss_heap st) y \<and> inc_ID (si_fields y) = inc_ID x"
    if "?found = Some x" for x
    using mem_find_loop_sound [OF that] assms by (auto simp: ss_view_def slices_inv_def)
  show "map_option (deref (ss_heap st)) (ss_find k w e st) = ?found"
  proof (cases ?found)
    case (Some x)
    from f [OF Some] obtain y where "ss_incidents st (inc_ID x) = Some y" "x = deref (ss_heap st) y" by blast
    with Some show ?thesis by (simp add: ss_find_def)
  qed (simp add: ss_find_def)
  assume "ss_find k w e st = Some y"
  then obtain x where x: "?found = Some x" "ss_incidents st (inc_ID x) = Some y"
    by (auto simp: ss_find_def split: option.splits)
  from f [OF x(1)] obtain y' where "ss_incidents st (inc_ID x) = Some y'" "inc_ID (si_fields y') = inc_ID x"
    by blast
  with x(2) show "ss_incidents st (inc_ID (si_fields y)) = Some y" by simp
qed

lemma ss_save_inv:
  assumes inv: "slices_inv st" and ok: "slice_ok h (si_Alerts x)"
    and others: "\<And>i y. ss_incidents st i = Some y \<Longrightarrow> i \<noteq> inc_ID (si_fields x) \<Longrightarrow>
      slice_alerts h (si_Alerts y) = slice_alerts (ss_heap st) (si_Alerts y) \<and> slice_ok h (si_Alerts y) \<and>
      sl_ptr (si_Alerts y) \<noteq> sl_ptr (si_Alerts x)"
  shows "slices_inv (ss_save x (st\<lparr>ss_heap := h\<rparr>)) \<and>
    ss_view (ss_save x (st\<lparr>ss_heap := h\<rparr>)) =
      (ss_view st)\<lparr>ms_incidents := (ms_incidents (ss_view st))(inc_ID (si_fields x) \<mapsto> deref h x)\<rparr>"
proof
  show "slices_inv (ss_save x (st\<lparr>ss_heap := h\<rparr>))"
    using inv ok others by (auto simp: slices_inv_def ss_save_def) metis+
  have "deref h y = deref (ss_heap st) y" if "ss_incidents st i = Some y" "i \<noteq> inc_ID (si_fields x)" for i y
    using others [OF that] by (simp add: deref_def)
  then have "(\<lambda>i. map_option (deref h) (((ss_incidents st)(inc_ID (si_fields x) \<mapsto> x)) i)) =
      (\<lambda>i. map_option (deref (ss_heap st)) (ss_incidents st i))(inc_ID (si_fields x) \<mapsto> deref h x)"
    by (intro ext) (auto intro: map_option_cong)
  then show "ss_view (ss_save x (st\<lparr>ss_heap := h\<rparr>)) =
      (ss_view st)\<lparr>ms_incidents := (ms_incidents (ss_view st))(inc_ID (si_fields x) \<mapsto> deref h x)\<rparr>"
    by (simp add: ss_view_def ss_save_def)
qed

section \<open>One call after the other\<close>

text \<open>
  C28: for calls one after the other the sharing does not show: the correlator over shared arrays does
  to the incidents exactly what it does over lists of alerts, whatever capacities the runtime chooses,
  and two incidents never come to share an array.
\<close>

theorem ss_ProcessAlert_refines:
  assumes "slices_inv st" "\<And>n. n \<le> grow n" "co_store c = mem_incident_store"
  shows "slices_inv (ss_ProcessAlert grow c ce st a) \<and>
    ProcessAlert c ce (ss_view st) a = (Inr (), ss_view (ss_ProcessAlert grow c ce st a))"
proof -
  let ?found = "ss_find (buildCorrelationKey a) (cc_ExpansionWindow (co_cfg c)) (ce_find ce) st"
  obtain x h where xh: "ss_correlate grow (co_graph c) (ce_id ce) (ce_now ce) a ?found (ss_heap st) = (x, h)"
    by fastforce
  have stored: "ss_incidents st (inc_ID (si_fields y)) = Some y" if "?found = Some y" for y
    by (rule ss_find_view(2) [OF assms(1) that])
  have "case ?found of None \<Rightarrow> True | Some y \<Rightarrow> slice_ok (ss_heap st) (si_Alerts y)"
    using stored assms(1) by (auto simp: slices_inv_def split: option.split)
  note x = ss_correlate_deref [OF this assms(2) xh]
  have id: "inc_ID (si_fields x) = inc_ID (si_fields y)" if "?found = Some y" for y
    using arg_cong [OF conjunct1 [OF x], of inc_ID] that by (simp add: correlated_ID)
  have "slice_alerts h (si_Alerts y) = slice_alerts (ss_heap st) (si_Alerts y) \<and> slice_ok h (si_Alerts y) \<and>
      sl_ptr (si_Alerts y) \<noteq> sl_ptr (si_Alerts x)"
    if y: "ss_incidents st i = Some y" "i \<noteq> inc_ID (si_fields x)" for i y
  proof (rule ss_correlate_other [OF _ _ xh])
    show "slice_ok (ss_heap st) (si_Alerts y)" using assms(1) y by (simp add: slices_inv_def)
    show "case ?found of None \<Rightarrow> True | Some z \<Rightarrow> sl_ptr (si_Alerts y) \<noteq> sl_ptr (si_Alerts z)"
    proof (cases ?found)
      case (Some z)
      have "i \<noteq> inc_ID (si_fields z)" using y(2) id [OF Some] by simp
      with y(1) stored [OF Some] assms(1) have "sl_ptr (si_Alerts y) \<noteq> sl_ptr (si_Alerts z)"
        unfolding slices_inv_def by blast
      with Some show ?thesis by simp
    qed simp
  qed
  note saved = ss_save_inv [OF assms(1) _ this]
  have st': "ss_ProcessAlert grow c ce st a = ss_save x (st\<lparr>ss_heap := h\<rparr>)"
    by (simp add: ss_ProcessAlert_def xh)
  have pure: "ProcessAlert c ce (ss_view st) a =
      (Inr (), (ss_view st)\<lparr>ms_incidents := (ms_incidents (ss_view st))(inc_ID (si_fields x) \<mapsto> deref h x)\<rparr>)"
    unfolding ProcessAlert_def assms(3) mem_incident_store_sel mem_FindOpenByCorrelationKey_def
      sum.case ss_find_view(1) [OF assms(1), symmetric] conjunct1 [OF x, symmetric]
    by (simp add: mem_Save_def)
  have v: "slices_inv (ss_save x (st\<lparr>ss_heap := h\<rparr>)) \<and> ss_view (ss_save x (st\<lparr>ss_heap := h\<rparr>)) =
      (ss_view st)\<lparr>ms_incidents := (ms_incidents (ss_view st))(inc_ID (si_fields x) \<mapsto> deref h x)\<rparr>"
    by (rule saved [OF conjunct2 [OF x]])
  show ?thesis unfolding st' pure conjunct2 [OF v] by (rule conjI [OF conjunct1 [OF v] refl])
qed

definition empty_slices :: slice_store where
  "empty_slices = \<lparr>ss_heap = \<lparr>hp_arrays = (\<lambda>p. []), hp_next = 0\<rparr>, ss_incidents = Map.empty\<rparr>"

theorem ss_ProcessAlert_refines_witness:
  "\<exists>x. ms_incidents (ss_view (ss_ProcessAlert (\<lambda>n. 2 * n) (demo_correlator mem_incident_store)
      (demo_call \<lparr>me_now = 9, me_keys = []\<rparr> 9 ''i'') empty_slices (demo_alert ''f'' 1))) ''i'' = Some x \<and>
    inc_Alerts x = [demo_alert ''f'' 1]"
proof -
  let ?c = "demo_correlator mem_incident_store" and ?ce = "demo_call \<lparr>me_now = 9, me_keys = []\<rparr> 9 ''i''"
  have "slices_inv empty_slices" "co_store ?c = mem_incident_store" "n \<le> 2 * n" for n :: nat
    by (simp_all add: slices_inv_def empty_slices_def demo_correlator_def)
  note r = ss_ProcessAlert_refines [OF this(1,3,2), of ?ce "demo_alert ''f'' 1"]
  have "ms_incidents (snd (ProcessAlert ?c ?ce (ss_view empty_slices) (demo_alert ''f'' 1))) ''i'' =
      Some (new_incident (\<lambda>s. Inr None) ''i'' 9 (demo_alert ''f'' 1))"
    by (simp add: ProcessAlert_def demo_correlator_def demo_call_def mem_FindOpenByCorrelationKey_def
        mem_Save_def correlated_def)
  with r show ?thesis by (simp add: new_incident_def Let_def)
qed

section \<open>Two calls at the same time\<close>

text \<open>
  C29: two concurrent calls that found the same incident write to the same place while its array has
  room: if one call has already saved, with its alert \<open>a\<close> as the last, the append of the other then
  replaces \<open>a\<close> by its own alert \<open>b\<close> in the stored incident, before (and even without) saving itself.
  If the array is full each call gets an array of its own and \<open>a\<close> stays.
\<close>

theorem concurrent_append_overwrites:
  assumes "slices_inv st" "\<And>n. n \<le> grow n" "ss_incidents st i = Some y"
    and "ss_correlate grow g j now a (Some y) (ss_heap st) = (x1, h1)"
    and "ss_correlate grow g k now' b (Some y) h1 = (x2, h2)"
  shows "ms_incidents (ss_view ((ss_save x1 st)\<lparr>ss_heap := h1\<rparr>)) i =
      Some (update_incident now a (deref (ss_heap st) y)) \<and>
    ms_incidents (ss_view ((ss_save x1 st)\<lparr>ss_heap := h2\<rparr>)) i =
      Some ((update_incident now a (deref (ss_heap st) y))\<lparr>inc_Alerts := inc_Alerts (deref (ss_heap st) y) @
        [if sl_len (si_Alerts y) < sl_cap (si_Alerts y) then b else a]\<rparr>)"
proof -
  let ?h = "ss_heap st" and ?s = "si_Alerts y"
  have ok: "slice_ok ?h ?s" and id: "inc_ID (si_fields y) = i" using assms(1,3) by (simp_all add: slices_inv_def)
  obtain s1 where s1: "go_append grow ?s a ?h = (s1, h1)"
    "x1 = \<lparr>si_fields = update_incident now a (si_fields y), si_Alerts = s1\<rparr>"
    using assms(4) by (auto simp: ss_correlate_def split: prod.splits)
  obtain s2 where s2: "go_append grow ?s b h1 = (s2, h2)"
    using assms(5) by (auto simp: ss_correlate_def split: prod.splits)
  note a = go_append_ok [OF ok assms(2) s1(1)]
  have b: "slice_alerts h2 s1 = slice_alerts ?h ?s @ [if sl_len ?s < sl_cap ?s then b else a]"
  proof (cases "sl_len ?s < sl_cap ?s")
    case True
    with s1(1) s2 ok show ?thesis
      by (auto simp: go_append_def slice_alerts_def slice_ok_def take_Suc_update)
  next
    case False
    then have "sl_ptr s1 \<noteq> sl_ptr ?s" using s1(1) ok by (auto simp: go_append_def go_alloc_def slice_ok_def)
    with go_append_other [OF conjunct2 [OF a] _ s2] a False show ?thesis by simp
  qed
  have i: "inc_ID (si_fields x1) = i" by (simp add: s1(2) id)
  have "deref h1 x1 = update_incident now a (deref ?h y)"
    using a by (simp add: s1(2) deref_def update_incident_alerts)
  moreover have "deref h2 x1 = (update_incident now a (deref ?h y))\<lparr>inc_Alerts := inc_Alerts (deref ?h y) @
      [if sl_len ?s < sl_cap ?s then b else a]\<rparr>"
    using b by (simp add: s1(2) deref_def update_incident_def Let_def)
  ultimately show ?thesis using i by (simp add: ss_view_def ss_save_def)
qed

text \<open>
  An incident of three alerts in an array for four, as the runtime leaves it after three calls.
\<close>

definition demo_slices :: "alert list \<Rightarrow> slice_store" where
  "demo_slices as =
     \<lparr>ss_heap = \<lparr>hp_arrays = (\<lambda>p. as @ [zero_alert]), hp_next = 1\<rparr>,
      ss_incidents = [''i'' \<mapsto> \<lparr>si_fields = demo_incident ''i'' 0,
        si_Alerts = \<lparr>sl_ptr = 0, sl_len = length as, sl_cap = Suc (length as)\<rparr>\<rparr>]\<rparr>"

theorem concurrent_append_overwrites_witness:
  "\<exists>x1 h1 x2 h2 z.
     ss_correlate (\<lambda>n. 2 * n) (\<lambda>s. Inr None) ''j'' 7 (demo_alert ''a'' 1)
       (ss_incidents (demo_slices [demo_alert ''x'' 1, demo_alert ''y'' 1, demo_alert ''z'' 1]) ''i'')
       (ss_heap (demo_slices [demo_alert ''x'' 1, demo_alert ''y'' 1, demo_alert ''z'' 1])) = (x1, h1) \<and>
     ss_correlate (\<lambda>n. 2 * n) (\<lambda>s. Inr None) ''k'' 8 (demo_alert ''b'' 1)
       (ss_incidents (demo_slices [demo_alert ''x'' 1, demo_alert ''y'' 1, demo_alert ''z'' 1]) ''i'') h1 = (x2, h2) \<and>
     ms_incidents (ss_view ((ss_save x1 (demo_slices [demo_alert ''x'' 1, demo_alert ''y'' 1, demo_alert ''z'' 1]))
       \<lparr>ss_heap := h2\<rparr>)) ''i'' = Some z \<and>
     map al_Fingerprint (inc_Alerts z) = [''x'', ''y'', ''z'', ''b'']"
proof -
  let ?as = "[demo_alert ''x'' 1, demo_alert ''y'' 1, demo_alert ''z'' 1]"
  let ?st = "demo_slices ?as"
  obtain y where y: "ss_incidents ?st ''i'' = Some y" "sl_len (si_Alerts y) < sl_cap (si_Alerts y)"
    "map al_Fingerprint (inc_Alerts (deref (ss_heap ?st) y)) = [''x'', ''y'', ''z'']"
    by (simp add: demo_slices_def deref_def slice_alerts_def demo_alert_def)
  obtain x1 h1 where c1: "ss_correlate (\<lambda>n. 2 * n) (\<lambda>s. Inr None) ''j'' 7 (demo_alert ''a'' 1) (Some y) (ss_heap ?st) = (x1, h1)"
    by fastforce
  obtain x2 h2 where c2: "ss_correlate (\<lambda>n. 2 * n) (\<lambda>s. Inr None) ''k'' 8 (demo_alert ''b'' 1) (Some y) h1 = (x2, h2)"
    by fastforce
  have "slices_inv ?st" "n \<le> 2 * n" for n :: nat
    by (auto simp: slices_inv_def demo_slices_def slice_ok_def demo_incident_def split: if_splits)
  from concurrent_append_overwrites [OF this y(1) c1 c2] c1 c2 y show ?thesis
    by (simp add: demo_alert_def)
qed

end
