(* ===== verification/Slices_Concurrent.thy ===== *)
theory Slices_Concurrent
  imports Alert_Slices
begin

text \<open>
  Several goroutines at once over the in-memory store as it is, with the arrays that the copies of an
  incident share. A call of \<open>ProcessAlert\<close> is three steps: the search, which returns a copy of the
  struct; the work on the copy, whose \<open>append\<close> writes into the shared array while it has room; and the
  save of the copy. The steps of different calls interleave freely, and a new incident may get any ID,
  so an incident can be replaced by another. The write of one array element is taken as one step.

  An accepted alert can be lost here and the severity can disagree with the alerts
  (\<open>concurrent_append_overwrites\<close>). What no interleaving can break: an incident only ever holds alerts
  that were given to a call and have its own key, its version counts them, and its first alert, with
  the service and the first-alert time taken from it, stays what it was.
\<close>

datatype slice_thread =
    SIdle
  | SFound alert time "shared_incident option"  \<comment> \<open>the search has returned its copy\<close>
  | SReady shared_incident  \<comment> \<open>the copy has its alert and is about to be saved\<close>

record slice_world =
  sw_store :: slice_store
  sw_threads :: "nat \<Rightarrow> slice_thread"
  sw_received :: "alert list"  \<comment> \<open>the alerts given to the calls\<close>

definition init_slices :: slice_world where
  "init_slices = \<lparr>sw_store = empty_slices, sw_threads = (\<lambda>_. SIdle), sw_received = []\<rparr>"

inductive slice_step :: "(nat \<Rightarrow> nat) \<Rightarrow> duration \<Rightarrow> slice_world \<Rightarrow> slice_world \<Rightarrow> bool"
  for grow window where
  search: "slice_step grow window w
      (w\<lparr>sw_threads := (sw_threads w)(n := SFound a now (ss_find (buildCorrelationKey a) window e (sw_store w))),
         sw_received := a # sw_received w\<rparr>)"
    if "sw_threads w n = SIdle"
| correlate: "slice_step grow window w
      (w\<lparr>sw_store := (sw_store w)\<lparr>ss_heap := h\<rparr>, sw_threads := (sw_threads w)(n := SReady x)\<rparr>)"
    if "sw_threads w n = SFound a now found"
      and "ss_correlate grow g i now a found (ss_heap (sw_store w)) = (x, h)"
| save: "slice_step grow window w
      (w\<lparr>sw_store := ss_save x (sw_store w), sw_threads := (sw_threads w)(n := SIdle)\<rparr>)"
    if "sw_threads w n = SReady x"

abbreviation slice_run where
  "slice_run grow window \<equiv> (slice_step grow window)\<^sup>*\<^sup>*"

section \<open>What every copy keeps\<close>

text \<open>All copies of incidents: the stored ones and those that calls are working on.\<close>

definition copies :: "slice_world \<Rightarrow> shared_incident set" where
  "copies w = ran (ss_incidents (sw_store w)) \<union> {x. \<exists>n a now. sw_threads w n = SFound a now (Some x)} \<union>
     {x. \<exists>n. sw_threads w n = SReady x}"

definition copy_ok :: "alert_heap \<Rightarrow> alert list \<Rightarrow> shared_incident \<Rightarrow> bool" where
  "copy_ok h R x \<longleftrightarrow> slice_ok h (si_Alerts x) \<and> 0 < sl_len (si_Alerts x) \<and>
     set (slice_alerts h (si_Alerts x)) \<subseteq> set R \<and>
     (\<forall>a \<in> set (slice_alerts h (si_Alerts x)). buildCorrelationKey a = inc_CorrelationKey (si_fields x)) \<and>
     inc_CorrelationVersion (si_fields x) = wrap64 (int (sl_len (si_Alerts x))) \<and>
     inc_FirstAlertAt (si_fields x) = al_StartsAt (hd (slice_alerts h (si_Alerts x))) \<and>
     inc_Service (si_fields x) = primaryServiceFromLabels (al_Labels (hd (slice_alerts h (si_Alerts x)))) \<and>
     inc_State (si_fields x) = IncidentStateOpen"

definition slice_world_inv :: "slice_world \<Rightarrow> bool" where
  "slice_world_inv w \<longleftrightarrow>
     (\<forall>x \<in> copies w. copy_ok (ss_heap (sw_store w)) (sw_received w) x) \<and>
     (\<forall>x \<in> copies w. \<forall>y \<in> copies w. sl_ptr (si_Alerts x) = sl_ptr (si_Alerts y) \<longrightarrow>
        inc_CorrelationKey (si_fields x) = inc_CorrelationKey (si_fields y)) \<and>
     (\<forall>i x. ss_incidents (sw_store w) i = Some x \<longrightarrow> inc_ID (si_fields x) = i) \<and>
     (\<forall>n a now found. sw_threads w n = SFound a now found \<longrightarrow> a \<in> set (sw_received w) \<and>
        (\<forall>x. found = Some x \<longrightarrow> inc_CorrelationKey (si_fields x) = buildCorrelationKey a))"

lemma copy_ok_mono: "copy_ok h R x \<Longrightarrow> set R \<subseteq> set R' \<Longrightarrow> copy_ok h R' x"
  by (auto simp: copy_ok_def)

lemma slice_alerts_length: "slice_ok h s \<Longrightarrow> length (slice_alerts h s) = sl_len s"
  by (simp add: slice_alerts_def slice_ok_def)

text \<open>A new array: the copies so far do not see it.\<close>

lemma go_alloc_copy:
  assumes "go_alloc cap xs h = (s, h')" "copy_ok h R y"
  shows "copy_ok h' R y \<and> sl_ptr (si_Alerts y) \<noteq> sl_ptr s"
  using go_alloc_other [OF _ assms(1), of "si_Alerts y"] assms(2) by (simp add: copy_ok_def)

text \<open>
  A write behind the end of a slice: a longer slice into the same array sees the new alert, at an index
  that is not the first.
\<close>

lemma in_place_copy:
  assumes "copy_ok h R y" "copy_ok h R x" "a \<in> set R" "buildCorrelationKey a = inc_CorrelationKey (si_fields x)"
    and "sl_ptr (si_Alerts y) = sl_ptr (si_Alerts x) \<Longrightarrow> inc_CorrelationKey (si_fields y) = inc_CorrelationKey (si_fields x)"
    and "h' = h\<lparr>hp_arrays := (hp_arrays h)(sl_ptr (si_Alerts x) := (hp_arrays h (sl_ptr (si_Alerts x)))[sl_len (si_Alerts x) := a])\<rparr>"
  shows "copy_ok h' R y"
proof (cases "sl_ptr (si_Alerts y) = sl_ptr (si_Alerts x)")
  case True
  let ?xs = "hp_arrays h (sl_ptr (si_Alerts x))" and ?n = "sl_len (si_Alerts y)" and ?m = "sl_len (si_Alerts x)"
  have new: "slice_alerts h' (si_Alerts y) = (take ?n ?xs)[?m := a]"
    using True by (simp add: assms(6) slice_alerts_def take_update_swap)
  have old: "slice_alerts h (si_Alerts y) = take ?n ?xs" using True by (simp add: slice_alerts_def)
  have "set (slice_alerts h' (si_Alerts y)) \<subseteq> insert a (set (slice_alerts h (si_Alerts y)))"
    unfolding new old by (rule set_update_subset_insert)
  moreover have "hd ((take ?n ?xs)[?m := a]) = hd (take ?n ?xs)"
    using assms(2) by (cases "take ?n ?xs"; cases ?m) (auto simp: copy_ok_def)
  moreover have "slice_ok h' (si_Alerts y)" using assms(1) by (auto simp: copy_ok_def slice_ok_def assms(6))
  ultimately show ?thesis
    using assms(1,3,4) assms(5) [OF True] unfolding copy_ok_def new old by auto
next
  case False
  then have "slice_alerts h' (si_Alerts y) = slice_alerts h (si_Alerts y)" "slice_ok h' (si_Alerts y) = slice_ok h (si_Alerts y)"
    by (simp_all add: assms(6) slice_alerts_def slice_ok_def)
  with assms(1) show ?thesis by (simp add: copy_ok_def)
qed

lemma updated_fields:
  "inc_CorrelationKey (update_incident now a r) = inc_CorrelationKey r" "inc_State (update_incident now a r) = inc_State r"
  "inc_FirstAlertAt (update_incident now a r) = inc_FirstAlertAt r" "inc_Service (update_incident now a r) = inc_Service r"
  "inc_CorrelationVersion (update_incident now a r) = wrap64 (inc_CorrelationVersion r + 1)"
  by (simp_all add: update_incident_def Let_def)

lemma correlate_copies:
  assumes "ss_correlate grow g i now a found h = (x, h')" "\<And>n. n \<le> grow n" "a \<in> set R"
    and C: "\<And>y. y \<in> C \<Longrightarrow> copy_ok h R y"
    and K: "\<And>y z. y \<in> C \<Longrightarrow> z \<in> C \<Longrightarrow> sl_ptr (si_Alerts y) = sl_ptr (si_Alerts z) \<Longrightarrow>
        inc_CorrelationKey (si_fields y) = inc_CorrelationKey (si_fields z)"
    and found: "\<And>y. found = Some y \<Longrightarrow> y \<in> C \<and> inc_CorrelationKey (si_fields y) = buildCorrelationKey a"
  shows "(\<forall>y \<in> insert x C. copy_ok h' R y) \<and> (\<forall>y \<in> C. sl_ptr (si_Alerts y) = sl_ptr (si_Alerts x) \<longrightarrow>
      inc_CorrelationKey (si_fields y) = inc_CorrelationKey (si_fields x))"
proof -
  consider (new) s where "found = None" "go_alloc 1 [a] h = (s, h')" "x = \<lparr>si_fields = new_incident g i now a, si_Alerts = s\<rparr>"
    | (append) y s where "found = Some y" "go_append grow (si_Alerts y) a h = (s, h')"
        "x = \<lparr>si_fields = update_incident now a (si_fields y), si_Alerts = s\<rparr>"
    using assms(1) by (cases found) (auto simp: ss_correlate_def split: prod.splits)
  then show ?thesis
  proof cases
    case new
    have "copy_ok h' R x"
      using go_alloc_ok [OF _ new(2)] new(2,3) assms(3)
      by (auto simp: copy_ok_def new_incident_def Let_def go_alloc_def min_int64_def max_int64_def)
    with go_alloc_copy [OF new(2) C] new(3) show ?thesis by auto
  next
    case (append y s)
    note y = found [OF append(1)]
    have ok: "copy_ok h R y" using C y by blast
    note app = go_append_ok [OF _ assms(2) append(2)]
    have s: "slice_alerts h' s = slice_alerts h (si_Alerts y) @ [a]" "slice_ok h' s"
      using app ok by (auto simp: copy_ok_def)
    have len: "sl_len s = Suc (sl_len (si_Alerts y))"
      using slice_alerts_length [OF s(2)] s(1) slice_alerts_length [of h "si_Alerts y"] ok by (simp add: copy_ok_def)
    have ne: "slice_alerts h (si_Alerts y) \<noteq> []"
      using slice_alerts_length [of h "si_Alerts y"] ok by (auto simp: copy_ok_def)
    have "wrap64 (inc_CorrelationVersion (si_fields y) + 1) = wrap64 (int (sl_len s))"
      using ok wrap64_Suc [of "int (sl_len (si_Alerts y))"] by (simp add: copy_ok_def len add.commute)
    with ok y s len ne assms(3) have x: "copy_ok h' R x"
      unfolding copy_ok_def append(3) by (simp add: updated_fields)
    have key: "inc_CorrelationKey (si_fields x) = inc_CorrelationKey (si_fields y)"
      by (simp add: append(3) updated_fields)
    show ?thesis
    proof (cases "sl_len (si_Alerts y) < sl_cap (si_Alerts y)")
      case True
      then have h': "h' = h\<lparr>hp_arrays := (hp_arrays h)(sl_ptr (si_Alerts y) := (hp_arrays h (sl_ptr (si_Alerts y)))[sl_len (si_Alerts y) := a])\<rparr>"
        and p: "sl_ptr s = sl_ptr (si_Alerts y)" using append(2) by (auto simp: go_append_def)
      have "copy_ok h' R z" if "z \<in> C" for z
        by (rule in_place_copy [OF C [OF that] ok assms(3) _ K [OF that conjunct1 [OF y]] h']) (simp add: y)
      moreover have "sl_ptr (si_Alerts x) = sl_ptr (si_Alerts y)" using p by (simp add: append(3))
      ultimately show ?thesis using x K y key by (metis insert_iff)
    next
      case False
      then have "go_alloc (grow (Suc (sl_len (si_Alerts y)))) (slice_alerts h (si_Alerts y) @ [a]) h = (s, h')"
        using append(2) by (simp add: go_append_def)
      from go_alloc_copy [OF this C] x append(3) show ?thesis by auto
    qed
  qed
qed

lemma ss_find_copy:
  assumes "\<forall>i x. ss_incidents st i = Some x \<longrightarrow> inc_ID (si_fields x) = i" "ss_find k w e st = Some y"
  shows "y \<in> ran (ss_incidents st) \<and> inc_CorrelationKey (si_fields y) = k"
proof -
  from assms(2) obtain x where x: "mem_find_loop k w (me_now e) (ss_view st) (me_keys e) None = Some x"
    "ss_incidents st (inc_ID x) = Some y" by (auto simp: ss_find_def split: option.splits)
  from mem_find_loop_sound [OF x(1)] obtain i z where "ss_incidents st i = Some z" "x = deref (ss_heap st) z"
    "inc_CorrelationKey x = k" by (auto simp: ss_view_def mem_eligible_def)
  with assms(1) x(2) show ?thesis by (auto simp: deref_def ran_def)
qed

lemma slice_step_inv:
  assumes "slice_step grow window w w'" "\<And>n. n \<le> grow n" "slice_world_inv w"
  shows "slice_world_inv w'"
  using assms(1)
proof (cases rule: slice_step.cases)
  case (search n a now e)
  let ?found = "ss_find (buildCorrelationKey a) window e (sw_store w)"
  have f: "y \<in> ran (ss_incidents (sw_store w)) \<and> inc_CorrelationKey (si_fields y) = buildCorrelationKey a" if "?found = Some y" for y
    by (rule ss_find_copy [OF _ that]) (use assms(3) in \<open>simp add: slice_world_inv_def\<close>)
  have sub: "copies w' \<subseteq> copies w" using f search by (auto simp: copies_def split: if_splits)
  have "copy_ok h (a # sw_received w) x" if "copy_ok h (sw_received w) x" for h x
    by (rule copy_ok_mono [OF that]) auto
  then have "\<forall>x \<in> copies w. copy_ok (ss_heap (sw_store w)) (a # sw_received w) x"
    using assms(3) by (simp add: slice_world_inv_def)
  with sub have "\<forall>x \<in> copies w'. copy_ok (ss_heap (sw_store w)) (a # sw_received w) x" by blast
  moreover have "\<forall>x \<in> copies w'. \<forall>y \<in> copies w'. sl_ptr (si_Alerts x) = sl_ptr (si_Alerts y) \<longrightarrow>
        inc_CorrelationKey (si_fields x) = inc_CorrelationKey (si_fields y)"
    using sub assms(3) unfolding slice_world_inv_def by (meson subsetD)
  moreover have "b \<in> set (a # sw_received w) \<and>
      (\<forall>x. found = Some x \<longrightarrow> inc_CorrelationKey (si_fields x) = buildCorrelationKey b)"
    if "sw_threads w' m = SFound b t found" for m b t found
  proof (cases "m = n")
    case True
    with that search(1) have "b = a" "found = ?found" by auto
    with f show ?thesis by simp
  next
    case False
    with that search(1) assms(3) show ?thesis by (auto simp: slice_world_inv_def)
  qed
  moreover have "\<forall>i x. ss_incidents (sw_store w) i = Some x \<longrightarrow> inc_ID (si_fields x) = i"
    using assms(3) by (simp add: slice_world_inv_def)
  moreover have st: "sw_store w' = sw_store w" "sw_received w' = a # sw_received w" using search(1) by simp_all
  ultimately show ?thesis unfolding slice_world_inv_def st by blast
next
  case (correlate n a now found g i x h)
  have "a \<in> set (sw_received w)" and key: "\<And>y. found = Some y \<Longrightarrow> inc_CorrelationKey (si_fields y) = buildCorrelationKey a"
    using assms(3) correlate(2) unfolding slice_world_inv_def by blast+
  moreover have "y \<in> copies w" if "found = Some y" for y
    using correlate(2) that by (auto simp: copies_def)
  ultimately have c: "(\<forall>y \<in> insert x (copies w). copy_ok h (sw_received w) y) \<and>
      (\<forall>y \<in> copies w. sl_ptr (si_Alerts y) = sl_ptr (si_Alerts x) \<longrightarrow>
        inc_CorrelationKey (si_fields y) = inc_CorrelationKey (si_fields x))"
    using assms(3) unfolding slice_world_inv_def
    by (intro correlate_copies [OF correlate(3) assms(2)]) blast+
  have sub: "copies w' \<subseteq> insert x (copies w)" using correlate(1) by (auto simp: copies_def split: if_splits)
  have "inc_CorrelationKey (si_fields y) = inc_CorrelationKey (si_fields z)"
    if "y \<in> insert x (copies w)" "z \<in> insert x (copies w)" "sl_ptr (si_Alerts y) = sl_ptr (si_Alerts z)" for y z
    using that c assms(3) unfolding slice_world_inv_def by (metis insert_iff)
  then have keys: "\<forall>y \<in> copies w'. \<forall>z \<in> copies w'. sl_ptr (si_Alerts y) = sl_ptr (si_Alerts z) \<longrightarrow>
        inc_CorrelationKey (si_fields y) = inc_CorrelationKey (si_fields z)"
    using sub by (meson subsetD)
  have copies: "\<forall>y \<in> copies w'. copy_ok h (sw_received w) y" using sub c by blast
  have "sw_threads w m = SFound b t found'" if "sw_threads w' m = SFound b t found'" for m b t found'
    using that correlate(1) by (auto split: if_splits)
  then have threads: "\<forall>m b t found'. sw_threads w' m = SFound b t found' \<longrightarrow> b \<in> set (sw_received w) \<and>
      (\<forall>y. found' = Some y \<longrightarrow> inc_CorrelationKey (si_fields y) = buildCorrelationKey b)"
    using assms(3) unfolding slice_world_inv_def by blast
  have ids: "\<forall>i x. ss_incidents (sw_store w) i = Some x \<longrightarrow> inc_ID (si_fields x) = i"
    using assms(3) by (simp add: slice_world_inv_def)
  have st: "ss_incidents (sw_store w') = ss_incidents (sw_store w)" "ss_heap (sw_store w') = h" "sw_received w' = sw_received w"
    using correlate(1) by simp_all
  show ?thesis unfolding slice_world_inv_def st using keys copies threads ids by blast
next
  case (save n x)
  have x: "x \<in> copies w" using save(2) by (auto simp: copies_def)
  have inc: "ss_incidents (sw_store w') = (ss_incidents (sw_store w))(inc_ID (si_fields x) \<mapsto> x)"
    and st: "ss_heap (sw_store w') = ss_heap (sw_store w)" "sw_received w' = sw_received w"
    using save(1) by (simp_all add: ss_save_def)
  have th: "sw_threads w' = (sw_threads w)(n := SIdle)" using save(1) by simp
  have "ran (ss_incidents (sw_store w')) \<subseteq> insert x (ran (ss_incidents (sw_store w)))"
    unfolding inc by (auto simp: ran_def)
  then have sub: "copies w' \<subseteq> copies w" using x by (auto simp: copies_def th split: if_splits)
  have ids: "\<forall>i y. ss_incidents (sw_store w') i = Some y \<longrightarrow> inc_ID (si_fields y) = i"
    using assms(3) by (auto simp: inc slice_world_inv_def)
  have threads: "\<forall>m b t found. sw_threads w' m = SFound b t found \<longrightarrow> b \<in> set (sw_received w) \<and>
      (\<forall>y. found = Some y \<longrightarrow> inc_CorrelationKey (si_fields y) = buildCorrelationKey b)"
    using assms(3) by (auto simp: th slice_world_inv_def)
  show ?thesis
    using assms(3) sub ids threads unfolding slice_world_inv_def st by (meson subsetD)
qed

lemma slice_run_inv:
  assumes "slice_run grow window init_slices w" "\<And>n. n \<le> grow n"
  shows "slice_world_inv w"
  using assms(1)
proof (induction rule: rtranclp_induct)
  case base
  show ?case by (simp add: slice_world_inv_def init_slices_def empty_slices_def copies_def)
next
  case (step v w)
  then show ?case using slice_step_inv assms(2) by blast
qed

text \<open>
  C6: whatever the interleaving of concurrent calls over the arrays that the copies share, whatever
  capacities the runtime chooses and whatever IDs the incidents get, an incident of the in-memory store
  is open and stored under its own ID; it has at least one alert, all of them are alerts that were given
  to a call, and each has the incident's correlation key; its version counts them; and its service and
  first-alert time are those of the first of them.
\<close>

theorem shared_incidents_consistent:
  assumes "slice_run grow window init_slices w" "\<And>n. n \<le> grow n"
    and "ms_incidents (ss_view (sw_store w)) i = Some x"
  shows "inc_ID x = i \<and> inc_State x = IncidentStateOpen \<and> inc_Alerts x \<noteq> [] \<and>
    set (inc_Alerts x) \<subseteq> set (sw_received w) \<and>
    (\<forall>a \<in> set (inc_Alerts x). buildCorrelationKey a = inc_CorrelationKey x) \<and>
    inc_CorrelationVersion x = wrap64 (int (length (inc_Alerts x))) \<and>
    inc_FirstAlertAt x = al_StartsAt (hd (inc_Alerts x)) \<and>
    inc_Service x = primaryServiceFromLabels (al_Labels (hd (inc_Alerts x)))"
proof -
  from assms(3) obtain y where y: "ss_incidents (sw_store w) i = Some y" "x = deref (ss_heap (sw_store w)) y"
    by (auto simp: ss_view_def)
  have "y \<in> copies w" using y(1) by (auto simp: copies_def ran_def)
  with slice_run_inv [OF assms(1,2)] y(1)
  have "copy_ok (ss_heap (sw_store w)) (sw_received w) y" "inc_ID (si_fields y) = i"
    unfolding slice_world_inv_def by blast+
  then show ?thesis using slice_alerts_length [of "ss_heap (sw_store w)" "si_Alerts y"]
    by (auto simp: y(2) deref_def copy_ok_def)
qed

theorem shared_incidents_consistent_witness:
  "\<exists>w x. slice_run (\<lambda>n. 2 * n) 900 init_slices w \<and> ms_incidents (ss_view (sw_store w)) ''i'' = Some x \<and>
     inc_Alerts x \<noteq> [] \<and> set (inc_Alerts x) \<subseteq> {demo_alert ''f'' 1} \<and> inc_CorrelationVersion x = wrap64 (int (length (inc_Alerts x)))"
proof -
  let ?a = "demo_alert ''f'' 1" and ?R = "slice_step (\<lambda>n. 2 * n) 900" and ?e = "\<lparr>me_now = 9, me_keys = []\<rparr>"
  obtain x h where c: "ss_correlate (\<lambda>n. 2 * n) (\<lambda>s. Inr None) ''i'' 9 ?a None (ss_heap empty_slices) = (x, h)" by fastforce
  then have i: "inc_ID (si_fields x) = ''i''" by (auto simp: ss_correlate_def new_incident_def Let_def split: prod.splits)
  let ?u = "init_slices\<lparr>sw_threads := (sw_threads init_slices)(0 := SFound ?a 9 None), sw_received := [?a]\<rparr>"
  let ?v = "?u\<lparr>sw_store := (sw_store ?u)\<lparr>ss_heap := h\<rparr>, sw_threads := (sw_threads ?u)(0 := SReady x)\<rparr>"
  let ?w = "?v\<lparr>sw_store := ss_save x (sw_store ?v), sw_threads := (sw_threads ?v)(0 := SIdle)\<rparr>"
  have 1: "?R init_slices ?u"
    using slice_step.search [of init_slices 0 "\<lambda>n. 2 * n" 900 ?a 9 ?e]
    by (simp add: init_slices_def ss_find_def)
  have 2: "?R ?u ?v" by (rule slice_step.correlate [where n = 0]) (use c in \<open>simp_all add: init_slices_def\<close>)
  have 3: "?R ?v ?w" by (rule slice_step.save) simp
  from 1 2 3 have run: "slice_run (\<lambda>n. 2 * n) 900 init_slices ?w" by (meson r_into_rtranclp rtranclp.rtrancl_into_rtrancl)
  obtain y where y: "ms_incidents (ss_view (sw_store ?w)) ''i'' = Some y" by (simp add: ss_view_def ss_save_def i)
  have "n \<le> 2 * n" for n :: nat by simp
  from shared_incidents_consistent [OF run this y]
  have "inc_Alerts y \<noteq> [] \<and> set (inc_Alerts y) \<subseteq> {?a} \<and> inc_CorrelationVersion y = wrap64 (int (length (inc_Alerts y)))"
    by simp
  with run y show ?thesis by blast
qed

end
