(* ===== verification/Migration.thy ===== *)
theory Migration
  imports Prelude
begin

text \<open>
  \<open>migrations/000001_init.up.sql\<close> and \<open>000001_init.down.sql\<close>: the statements that create and remove the
  tables on which \<open>Pg_Queries\<close> works, on a schema: the names of the tables, with the tables that their
  foreign keys refer to, and of the indexes, with their table. Columns and checks are in \<open>Pg_Queries\<close>;
  the objects behind a PRIMARY KEY, UNIQUE or SERIAL have no name here. A migration is run as one
  transaction.
\<close>

section \<open>Statements\<close>

datatype relation =
    Table "string list"  \<comment> \<open>the tables it refers to\<close>
  | Index string  \<comment> \<open>its table\<close>

type_synonym schema = "(string \<times> relation) list"

datatype ddl =
    CreateTableIfNotExists string "string list"
  | CreateIndex string string
  | DropTableIfExists string

fun is_table :: "relation option \<Rightarrow> bool" where
  "is_table (Some (Table _)) \<longleftrightarrow> True"
| "is_table _ \<longleftrightarrow> False"

definition refers_to :: "string \<Rightarrow> string \<times> relation \<Rightarrow> bool" where
  \<comment> \<open>another table with a foreign key to the table\<close>
  "refers_to name r = (case r of (n, Table refs) \<Rightarrow> n \<noteq> name \<and> name \<in> set refs | _ \<Rightarrow> False)"

fun exec_ddl :: "ddl \<Rightarrow> schema \<Rightarrow> schema result" where
  "exec_ddl (CreateTableIfNotExists name refs) s =
     (if name \<in> fst ` set s then Inr s
      else if list_all (\<lambda>t. t = name \<or> is_table (map_of s t)) refs then Inr ((name, Table refs) # s)
      else Inl ''referenced relation does not exist'')"
| "exec_ddl (CreateIndex name t) s =
     (if name \<in> fst ` set s then Inl (''relation '' @ name @ '' already exists'')
      else if is_table (map_of s t) then Inr ((name, Index t) # s)
      else Inl (''relation '' @ t @ '' does not exist''))"
| "exec_ddl (DropTableIfExists name) s =
     (case map_of s name of
        None \<Rightarrow> Inr s
      | Some (Index _) \<Rightarrow> Inl (name @ '' is not a table'')
      | Some (Table _) \<Rightarrow>
          if list_ex (refers_to name) s then Inl (''cannot drop table '' @ name @ '' because other objects depend on it'')
          else Inr (filter (\<lambda>r. fst r \<noteq> name \<and> snd r \<noteq> Index name) s))"

fun run_migration :: "ddl list \<Rightarrow> schema \<Rightarrow> schema result" where
  "run_migration [] s = Inr s"
| "run_migration (d # ds) s = (case exec_ddl d s of Inl err \<Rightarrow> Inl err | Inr s' \<Rightarrow> run_migration ds s')"

section \<open>The migrations\<close>

definition init_up :: "ddl list" where
  "init_up =
     [CreateTableIfNotExists ''incidents'' [],
      CreateIndex ''idx_incidents_correlation_key'' ''incidents'',
      CreateIndex ''idx_incidents_state'' ''incidents'',
      CreateIndex ''idx_incidents_last_alert_at'' ''incidents'',
      CreateIndex ''idx_incidents_created_at'' ''incidents'',
      CreateIndex ''idx_incidents_correlation_open'' ''incidents'',
      CreateTableIfNotExists ''alerts'' [''incidents''],
      CreateIndex ''idx_alerts_incident_id'' ''alerts'',
      CreateIndex ''idx_alerts_fingerprint'' ''alerts'',
      CreateIndex ''idx_alerts_starts_at'' ''alerts'']"

definition init_down :: "ddl list" where
  "init_down = [DropTableIfExists ''alerts'', DropTableIfExists ''incidents'']"

fun created :: "ddl \<Rightarrow> string list" where
  "created (CreateTableIfNotExists name _) = [name]"
| "created (CreateIndex name _) = [name]"
| "created (DropTableIfExists _) = []"

definition unrelated :: "schema \<Rightarrow> bool" where
  \<comment> \<open>a schema with none of the names, and nothing that depends on them\<close>
  "unrelated s \<longleftrightarrow> (\<forall>d \<in> set init_up. set (created d) \<inter> fst ` set s = {}) \<and>
     (\<forall>r \<in> set s. \<not> refers_to ''alerts'' r \<and> \<not> refers_to ''incidents'' r \<and>
        snd r \<noteq> Index ''alerts'' \<and> snd r \<noteq> Index ''incidents'')"

definition init_relations :: schema where
  "init_relations =
     [(''idx_alerts_starts_at'', Index ''alerts''), (''idx_alerts_fingerprint'', Index ''alerts''),
      (''idx_alerts_incident_id'', Index ''alerts''), (''alerts'', Table [''incidents'']),
      (''idx_incidents_correlation_open'', Index ''incidents''), (''idx_incidents_created_at'', Index ''incidents''),
      (''idx_incidents_last_alert_at'', Index ''incidents''), (''idx_incidents_state'', Index ''incidents''),
      (''idx_incidents_correlation_key'', Index ''incidents''), (''incidents'', Table [])]"

lemma init_up_names:
  "unrelated s \<Longrightarrow> ''incidents'' \<notin> fst ` set s \<and> ''alerts'' \<notin> fst ` set s \<and>
     ''idx_incidents_correlation_key'' \<notin> fst ` set s \<and> ''idx_incidents_state'' \<notin> fst ` set s \<and>
     ''idx_incidents_last_alert_at'' \<notin> fst ` set s \<and> ''idx_incidents_created_at'' \<notin> fst ` set s \<and>
     ''idx_incidents_correlation_open'' \<notin> fst ` set s \<and> ''idx_alerts_incident_id'' \<notin> fst ` set s \<and>
     ''idx_alerts_fingerprint'' \<notin> fst ` set s \<and> ''idx_alerts_starts_at'' \<notin> fst ` set s"
  by (simp add: unrelated_def init_up_def)

lemma init_up_creates:
  assumes "unrelated s"
  shows "run_migration init_up s = Inr (init_relations @ s)"
  using init_up_names [OF assms] by (simp add: init_up_def init_relations_def)

lemma unrelated_kept:
  assumes "unrelated s" "name = ''alerts'' \<or> name = ''incidents''"
  shows "filter (\<lambda>r. fst r \<noteq> name \<and> snd r \<noteq> Index name) s = s" "\<not> list_ex (refers_to name) s"
proof -
  have "name \<notin> fst ` set s" using init_up_names [OF assms(1)] assms(2) by (elim disjE) simp_all
  then have "fst r \<noteq> name" if "r \<in> set s" for r using that by (metis imageI)
  moreover have "snd r \<noteq> Index name" "\<not> refers_to name r" if "r \<in> set s" for r
    using assms that by (auto simp: unrelated_def)
  ultimately show "filter (\<lambda>r. fst r \<noteq> name \<and> snd r \<noteq> Index name) s = s" "\<not> list_ex (refers_to name) s"
    by (simp_all add: filter_id_conv list_ex_iff)
qed

text \<open>
  The down migration undoes the up migration, whatever else the schema has.
\<close>

theorem init_down_undoes:
  assumes "unrelated s"
  shows "\<exists>s'. run_migration init_up s = Inr s' \<and> run_migration init_down s' = Inr s"
proof -
  have "run_migration init_down (init_relations @ s) = Inr s"
    using unrelated_kept [OF assms, of "''alerts''"] unrelated_kept [OF assms, of "''incidents''"]
    by (simp add: init_down_def init_relations_def refers_to_def)
  with init_up_creates [OF assms] show ?thesis by simp
qed

theorem init_down_undoes_witness:
  "\<exists>s'. run_migration init_up [(''schema_migrations'', Table [])] = Inr s' \<and>
     run_migration init_down s' = Inr [(''schema_migrations'', Table [])]"
  by (rule init_down_undoes) (simp add: unrelated_def init_up_def refers_to_def)

text \<open>
  The order of the down migration matters, and the up migration cannot be repeated: its tables are
  created only if they do not exist, its indexes unconditionally.
\<close>

lemma incidents_dropped_first:
  "unrelated s \<Longrightarrow> run_migration (rev init_down) (init_relations @ s) =
     Inl ''cannot drop table incidents because other objects depend on it''"
  by (simp add: init_down_def init_relations_def refers_to_def)

lemma init_up_not_repeatable:
  "run_migration init_up (init_relations @ s) = Inl ''relation idx_incidents_correlation_key already exists''"
  by (simp add: init_up_def init_relations_def)

end
